(* ===== verification/Zttp_Prelude.thy ===== *)
theory Zttp_Prelude
  imports Main "HOL-Library.Word" "HOL-Library.Sublist"
begin

text \<open>
  Shared vocabulary of the development.

  Every Go string and every byte slice of the program is a list of bytes; an Isabelle
  \<^typ>\<open>char\<close> is exactly one byte, so both are \<^typ>\<open>string\<close>. Instants and durations are
  integers counting nanoseconds, as in Go's \<^verbatim>\<open>time\<close> package. A UUID is its 128 bits.

  The theory also holds the interfaces that several components implement: a keyed store, a
  framed byte format, a transition system with an invariant and its refinement of a
  specification. Each is a locale whose lemmas are proved once here and used through an
  interpretation in the providing component.
\<close>

type_synonym bytes = string
type_synonym rune = nat
type_synonym instant = int
type_synonym duration = int
type_synonym uuid = "128 word"

named_theorems byte_simps \<open>arithmetic of bytes and of the integers they encode\<close>
named_theorems store_simps \<open>what a lookup returns after an update\<close>
named_theorems frame_simps \<open>fields an operation leaves alone\<close>

abbreviation second :: duration where "second \<equiv> 1000000000"
abbreviation minute :: duration where "minute \<equiv> 60 * second"

subsection \<open>Bytes\<close>

definition ascii :: "char \<Rightarrow> bool" where
  "ascii c \<longleftrightarrow> (of_char c :: nat) < 128"

definition crlf :: string where
  "crlf = [CHR 0x0D, CHR 0x0A]"

definition esc :: char where
  "esc = CHR 0x1B"

subsection \<open>Sorting in descending order\<close>

text \<open>\<^verbatim>\<open>ORDER BY k DESC\<close>: keys compared the other way round.\<close>

datatype desc = Desc (desc_key: int)

instantiation desc :: linorder
begin

definition less_eq_desc :: "desc \<Rightarrow> desc \<Rightarrow> bool" where
  "less_eq_desc a b \<longleftrightarrow> desc_key b \<le> desc_key a"

definition less_desc :: "desc \<Rightarrow> desc \<Rightarrow> bool" where
  "less_desc a b \<longleftrightarrow> desc_key b < desc_key a"

instance
  by standard (auto simp: less_eq_desc_def less_desc_def desc.expand)

end

lemma Desc_le_iff [simp]: "Desc a \<le> Desc b \<longleftrightarrow> b \<le> a"
  by (simp add: less_eq_desc_def)

subsection \<open>Generic lemmas\<close>

lemma ascii_0x80 [simp]: "ascii c \<Longrightarrow> \<not> 128 \<le> (of_char c :: nat)"
  by (simp add: ascii_def)

subsection \<open>Runs of a component\<close>

text \<open>The results of a sequence of calls, each paired with its input, and the state left.\<close>

fun run_steps :: "('i \<Rightarrow> 's \<Rightarrow> 'r \<times> 's) \<Rightarrow> 's \<Rightarrow> 'i list \<Rightarrow> ('i \<times> 'r) list \<times> 's" where
  "run_steps f s [] = ([], s)"
| "run_steps f s (i # is) =
     (let (r, s1) = f i s; (rs, s2) = run_steps f s1 is in ((i, r) # rs, s2))"

lemma run_steps_append:
  "run_steps f s (is @ js) =
     (let (rs, s1) = run_steps f s is; (rs', s2) = run_steps f s1 js in (rs @ rs', s2))"
  by (induction "is" arbitrary: s) (auto simp: Let_def split: prod.splits)

subsection \<open>Interface: a machine that serves many keys independently\<close>

text \<open>
  A component whose calls each concern one key (an IP address, an account) and whose answer to a
  call depends on nothing but what it stores for that key. Its clients may then reason about one
  key at a time: in any interleaving, the answers for a key are those of the calls for that key
  alone.
\<close>

locale keyed_machine =
  fixes step :: "'i \<Rightarrow> 's \<Rightarrow> 'r \<times> 's"
    and key :: "'i \<Rightarrow> 'k"
    and view :: "'s \<Rightarrow> 'k \<Rightarrow> 'v"
    and inv :: "'s \<Rightarrow> bool"
  assumes inv_step: "inv s \<Longrightarrow> inv (snd (step i s))"
    and other_key: "inv s \<Longrightarrow> key i \<noteq> k \<Longrightarrow> view (snd (step i s)) k = view s k"
    and own_result: "inv s \<Longrightarrow> inv t \<Longrightarrow> view s (key i) = view t (key i) \<Longrightarrow> fst (step i s) = fst (step i t)"
    and own_view: "inv s \<Longrightarrow> inv t \<Longrightarrow> view s (key i) = view t (key i) \<Longrightarrow>
      view (snd (step i s)) (key i) = view (snd (step i t)) (key i)"
begin

lemma inv_run: "inv s \<Longrightarrow> inv (snd (run_steps step s is))"
proof (induction "is" arbitrary: s)
  case (Cons i "is")
  obtain r s1 where st: "step i s = (r, s1)" by fastforce
  then have "inv s1" using inv_step [of s i] Cons.prems by simp
  then show ?case using Cons.IH [of s1] st by (auto split: prod.splits)
qed simp

lemma isolation_gen:
  assumes "inv s" "inv t" "view s k = view t k"
  shows "filter (\<lambda>x. key (fst x) = k) (fst (run_steps step s is)) =
    fst (run_steps step t (filter (\<lambda>i. key i = k) is))"
  using assms
proof (induction "is" arbitrary: s t)
  case (Cons i "is")
  obtain r s1 r' t1 where st: "step i s = (r, s1)" "step i t = (r', t1)" by fastforce
  have inv: "inv s1" "inv t1" using inv_step [of s i] inv_step [of t i] Cons.prems st by simp_all
  show ?case
  proof (cases "key i = k")
    case True
    have "r = r'" "view s1 k = view t1 k"
      using own_result [of s t i] own_view [of s t i] Cons.prems st True by simp_all
    then show ?thesis using Cons.IH [OF inv] st True by (auto split: prod.splits)
  next
    case False
    have "view s1 k = view t k"
      using other_key [of s i k] Cons.prems st False by simp
    then show ?thesis using Cons.IH [OF inv(1) Cons.prems(2)] st False by (auto split: prod.splits)
  qed
qed simp

lemma isolation:
  "inv s \<Longrightarrow> filter (\<lambda>x. key (fst x) = k) (fst (run_steps step s is)) =
     fst (run_steps step s (filter (\<lambda>i. key i = k) is))"
  by (rule isolation_gen) simp_all

end

subsection \<open>Interface: a store of values under keys\<close>

locale keyed_store =
  fixes lookup :: "'s \<Rightarrow> 'k \<Rightarrow> 'v option"
    and put :: "'k \<Rightarrow> 'v \<Rightarrow> 's \<Rightarrow> 's"
    and del :: "'k \<Rightarrow> 's \<Rightarrow> 's"
  assumes lookup_put: "lookup (put k v s) j = (if j = k then Some v else lookup s j)"
    and lookup_del: "lookup (del k s) j = (if j = k then None else lookup s j)"
begin

lemma lookup_put_same: "lookup (put k v s) k = Some v"
  by (simp add: lookup_put)

lemma lookup_put_del: "lookup (put k v (del k s)) j = lookup (put k v s) j"
  by (simp add: lookup_put lookup_del)

lemma lookup_del_put: "lookup s k = None \<Longrightarrow> lookup (del k (put k v s)) j = lookup s j"
  by (simp add: lookup_put lookup_del)

text \<open>Operations on different keys commute, as far as a lookup can tell.\<close>

lemma put_put_commute: "k \<noteq> l \<Longrightarrow> lookup (put k v (put l w s)) j = lookup (put l w (put k v s)) j"
  by (simp add: lookup_put)

lemma put_del_commute: "k \<noteq> l \<Longrightarrow> lookup (put k v (del l s)) j = lookup (del l (put k v s)) j"
  by (simp add: lookup_put lookup_del)

lemma dom_put: "dom (lookup (put k v s)) = insert k (dom (lookup s))"
  by (auto simp: lookup_put split: if_splits)

lemma dom_del: "dom (lookup (del k s)) = dom (lookup s) - {k}"
  by (auto simp: lookup_del split: if_splits)

end

subsection \<open>Interface: a self-delimiting byte format\<close>

text \<open>Repeated decoding; \<open>n\<close> bounds the number of frames, and the length of the input always suffices
  because a frame takes at least one byte.\<close>

fun dec_all :: "(bytes \<Rightarrow> ('f \<times> bytes) option) \<Rightarrow> nat \<Rightarrow> bytes \<Rightarrow> 'f list" where
  "dec_all dec 0 bs = []"
| "dec_all dec (Suc n) bs = (case dec bs of None \<Rightarrow> [] | Some (f, rest) \<Rightarrow> f # dec_all dec n rest)"

locale frame_codec =
  fixes enc :: "'f \<Rightarrow> bytes"
    and dec :: "bytes \<Rightarrow> ('f \<times> bytes) option"
    and ok :: "'f \<Rightarrow> bool"
  assumes dec_enc: "ok f \<Longrightarrow> dec (enc f @ rest) = Some (f, rest)"
    and dec_Nil: "dec [] = None"
    and dec_strict: "dec bs = Some (f, rest) \<Longrightarrow> length rest < length bs"
begin

lemma enc_not_Nil: "ok f \<Longrightarrow> enc f \<noteq> []"
  using dec_enc [of f "[]"] dec_Nil by auto

lemma enc_inj: "ok f \<Longrightarrow> ok g \<Longrightarrow> enc f = enc g \<Longrightarrow> f = g"
  using dec_enc [of f "[]"] dec_enc [of g "[]"] by simp

lemma dec_all_enc:
  assumes "\<forall>f \<in> set fs. ok f" "length fs \<le> n" "dec rest = None"
  shows "dec_all dec n (concat (map enc fs) @ rest) = fs"
  using assms
proof (induction n arbitrary: fs)
  case (Suc n)
  then show ?case by (cases fs) (simp_all add: dec_enc)
qed simp

lemma length_concat_enc: "\<forall>f \<in> set fs. ok f \<Longrightarrow> length fs \<le> length (concat (map enc fs))"
proof (induction fs)
  case (Cons f fs)
  then have "1 \<le> length (enc f)" using enc_not_Nil [of f] by (simp add: Suc_le_eq)
  with Cons show ?case by simp
qed simp

text \<open>A recorded sequence of frames is read back exactly, whatever unreadable tail follows.\<close>

lemma roundtrip:
  assumes "\<forall>f \<in> set fs. ok f" "dec rest = None"
  shows "dec_all dec (length (concat (map enc fs) @ rest)) (concat (map enc fs) @ rest) = fs"
  by (rule dec_all_enc) (use assms length_concat_enc [of fs] in simp_all)

end

subsection \<open>Interface: a machine with guarded actions and an invariant\<close>

text \<open>A component driven by actions, each of which is enabled in some states only. A schedule is a list
  of actions; it runs when every action is enabled in its turn.\<close>

fun run_opt :: "('a \<Rightarrow> 's \<Rightarrow> 's option) \<Rightarrow> 'a list \<Rightarrow> 's \<Rightarrow> 's option" where
  "run_opt f [] s = Some s"
| "run_opt f (a # as) s = (case f a s of None \<Rightarrow> None | Some s' \<Rightarrow> run_opt f as s')"

inductive reaches :: "('a \<Rightarrow> 's \<Rightarrow> 's option) \<Rightarrow> 's \<Rightarrow> 's \<Rightarrow> bool" for f s where
  reaches_refl: "reaches f s s"
| reaches_step: "reaches f s t \<Longrightarrow> f a t = Some u \<Longrightarrow> reaches f s u"

lemma run_opt_append: "run_opt f (as @ bs) s = Option.bind (run_opt f as s) (run_opt f bs)"
  by (induction as arbitrary: s) (auto split: option.split)

lemma run_opt_snoc: "run_opt f (as @ [a]) s = Option.bind (run_opt f as s) (f a)"
proof -
  have "run_opt f [a] = f a" by (auto simp: fun_eq_iff split: option.split)
  then show ?thesis by (simp add: run_opt_append)
qed

lemma reaches_iff_run: "reaches f s t \<longleftrightarrow> (\<exists>as. run_opt f as s = Some t)"
proof
  show "reaches f s t \<Longrightarrow> \<exists>as. run_opt f as s = Some t"
  proof (induction rule: reaches.induct)
    case reaches_refl
    show ?case by (rule exI [of _ "[]"]) simp
  next
    case (reaches_step t a u)
    then obtain as where "run_opt f as s = Some t" by blast
    with reaches_step have "run_opt f (as @ [a]) s = Some u" by (simp add: run_opt_snoc)
    then show ?case ..
  qed
next
  have "run_opt f as s = Some t \<Longrightarrow> reaches f s t" for as
    by (induction as arbitrary: t rule: rev_induct)
      (auto simp: run_opt_snoc bind_eq_Some_conv intro: reaches.intros)
  then show "\<exists>as. run_opt f as s = Some t \<Longrightarrow> reaches f s t" by blast
qed

locale guarded_machine =
  fixes step :: "'a \<Rightarrow> 's \<Rightarrow> 's option"
    and inv :: "'s \<Rightarrow> bool"
  assumes preserves: "inv s \<Longrightarrow> step a s = Some s' \<Longrightarrow> inv s'"
begin

lemma inv_reaches: "reaches step s t \<Longrightarrow> inv s \<Longrightarrow> inv t"
  by (induction rule: reaches.induct) (auto intro: preserves)

lemma inv_run_opt: "run_opt step as s = Some t \<Longrightarrow> inv s \<Longrightarrow> inv t"
  using inv_reaches reaches_iff_run by metis

end

text \<open>The moment at which something that did not hold becomes true.\<close>

lemma reaches_first:
  assumes "reaches f s t" "\<not> P s" "P t"
  obtains u a v where "reaches f s u" "\<not> P u" "f a u = Some v" "P v" "reaches f v t"
proof -
  have "\<exists>u a v. reaches f s u \<and> \<not> P u \<and> f a u = Some v \<and> P v \<and> reaches f v t"
    using assms
  proof (induction rule: reaches.induct)
    case (reaches_step t a u)
    show ?case
    proof (cases "P t")
      case True
      then show ?thesis using reaches_step by (meson reaches.reaches_step)
    next
      case False
      then show ?thesis using reaches_step reaches.reaches_refl by metis
    qed
  qed simp
  then show thesis using that by blast
qed

lemma reaches_trans: "reaches f t u \<Longrightarrow> reaches f s t \<Longrightarrow> reaches f s u"
  by (induction rule: reaches.induct) (auto intro: reaches.reaches_step)

subsection \<open>Interface: refinement of an abstract machine\<close>

text \<open>Every step of the machine, seen through an abstraction, is some steps of a specification. Then every
  run is a run of the specification.\<close>

locale simulation = guarded_machine step inv
  for step :: "'a \<Rightarrow> 's \<Rightarrow> 's option" and inv +
  fixes spec :: "'m \<Rightarrow> 'm \<Rightarrow> bool"
    and alpha :: "'s \<Rightarrow> 'm"
  assumes simulates: "inv s \<Longrightarrow> step a s = Some s' \<Longrightarrow> spec\<^sup>*\<^sup>* (alpha s) (alpha s')"
begin

lemma refines: "reaches step s t \<Longrightarrow> inv s \<Longrightarrow> spec\<^sup>*\<^sup>* (alpha s) (alpha t)"
proof (induction rule: reaches.induct)
  case (reaches_step t a u)
  then show ?case using simulates [OF inv_reaches [OF reaches_step.hyps(1)]] by (meson rtranclp_trans)
qed simp

text \<open>What every step of the specification keeps holds of every state that is reached.\<close>

lemma spec_invariant:
  assumes "\<And>m m'. J m \<Longrightarrow> spec m m' \<Longrightarrow> J m'" "reaches step s t" "inv s" "J (alpha s)"
  shows "J (alpha t)"
  using refines [OF assms(2,3)] assms(4) by (induction rule: rtranclp_induct) (auto intro: assms(1))

end

end
