(* ===== verification/Zttp_Strings.thy ===== *)
theory Zttp_Strings
  imports Zttp_Prelude
begin

text \<open>
  The parts of Go's standard library on strings that the program uses: UTF-8 decoding as the
  \<^verbatim>\<open>range\<close> loop over a string does it, \<^verbatim>\<open>strings.TrimSpace\<close>, \<^verbatim>\<open>strings.Fields\<close>,
  \<^verbatim>\<open>strings.EqualFold\<close>, \<^verbatim>\<open>strings.LastIndex\<close>, \<^verbatim>\<open>strings.Split\<close>,
  \<^verbatim>\<open>strings.Join\<close>, the \<^verbatim>\<open>%-Ns\<close> verb of \<^verbatim>\<open>fmt.Sprintf\<close>, hexadecimal and base64
  text, and the fixed-width integers of \<^verbatim>\<open>encoding/binary\<close>.

  Case folding of code points above 127 is given by the Unicode tables; the predicate
  \<open>sf\<close> ("the second code point is in the \<^verbatim>\<open>unicode.SimpleFold\<close> orbit of the first")
  is a parameter of \<open>EqualFold\<close> and of everything that calls it.
\<close>

subsection \<open>UTF-8\<close>

definition rune_error :: rune where
  "rune_error = 0xFFFD"

definition cont_byte :: "char \<Rightarrow> bool" where
  "cont_byte c \<longleftrightarrow> 0x80 \<le> (of_char c :: nat) \<and> (of_char c :: nat) \<le> 0xBF"

definition in_range :: "nat \<Rightarrow> nat \<Rightarrow> char \<Rightarrow> bool" where
  "in_range lo hi c \<longleftrightarrow> lo \<le> of_char c \<and> of_char c \<le> hi"

definition low6 :: "char \<Rightarrow> nat" where
  "low6 c = of_char c - 0x80"

text \<open>\<^verbatim>\<open>utf8.DecodeRuneInString\<close>: the code point and its width; an invalid sequence is
  \<^const>\<open>rune_error\<close> of width one.\<close>

definition decode2 :: "nat \<Rightarrow> string \<Rightarrow> rune \<times> nat" where
  "decode2 p0 cs = (case cs of
     s1 # _ \<Rightarrow> (if cont_byte s1 then ((p0 - 0xC0) * 64 + low6 s1, 2) else (rune_error, 1))
   | [] \<Rightarrow> (rune_error, 1))"

definition decode3 :: "nat \<Rightarrow> nat \<Rightarrow> nat \<Rightarrow> string \<Rightarrow> rune \<times> nat" where
  "decode3 lo hi p0 cs = (case cs of
     s1 # s2 # _ \<Rightarrow>
       (if in_range lo hi s1 \<and> cont_byte s2
        then ((p0 - 0xE0) * 4096 + low6 s1 * 64 + low6 s2, 3) else (rune_error, 1))
   | _ \<Rightarrow> (rune_error, 1))"

definition decode4 :: "nat \<Rightarrow> nat \<Rightarrow> nat \<Rightarrow> string \<Rightarrow> rune \<times> nat" where
  "decode4 lo hi p0 cs = (case cs of
     s1 # s2 # s3 # _ \<Rightarrow>
       (if in_range lo hi s1 \<and> cont_byte s2 \<and> cont_byte s3
        then ((p0 - 0xF0) * 262144 + low6 s1 * 4096 + low6 s2 * 64 + low6 s3, 4)
        else (rune_error, 1))
   | _ \<Rightarrow> (rune_error, 1))"

definition decode_rune :: "char \<Rightarrow> string \<Rightarrow> rune \<times> nat" where
  "decode_rune c cs = (let p0 = of_char c in
     if p0 < 0x80 then (p0, 1)
     else if p0 < 0xC2 then (rune_error, 1)
     else if p0 \<le> 0xDF then decode2 p0 cs
     else if p0 = 0xE0 then decode3 0xA0 0xBF p0 cs
     else if p0 = 0xED then decode3 0x80 0x9F p0 cs
     else if p0 \<le> 0xEF then decode3 0x80 0xBF p0 cs
     else if p0 = 0xF0 then decode4 0x90 0xBF p0 cs
     else if p0 \<le> 0xF3 then decode4 0x80 0xBF p0 cs
     else if p0 = 0xF4 then decode4 0x80 0x8F p0 cs
     else (rune_error, 1))"

text \<open>A string as its code points, each with the bytes it was decoded from.\<close>

fun runes :: "string \<Rightarrow> (rune \<times> string) list" where
  "runes [] = []"
| "runes (c # cs) =
     (let (r, w) = decode_rune c cs
      in (r, c # take (w - 1) cs) # runes (drop (w - 1) cs))"

subsection \<open>White space, trimming and fields\<close>

text \<open>\<^verbatim>\<open>unicode.IsSpace\<close>.\<close>

definition is_space :: "rune \<Rightarrow> bool" where
  "is_space r \<longleftrightarrow>
     (9 \<le> r \<and> r \<le> 13) \<or> r = 32 \<or> r = 0x85 \<or> r = 0xA0 \<or> r = 0x1680
     \<or> (0x2000 \<le> r \<and> r \<le> 0x200A) \<or> r = 0x2028 \<or> r = 0x2029 \<or> r = 0x202F
     \<or> r = 0x205F \<or> r = 0x3000"

definition TrimSpace :: "string \<Rightarrow> string" where
  "TrimSpace s =
     concat (map snd (rev (dropWhile (is_space \<circ> fst) (rev (dropWhile (is_space \<circ> fst) (runes s))))))"

fun fields_from :: "string \<Rightarrow> (rune \<times> string) list \<Rightarrow> string list" where
  "fields_from acc [] = (if acc = [] then [] else [acc])"
| "fields_from acc ((r, b) # rs) =
     (if is_space r
      then (if acc = [] then fields_from [] rs else acc # fields_from [] rs)
      else fields_from (acc @ b) rs)"

definition Fields :: "string \<Rightarrow> string list" where
  "Fields s = fields_from [] (runes s)"

subsection \<open>Case-insensitive comparison\<close>

definition ascii_fold :: "nat \<Rightarrow> nat \<Rightarrow> bool" where
  "ascii_fold a b \<longleftrightarrow> a = b \<or> (65 \<le> min a b \<and> min a b \<le> 90 \<and> max a b = min a b + 32)"

definition rune_fold :: "(rune \<Rightarrow> rune \<Rightarrow> bool) \<Rightarrow> rune \<Rightarrow> rune \<Rightarrow> bool" where
  "rune_fold sf a b \<longleftrightarrow>
     a = b \<or> (if max a b < 0x80 then ascii_fold a b else sf (min a b) (max a b))"

fun fold_runes :: "(rune \<Rightarrow> rune \<Rightarrow> bool) \<Rightarrow> rune list \<Rightarrow> rune list \<Rightarrow> bool" where
  "fold_runes sf [] t = (t = [])"
| "fold_runes sf (a # s) [] = False"
| "fold_runes sf (a # s) (b # t) = (rune_fold sf a b \<and> fold_runes sf s t)"

fun EqualFold :: "(rune \<Rightarrow> rune \<Rightarrow> bool) \<Rightarrow> string \<Rightarrow> string \<Rightarrow> bool" where
  "EqualFold sf [] t = (t = [])"
| "EqualFold sf (a # s) [] = False"
| "EqualFold sf (a # s) (b # t) =
     (if \<not> ascii a \<or> \<not> ascii b
      then fold_runes sf (map fst (runes (a # s))) (map fst (runes (b # t)))
      else if ascii_fold (of_char a) (of_char b) then EqualFold sf s t
      else False)"

subsection \<open>Searching, splitting, joining, padding\<close>

text \<open>\<^verbatim>\<open>strings.LastIndex\<close> for a one-byte separator: -1 when it does not occur.\<close>

definition LastIndexByte :: "string \<Rightarrow> char \<Rightarrow> int" where
  "LastIndexByte s c =
     (if c \<in> set s then int (length s) - 1 - int (length (takeWhile (\<lambda>x. x \<noteq> c) (rev s)))
      else - 1)"

fun split_on :: "char \<Rightarrow> string \<Rightarrow> string \<Rightarrow> string list" where
  "split_on c acc [] = [acc]"
| "split_on c acc (x # xs) =
     (if x = c then acc # split_on c [] xs else split_on c (acc @ [x]) xs)"

definition Split :: "string \<Rightarrow> char \<Rightarrow> string list" where
  "Split s c = split_on c [] s"

fun Join :: "string list \<Rightarrow> string \<Rightarrow> string" where
  "Join [] sep = []"
| "Join [s] sep = s"
| "Join (s # t # ss) sep = s @ sep @ Join (t # ss) sep"

definition HasPrefix :: "string \<Rightarrow> string \<Rightarrow> bool" where
  "HasPrefix s p \<longleftrightarrow> take (length p) s = p"

text \<open>\<^verbatim>\<open>%-Ns\<close>: left-justified in a field of \<open>n\<close> code points.\<close>

definition pad_right :: "nat \<Rightarrow> string \<Rightarrow> string" where
  "pad_right n s = s @ replicate (n - length (runes s)) (CHR '' '')"

subsection \<open>Integers in decimal, hexadecimal and base64\<close>

fun dec_nat :: "nat \<Rightarrow> string" where
  "dec_nat n = (if n < 10 then [char_of (48 + n)] else dec_nat (n div 10) @ [char_of (48 + n mod 10)])"

declare dec_nat.simps [simp del]

definition dec_int :: "int \<Rightarrow> string" where
  "dec_int i = (if i < 0 then CHR ''-'' # dec_nat (nat (- i)) else dec_nat (nat i))"

definition hex_digit :: "nat \<Rightarrow> char" where
  "hex_digit n = (if n < 10 then char_of (48 + n) else char_of (87 + n))"

text \<open>\<^verbatim>\<open>hex.EncodeToString\<close>.\<close>

definition hex_encode :: "bytes \<Rightarrow> string" where
  "hex_encode bs = concat (map (\<lambda>c. [hex_digit (of_char c div 16), hex_digit (of_char c mod 16)]) bs)"

definition hex_value :: "char \<Rightarrow> nat option" where
  "hex_value c = (let n = of_char c in
     if 48 \<le> n \<and> n \<le> 57 then Some (n - 48)
     else if 97 \<le> n \<and> n \<le> 102 then Some (n - 87) else None)"

fun hex_decode :: "string \<Rightarrow> bytes option" where
  "hex_decode [] = Some []"
| "hex_decode [c] = None"
| "hex_decode (c # d # s) = (case (hex_value c, hex_value d, hex_decode s) of
     (Some h, Some l, Some bs) \<Rightarrow> Some (char_of (16 * h + l) # bs) | _ \<Rightarrow> None)"

definition b64_digit :: "nat \<Rightarrow> char" where
  "b64_digit n = (if n < 26 then char_of (65 + n) else if n < 52 then char_of (71 + n)
     else if n < 62 then char_of (n - 4) else if n = 62 then CHR ''+'' else CHR ''/'')"

text \<open>Base64 with the standard alphabet; \<open>pad\<close> tells \<^verbatim>\<open>base64.StdEncoding\<close> (padded with
  \<^verbatim>\<open>=\<close>) from \<^verbatim>\<open>base64.RawStdEncoding\<close> (not padded).\<close>

fun b64_encode :: "bool \<Rightarrow> bytes \<Rightarrow> string" where
  "b64_encode pad [] = []"
| "b64_encode pad [a] = (let n = of_char a * 16 in
     [b64_digit (n div 64), b64_digit (n mod 64)] @ (if pad then ''=='' else []))"
| "b64_encode pad [a, b] = (let n = (of_char a * 256 + of_char b) * 4 in
     [b64_digit (n div 4096), b64_digit (n div 64 mod 64), b64_digit (n mod 64)]
     @ (if pad then ''='' else []))"
| "b64_encode pad (a # b # c # s) = (let n = (of_char a * 256 + of_char b) * 256 + of_char c in
     [b64_digit (n div 262144), b64_digit (n div 4096 mod 64), b64_digit (n div 64 mod 64),
      b64_digit (n mod 64)] @ b64_encode pad s)"

subsection \<open>Fixed-width integers\<close>

text \<open>\<^verbatim>\<open>binary.BigEndian\<close> and \<^verbatim>\<open>binary.LittleEndian\<close> on 32-bit words.\<close>

definition be32 :: "32 word \<Rightarrow> bytes" where
  "be32 w = (let n = unat w in
     [char_of (n div 16777216), char_of (n div 65536), char_of (n div 256), char_of n])"

definition le32 :: "32 word \<Rightarrow> bytes" where
  "le32 w = rev (be32 w)"

text \<open>The integer of a list of bytes, most significant first.\<close>

definition byte_value :: "bytes \<Rightarrow> nat" where
  "byte_value bs = foldl (\<lambda>n c. n * 256 + of_char c) 0 bs"

definition be32_value :: "bytes \<Rightarrow> 32 word" where
  "be32_value bs = word_of_nat (byte_value bs)"

definition le32_value :: "bytes \<Rightarrow> 32 word" where
  "le32_value bs = word_of_nat (byte_value (rev bs))"

subsection \<open>Lemmas\<close>

text \<open>Every decoding step consumes at least one byte and none beyond the end.\<close>

lemma decode2_width: "1 \<le> snd (decode2 p cs) \<and> snd (decode2 p cs) \<le> Suc (length cs)"
  by (simp add: decode2_def split: list.split)

lemma decode3_width: "1 \<le> snd (decode3 l h p cs) \<and> snd (decode3 l h p cs) \<le> Suc (length cs)"
  by (simp add: decode3_def split: list.split)

lemma decode4_width: "1 \<le> snd (decode4 l h p cs) \<and> snd (decode4 l h p cs) \<le> Suc (length cs)"
  by (simp add: decode4_def split: list.split)

lemma decode_rune_width: "1 \<le> snd (decode_rune c cs) \<and> snd (decode_rune c cs) \<le> Suc (length cs)"
  by (simp add: decode_rune_def Let_def decode2_width decode3_width decode4_width del: One_nat_def)

lemma decode_rune_ascii [simp]: "ascii c \<Longrightarrow> decode_rune c cs = (of_char c, 1)"
  by (simp add: decode_rune_def ascii_def)

lemma runes_ascii [simp]: "ascii c \<Longrightarrow> runes (c # cs) = (of_char c, [c]) # runes cs"
  by simp

text \<open>Decoding loses nothing: the bytes of the code points are the string.\<close>

lemma concat_runes [simp]: "concat (map snd (runes s)) = s"
  by (induction s rule: runes.induct) (auto split: prod.splits)

lemma runes_append_ascii:
  "\<forall>c \<in> set s. ascii c \<Longrightarrow> runes (s @ t) = map (\<lambda>c. (of_char c, [c])) s @ runes t"
  by (induction s) (simp_all del: runes.simps(2))

lemma runes_all_ascii:
  "\<forall>c \<in> set s. ascii c \<Longrightarrow> runes s = map (\<lambda>c. (of_char c, [c])) s"
  using runes_append_ascii [of s "[]"] by simp

text \<open>A code point is decoded the same way when the string is cut off after it.\<close>

lemma decode_rune_take:
  "snd (decode_rune c cs) \<le> Suc k \<Longrightarrow> decode_rune c (take k cs) = decode_rune c cs"
proof -
  have two: "snd (decode2 p cs) \<le> Suc k \<Longrightarrow> decode2 p (take k cs) = decode2 p cs" for p
    by (cases cs; cases k) (simp_all add: decode2_def split: if_splits)
  have three: "snd (decode3 l h p cs) \<le> Suc k \<Longrightarrow> decode3 l h p (take k cs) = decode3 l h p cs" for l h p
    by (cases cs; cases k; cases "tl cs"; cases "k - 1")
      (simp_all add: decode3_def split: if_splits)
  have four: "snd (decode4 l h p cs) \<le> Suc k \<Longrightarrow> decode4 l h p (take k cs) = decode4 l h p cs" for l h p
    by (cases cs; cases k; cases "tl cs"; cases "k - 1"; cases "tl (tl cs)"; cases "k - 2")
      (simp_all add: decode4_def split: if_splits)
  assume "snd (decode_rune c cs) \<le> Suc k"
  then show ?thesis
    by (simp add: decode_rune_def Let_def two three four split: if_splits)
qed

lemma runes_prefix: "runes s = xs @ ys \<Longrightarrow> runes (concat (map snd xs)) = xs"
proof (induction s arbitrary: xs rule: runes.induct)
  case 1
  then show ?case by simp
next
  case (2 c cs)
  show ?case
  proof (cases xs)
    case Nil
    then show ?thesis by simp
  next
    case (Cons x xs')
    obtain r w where rw: "decode_rune c cs = (r, w)" by fastforce
    let ?m = "w - 1"
    from 2(2) Cons rw have x: "x = (r, c # take ?m cs)" and rest: "runes (drop ?m cs) = xs' @ ys"
      by simp_all
    from 2(1) [OF rw [symmetric] refl] rest have ih: "runes (concat (map snd xs')) = xs'" by simp
    let ?t = "concat (map snd xs')"
    have w: "1 \<le> w" "?m \<le> length cs" using decode_rune_width [of c cs] rw by auto
    have "drop ?m cs = ?t @ concat (map snd ys)"
      using concat_runes [of "drop ?m cs"] rest by (metis concat_append map_append)
    then have "take ?m cs @ ?t = take (?m + length ?t) cs"
      by (simp add: take_add)
    then have "decode_rune c (take ?m cs @ ?t) = (r, w)"
      using decode_rune_take [of c cs "?m + length ?t"] rw by simp
    moreover have "length (take ?m cs) = ?m" using w by simp
    ultimately show ?thesis using Cons x ih by simp
  qed
qed

lemma cont_byte_not_ascii: "cont_byte c \<Longrightarrow> \<not> ascii c"
  by (simp add: cont_byte_def ascii_def)

text \<open>The bytes of a multi-byte code point are all above 127, so an ASCII byte is always a code
  point of its own.\<close>

lemma decode2_bytes: "d \<in> set (take (snd (decode2 p cs) - Suc 0) cs) \<Longrightarrow> \<not> ascii d"
  by (auto simp: decode2_def cont_byte_not_ascii split: list.splits if_splits)

lemma in_range_not_ascii: "in_range l h c \<Longrightarrow> 128 \<le> l \<Longrightarrow> \<not> ascii c"
  by (simp add: in_range_def ascii_def)

lemma decode3_bytes: "128 \<le> l \<Longrightarrow> d \<in> set (take (snd (decode3 l h p cs) - Suc 0) cs) \<Longrightarrow> \<not> ascii d"
  by (auto simp: decode3_def cont_byte_not_ascii in_range_not_ascii split: list.splits if_splits)

lemma decode4_bytes: "128 \<le> l \<Longrightarrow> d \<in> set (take (snd (decode4 l h p cs) - Suc 0) cs) \<Longrightarrow> \<not> ascii d"
  by (auto simp: decode4_def cont_byte_not_ascii in_range_not_ascii split: list.splits if_splits)

lemma decode_rune_bytes: "d \<in> set (take (snd (decode_rune c cs) - Suc 0) cs) \<Longrightarrow> \<not> ascii d"
  by (auto simp: decode_rune_def Let_def dest: decode2_bytes decode3_bytes [rotated]
      decode4_bytes [rotated] split: if_splits)

lemma runes_ascii_bytes: "x \<in> set (runes s) \<Longrightarrow> d \<in> set (snd x) \<Longrightarrow> ascii d \<Longrightarrow> fst x = of_char d"
proof (induction s rule: runes.induct)
  case (2 c cs)
  obtain r w where rw: "decode_rune c cs = (r, w)" by fastforce
  have "d = c" if "d \<in> set (c # take (w - Suc 0) cs)"
    using that decode_rune_bytes [of d c cs] rw 2(4) by auto
  then show ?case using 2 rw by (cases "ascii c") auto
qed simp

subsubsection \<open>Trimming and fields\<close>

lemma runes_drop_prefix: "runes s = xs @ ys \<Longrightarrow> runes (concat (map snd ys)) = ys"
proof (induction s arbitrary: xs rule: runes.induct)
  case (2 c cs)
  obtain r w where rw: "decode_rune c cs = (r, w)" by fastforce
  show ?case
  proof (cases xs)
    case Nil
    then show ?thesis using 2(2) concat_runes [of "c # cs"] by (simp del: runes.simps concat_runes)
  next
    case (Cons x xs')
    then show ?thesis using 2(1) [OF rw [symmetric] refl, of xs'] 2(2) rw by simp
  qed
qed simp

lemma fields_from_leading: "\<forall>x \<in> set sp. is_space (fst x) \<Longrightarrow> fields_from [] (sp @ xs) = fields_from [] xs"
  by (induction sp) auto

lemma fields_from_trailing: "\<forall>x \<in> set sp. is_space (fst x) \<Longrightarrow> fields_from acc (xs @ sp) = fields_from acc xs"
proof (induction xs arbitrary: acc)
  case Nil
  then show ?case
  proof (induction sp arbitrary: acc)
    case (Cons x sp)
    then show ?case by (cases x) auto
  qed simp
next
  case (Cons x xs)
  then show ?case by (cases x) auto
qed

text \<open>What \<^const>\<open>TrimSpace\<close> removes: a prefix and a suffix of white space.\<close>

lemma TrimSpace_runes:
  obtains pre mid post where "runes s = pre @ mid @ post" "runes (TrimSpace s) = mid"
    "\<forall>x \<in> set pre. is_space (fst x)" "\<forall>x \<in> set post. is_space (fst x)"
    "mid \<noteq> [] \<longrightarrow> \<not> is_space (fst (hd mid)) \<and> \<not> is_space (fst (last mid))"
proof -
  let ?P = "is_space \<circ> fst"
  define pre where "pre = takeWhile ?P (runes s)"
  define rest where "rest = dropWhile ?P (runes s)"
  define mid where "mid = rev (dropWhile ?P (rev rest))"
  define post where "post = rev (takeWhile ?P (rev rest))"
  have rest: "rest = mid @ post"
    unfolding mid_def post_def by (metis rev_append rev_rev_ident takeWhile_dropWhile_id)
  have split: "runes s = pre @ mid @ post"
    unfolding pre_def by (metis rest rest_def takeWhile_dropWhile_id)
  have trim: "TrimSpace s = concat (map snd mid)"
    unfolding TrimSpace_def mid_def rest_def ..
  have "runes (concat (map snd (pre @ mid))) = pre @ mid"
    using runes_prefix [of s "pre @ mid" post] split by simp
  then have "runes (concat (map snd mid)) = mid" by (rule runes_drop_prefix)
  moreover have "\<forall>x \<in> set pre. is_space (fst x)" "\<forall>x \<in> set post. is_space (fst x)"
    unfolding pre_def post_def by (auto dest: set_takeWhileD)
  moreover have "mid \<noteq> [] \<longrightarrow> \<not> is_space (fst (last mid))"
    unfolding mid_def using hd_dropWhile [of ?P "rev rest"] by (auto simp: last_rev)
  moreover have "mid \<noteq> [] \<longrightarrow> \<not> is_space (fst (hd mid))"
    using rest hd_dropWhile [of ?P "runes s"] unfolding rest_def [symmetric] by auto
  ultimately show thesis using that split trim by simp
qed

lemma Fields_TrimSpace [simp]: "Fields (TrimSpace s) = Fields s"
proof -
  obtain pre mid post where "runes s = pre @ mid @ post" "runes (TrimSpace s) = mid"
    "\<forall>x \<in> set pre. is_space (fst x)" "\<forall>x \<in> set post. is_space (fst x)"
    by (rule TrimSpace_runes [of s])
  then show ?thesis
    by (simp add: Fields_def fields_from_leading fields_from_trailing)
qed

lemma TrimSpace_idem [simp]: "TrimSpace (TrimSpace s) = TrimSpace s"
proof -
  obtain pre mid post where mid: "runes (TrimSpace s) = mid"
    "mid \<noteq> [] \<longrightarrow> \<not> is_space (fst (hd mid)) \<and> \<not> is_space (fst (last mid))"
    by (rule TrimSpace_runes [of s])
  then have "dropWhile (is_space \<circ> fst) mid = mid"
    by (cases mid) simp_all
  moreover from mid(2) have "dropWhile (is_space \<circ> fst) (rev mid) = rev mid"
    by (cases mid rule: rev_cases) simp_all
  ultimately show ?thesis using mid(1)
    by (metis TrimSpace_def concat_runes rev_rev_ident)
qed

lemma fields_from_subset:
  "w \<in> set (fields_from acc xs) \<Longrightarrow> set w \<subseteq> set acc \<union> set (concat (map snd xs))"
  by (induction acc xs rule: fields_from.induct) (auto split: if_splits)

lemma Fields_subset: "w \<in> set (Fields s) \<Longrightarrow> set w \<subseteq> set s"
  using fields_from_subset [of w "[]" "runes s"] by (simp add: Fields_def del: set_concat)

subsubsection \<open>Case folding\<close>

text \<open>On bytes below 128 folding is equality after mapping capitals to small letters.\<close>

definition lower :: "char \<Rightarrow> char" where
  "lower c = (let n = of_char c in if 65 \<le> n \<and> n \<le> 90 then char_of (n + 32 :: nat) else c)"

lemma ascii_fold_refl [simp]: "ascii_fold a a"
  by (simp add: ascii_fold_def)

lemma ascii_fold_sym: "ascii_fold a b = ascii_fold b a"
  by (auto simp: ascii_fold_def min.commute max.commute)

lemma of_char_lower: "(of_char (lower c) :: nat) = (if 65 \<le> (of_char c :: nat) \<and> (of_char c :: nat) \<le> 90 then of_char c + 32 else of_char c)"
  by (auto simp: lower_def Let_def)

lemma ascii_fold_lower: "ascii_fold (of_char a) (of_char b) \<longleftrightarrow> lower a = lower b"
proof -
  have "lower a = lower b \<longleftrightarrow> (of_char (lower a) :: nat) = of_char (lower b)"
    by simp
  also have "\<dots> \<longleftrightarrow> ascii_fold (of_char a) (of_char b)"
    unfolding of_char_lower ascii_fold_def
    by (auto simp: min_def max_def simp del: of_char_eq_iff) 
  finally show ?thesis by simp
qed

lemma EqualFold_ascii:
  "\<forall>c \<in> set s. ascii c \<Longrightarrow> \<forall>c \<in> set t. ascii c \<Longrightarrow> EqualFold sf s t \<longleftrightarrow> map lower s = map lower t"
proof (induction s arbitrary: t)
  case Nil
  then show ?case by auto
next
  case (Cons a s)
  then show ?case by (cases t) (auto simp: ascii_fold_lower)
qed

lemma fold_runes_refl [simp]: "fold_runes sf s s"
  by (induction s) (simp_all add: rune_fold_def)

lemma EqualFold_refl [simp]: "EqualFold sf s s"
  by (induction s) (simp_all del: runes.simps)

subsubsection \<open>Numbers\<close>

lemma length_be32 [simp, byte_simps]: "length (be32 w) = 4"
  by (simp add: be32_def Let_def)

lemma length_le32 [simp, byte_simps]: "length (le32 w) = 4"
  by (simp add: le32_def)

lemma base256_digits:
  "((n div 16777216 mod 256 * 256 + n div 65536 mod 256) * 256 + n div 256 mod 256) * 256 + n mod 256
     = n mod 4294967296" for n :: nat
proof -
  have "n mod 4294967296 = n mod (256 * 16777216)" by simp
  also have "\<dots> = 16777216 * (n div 16777216 mod 256) + n mod 16777216"
    using mod_mult2_eq [of n 16777216 256] by simp
  also have "n mod 16777216 = 65536 * (n div 65536 mod 256) + n mod 65536"
    using mod_mult2_eq [of n 65536 256] by simp
  also have "n mod 65536 = 256 * (n div 256 mod 256) + n mod 256"
    using mod_mult2_eq [of n 256 256] by simp
  finally show ?thesis by simp
qed

lemma byte_value_be32 [byte_simps]: "byte_value (be32 w) = unat w"
proof -
  have "unat w < 4294967296" using unsigned_less [where ?'a = nat, of w] by simp
  then show ?thesis
    using base256_digits [of "unat w"] by (simp add: byte_value_def be32_def Let_def)
qed

lemma be32_value_be32 [simp, byte_simps]: "be32_value (be32 w) = w"
  by (simp add: be32_value_def byte_value_be32)

lemma le32_value_le32 [simp, byte_simps]: "le32_value (le32 w) = w"
  by (simp add: le32_value_def le32_def byte_value_be32)

lemma unat_of_nat32: "n < 4294967296 \<Longrightarrow> unat (word_of_nat n :: 32 word) = n"
  by (simp add: unsigned_of_nat take_bit_nat_eq_self)

lemma hex_value_digit: "n < 16 \<Longrightarrow> hex_value (hex_digit n) = Some n"
  by (auto simp: hex_value_def hex_digit_def Let_def)

lemma hex_decode_encode [simp]: "hex_decode (hex_encode bs) = Some bs"
proof (induction bs)
  case Nil
  then show ?case by (simp add: hex_encode_def)
next
  case (Cons c bs)
  have "(of_char c :: nat) div 16 < 16"
    using nat_of_char_less_256 [of c] by (simp add: less_mult_imp_div_less)
  then show ?case
    using Cons by (simp add: hex_encode_def hex_value_digit)
qed

lemma length_hex_encode: "length (hex_encode bs) = 2 * length bs"
  by (induction bs) (simp_all add: hex_encode_def)

text \<open>Padding is visible in the length: a multiple of four with it, and otherwise exactly one
  character per six bits.\<close>

lemma length_b64_padded: "length (b64_encode True bs) = 4 * ((length bs + 2) div 3)"
proof (induction True bs rule: b64_encode.induct)
  case (4 a b c s)
  then show ?case using div_add_self2 [of 3 "length s + 2"] by (simp add: Let_def)
qed (simp_all add: Let_def)

lemma length_b64_raw: "length (b64_encode False bs) = (8 * length bs + 5) div 6"
  by (induction False bs rule: b64_encode.induct) (simp_all add: Let_def)

end
