(* ===== verification/Zttp_Database.thy ===== *)
theory Zttp_Database
  imports Zttp_Strings
begin

text \<open>
  The control-plane database. The tables and their constraints are those of
  \<^verbatim>\<open>db/migrations/*.sql\<close>; the statements themselves are modelled in the component whose Go
  code holds their text, as functions on this record.

  A table is the list of its rows in the order the server would produce them. The list
  \<open>outages\<close> scripts the environment: each statement takes the next entry and fails without effect
  when it is true; when the script is exhausted the server is up. A statement is atomic.

  \<^verbatim>\<open>INET\<close> values carry a netmask: \<^verbatim>\<open>host(x)\<close> is the address alone, and the cast
  \<^verbatim>\<open>x::text\<close> is the address with the netmask length appended, as the PostgreSQL manual documents.
\<close>

datatype inet = Inet (inet_addr: string) (inet_masklen: nat)

definition pg_host :: "inet \<Rightarrow> string" where
  "pg_host i = inet_addr i"

definition pg_text :: "inet \<Rightarrow> string" where
  "pg_text i = inet_addr i @ ''/'' @ dec_nat (inet_masklen i)"

record user_row =
  u_id :: uuid
  u_username :: string
  u_password_hash :: string
  u_role :: string
  u_failed_attempts :: int
  u_locked_until :: "instant option"
  u_override :: bool

record server_row =
  s_id :: uuid
  s_hostname :: string
  s_private_ip :: inet
  s_vault_path :: string
  s_ssh_user :: string
  s_environment :: string

record policy_row =
  p_role :: string
  p_envs :: "string list"
  p_cmds :: "string list option"

record session_row =
  a_session_id :: uuid
  a_user_id :: uuid
  a_server_id :: uuid
  a_proxy_node_ip :: inet
  a_start_time :: instant
  a_status :: string

record db =
  users :: "user_row list"
  servers :: "server_row list"
  policies :: "policy_row list"
  grants :: "(uuid \<times> uuid) list"
  sessions :: "session_row list"
  outages :: "bool list"

datatype sql_error = ErrNoRows | DbDown | ConstraintViolation | OutOfRange | BadInput

type_synonym 'a sql = "db \<Rightarrow> (sql_error + 'a) \<times> db"

definition run_stmt :: "'a sql \<Rightarrow> 'a sql" where
  "run_stmt f d = (case outages d of
     [] \<Rightarrow> f d
   | x # xs \<Rightarrow> (if x then (Inl DbDown, d\<lparr>outages := xs\<rparr>) else f (d\<lparr>outages := xs\<rparr>)))"

text \<open>A statement that only reads.\<close>

definition query :: "(db \<Rightarrow> sql_error + 'a) \<Rightarrow> 'a sql" where
  "query q = run_stmt (\<lambda>d. (q d, d))"

definition session_statuses :: "string set" where
  "session_statuses = {''active'', ''terminated'', ''terminated-timeout'', ''terminated-kill''}"

text \<open>The constraints of the schema.\<close>

definition schema_ok :: "db \<Rightarrow> bool" where
  "schema_ok d \<longleftrightarrow>
     distinct (map u_id (users d)) \<and> distinct (map u_username (users d))
     \<and> distinct (map s_id (servers d)) \<and> distinct (map s_hostname (servers d))
     \<and> distinct (map p_role (policies d))
     \<and> distinct (grants d)
     \<and> (\<forall>(u, s) \<in> set (grants d). u \<in> u_id ` set (users d) \<and> s \<in> s_id ` set (servers d))
     \<and> distinct (map a_session_id (sessions d))
     \<and> (\<forall>a \<in> set (sessions d). a_user_id a \<in> u_id ` set (users d)
          \<and> a_server_id a \<in> s_id ` set (servers d) \<and> a_status a \<in> session_statuses)"

definition INT_MAX :: int where
  "INT_MAX = 2147483647"

subsection \<open>Lemmas\<close>

lemma query_db: "snd (query q d) = d\<lparr>outages := outages (snd (query q d))\<rparr>"
  by (simp add: query_def run_stmt_def split: list.split)

lemma query_up: "outages d = [] \<Longrightarrow> query q d = (q d, d)"
  by (simp add: query_def run_stmt_def)

lemma run_stmt_up: "outages d = [] \<Longrightarrow> run_stmt f d = f d"
  by (simp add: run_stmt_def)

lemma outages_same: "outages d = xs \<Longrightarrow> d\<lparr>outages := xs\<rparr> = d"
  by (cases d) simp

lemma query_Inr: "query q d = (Inr x, d') \<Longrightarrow> \<exists>ys. q (d\<lparr>outages := ys\<rparr>) = Inr x \<and> d' = d\<lparr>outages := ys\<rparr>"
  by (cases "outages d")
    (auto simp: query_def run_stmt_def outages_same intro: exI [of _ "[]"] split: if_splits)

lemma schema_ok_outages [simp]: "schema_ok (d\<lparr>outages := xs\<rparr>) = schema_ok d"
  by (simp add: schema_ok_def)

lemma schema_ok_users:
  assumes "map u_id us = map u_id (users d)" "map u_username us = map u_username (users d)"
  shows "schema_ok (d\<lparr>users := us\<rparr>) = schema_ok d"
proof -
  have "u_id ` set us = u_id ` set (users d)" using assms(1) by (metis set_map)
  then show ?thesis by (simp add: schema_ok_def assms)
qed

lemma distinct_key_unique:
  "distinct (map f xs) \<Longrightarrow> x \<in> set xs \<Longrightarrow> y \<in> set xs \<Longrightarrow> f x = f y \<Longrightarrow> x = y"
  by (meson distinct_map inj_onD)

lemma filter_unique:
  "distinct (map f xs) \<Longrightarrow> r \<in> set xs \<Longrightarrow> filter (\<lambda>x. f x = f r) xs = [r]"
  by (induction xs) (auto simp: filter_empty_conv rev_image_eqI)

lemma pg_text_has_slash: "CHR ''/'' \<in> set (pg_text i)"
  by (simp add: pg_text_def)

end
