(* ===== verification/Zttp_Auth.thy ===== *)
theory Zttp_Auth
  imports Zttp_Database Zttp_Config
begin

text \<open>
  The authentication engine: \<^verbatim>\<open>internal/auth/auth.go\<close> and \<^verbatim>\<open>internal/auth/hash.go\<close>.

  bcrypt is a parameter: \<open>bcmp hash password\<close> tells whether
  \<^verbatim>\<open>bcrypt.CompareHashAndPassword\<close> returned no error, \<open>bgen password cost\<close> is
  \<^verbatim>\<open>bcrypt.GenerateFromPassword\<close>. \<open>Authenticate\<close> returns its result, the database it leaves, the
  SOC alerts it starts and the bcrypt comparisons it made; the comparisons stand for the time it
  takes. The three clock readings of one call are the proxy's clock at the lockout check, the
  database's \<^verbatim>\<open>NOW()\<close> and the proxy's clock after the update.
\<close>

subsection \<open>Model\<close>

definition bcryptCost :: nat where
  "bcryptCost = 12"

definition dummyHash :: string where
  "dummyHash = ''$2a$12$LQv3c1yqBWVHxkd0LHAkCOYz6TtxMQJqhN8/LewdBPj0oEkXBDhum''"

definition HashPassword :: "(bytes \<Rightarrow> nat \<Rightarrow> string + bytes) \<Rightarrow> string \<Rightarrow> string + string" where
  "HashPassword bgen plaintext = (case bgen plaintext bcryptCost of
     Inl e \<Rightarrow> Inl (''bcrypt hash: '' @ e) | Inr hash \<Rightarrow> Inr hash)"

definition VerifyPassword :: "(bytes \<Rightarrow> bytes \<Rightarrow> bool) \<Rightarrow> string \<Rightarrow> string \<Rightarrow> bool" where
  "VerifyPassword bcmp plaintext hash = bcmp hash plaintext"

record User =
  usr_ID :: uuid
  usr_Username :: string
  usr_Role :: string

datatype auth_error = ErrAuthentication | ErrAccountLocked | AuthDbQuery sql_error

record auth_clock =
  t_check :: instant
  t_db :: instant
  t_after :: instant

record soc_alert =
  al_username :: string
  al_attempts :: int
  al_locked_until :: instant

text \<open>\<^verbatim>\<open>SELECT id, password_hash, role, locked_until FROM users WHERE username = $1\<close>\<close>

definition select_user :: "string \<Rightarrow> user_row sql" where
  "select_user username = query (\<lambda>d. case filter (\<lambda>r. u_username r = username) (users d) of
     [] \<Rightarrow> Inl ErrNoRows | r # _ \<Rightarrow> Inr r)"

text \<open>The assignments of the atomic \<^verbatim>\<open>UPDATE\<close>: \<^verbatim>\<open>failed_attempts\<close> on the right-hand side is the old
  value.\<close>

definition bump_row :: "int \<Rightarrow> int \<Rightarrow> instant \<Rightarrow> user_row \<Rightarrow> user_row" where
  "bump_row threshold secs now r = r\<lparr>
     u_failed_attempts := u_failed_attempts r + 1,
     u_locked_until :=
       (if threshold \<le> u_failed_attempts r + 1 \<and> u_locked_until r = None
        then Some (now + secs * second) else u_locked_until r)\<rparr>"

definition update_failed :: "int \<Rightarrow> int \<Rightarrow> instant \<Rightarrow> uuid \<Rightarrow> user_row sql" where
  "update_failed threshold secs now userID = run_stmt (\<lambda>d.
     case filter (\<lambda>r. u_id r = userID) (users d) of
       [] \<Rightarrow> (Inl ErrNoRows, d)
     | r # _ \<Rightarrow>
         (if INT_MAX < u_failed_attempts r + 1 then (Inl OutOfRange, d)
          else (Inr (bump_row threshold secs now r),
                d\<lparr>users := map (\<lambda>x. if u_id x = userID then bump_row threshold secs now x else x) (users d)\<rparr>)))"

text \<open>\<^verbatim>\<open>int(lockDuration.Seconds())\<close>: whole seconds, rounded towards zero.\<close>

definition lock_seconds :: "duration \<Rightarrow> int" where
  "lock_seconds d = (if 0 \<le> d then d div second else - ((- d) div second))"

definition atomicIncrementAndMaybeLock ::
  "Config \<Rightarrow> auth_clock \<Rightarrow> uuid \<Rightarrow> (instant \<times> bool) sql" where
  "atomicIncrementAndMaybeLock cfg clk userID d =
     (case update_failed (MaxFailedAttempts cfg) (lock_seconds (LockoutDuration cfg)) (t_db clk) userID d of
        (Inl e, d') \<Rightarrow> (Inl e, d')
      | (Inr r, d') \<Rightarrow>
          (case u_locked_until r of
             Some t \<Rightarrow> (if t_after clk < t then (Inr (t, True), d') else (Inr (0, False), d'))
           | None \<Rightarrow> (Inr (0, False), d')))"

definition reset_failed :: "uuid \<Rightarrow> unit sql" where
  "reset_failed userID = run_stmt (\<lambda>d. (Inr (), d\<lparr>users :=
     map (\<lambda>r. if u_id r = userID then r\<lparr>u_failed_attempts := 0, u_locked_until := None\<rparr> else r)
       (users d)\<rparr>))"

text \<open>The request that \<^verbatim>\<open>fireSOCAlert\<close> posts, if a webhook is configured; \<open>rfc3339\<close> formats an
  instant. Delivery errors are only logged.\<close>

definition fireSOCAlert ::
  "(instant \<Rightarrow> string) \<Rightarrow> Config \<Rightarrow> instant \<Rightarrow> soc_alert \<Rightarrow> (string \<times> (string \<times> string) list) option" where
  "fireSOCAlert rfc3339 cfg now al =
     (if SOCWebhookURL cfg = [] then None
      else Some (SOCWebhookURL cfg,
        [(''event'', ''account_locked''), (''severity'', ''high''),
         (''username'', al_username al), (''attempts'', dec_int (al_attempts al)),
         (''locked_until'', rfc3339 (al_locked_until al)), (''timestamp'', rfc3339 now)]))"

record auth_outcome =
  ao_result :: "auth_error + User"
  ao_db :: db
  ao_alerts :: "soc_alert list"
  ao_hashes :: "(string \<times> string) list" \<comment> \<open>bcrypt comparisons: password, hash\<close>

definition Authenticate ::
  "(bytes \<Rightarrow> bytes \<Rightarrow> bool) \<Rightarrow> Config \<Rightarrow> auth_clock \<Rightarrow> db \<Rightarrow> string \<Rightarrow> string \<Rightarrow> auth_outcome" where
  "Authenticate bcmp cfg clk d username password =
     (case select_user username d of
        (Inl ErrNoRows, d1) \<Rightarrow>
          \<lparr>ao_result = Inl ErrAuthentication, ao_db = d1, ao_alerts = [],
           ao_hashes = [(password, dummyHash)]\<rparr>
      | (Inl e, d1) \<Rightarrow>
          \<lparr>ao_result = Inl (AuthDbQuery e), ao_db = d1, ao_alerts = [], ao_hashes = []\<rparr>
      | (Inr row, d1) \<Rightarrow>
          (if \<exists>t \<in> set_option (u_locked_until row). t_check clk < t then
             \<lparr>ao_result = Inl ErrAccountLocked, ao_db = d1, ao_alerts = [], ao_hashes = []\<rparr>
           else if \<not> VerifyPassword bcmp password (u_password_hash row) then
             (case atomicIncrementAndMaybeLock cfg clk (u_id row) d1 of
                (Inl e, d2) \<Rightarrow>
                  \<lparr>ao_result = Inl ErrAuthentication, ao_db = d2, ao_alerts = [],
                   ao_hashes = [(password, u_password_hash row)]\<rparr>
              | (Inr (lockUntil, locked), d2) \<Rightarrow>
                  \<lparr>ao_result = Inl ErrAuthentication, ao_db = d2,
                   ao_alerts = (if locked
                     then [\<lparr>al_username = username, al_attempts = MaxFailedAttempts cfg,
                            al_locked_until = lockUntil\<rparr>] else []),
                   ao_hashes = [(password, u_password_hash row)]\<rparr>)
           else
             \<lparr>ao_result = Inr \<lparr>usr_ID = u_id row, usr_Username = username, usr_Role = u_role row\<rparr>,
              ao_db = snd (reset_failed (u_id row) d1), ao_alerts = [],
              ao_hashes = [(password, u_password_hash row)]\<rparr>))"

text \<open>A sequence of login attempts on one account.\<close>

fun login_run ::
  "(bytes \<Rightarrow> bytes \<Rightarrow> bool) \<Rightarrow> Config \<Rightarrow> string \<Rightarrow> db \<Rightarrow> (auth_clock \<times> string) list \<Rightarrow>
   (auth_error + User) list \<times> db" where
  "login_run bcmp cfg username d [] = ([], d)"
| "login_run bcmp cfg username d ((clk, password) # as) =
     (let out = Authenticate bcmp cfg clk d username password;
          (rs, d') = login_run bcmp cfg username (ao_db out) as
      in (ao_result out # rs, d'))"

subsection \<open>Rows\<close>

text \<open>The database with the row of one user replaced.\<close>

definition put_row :: "user_row \<Rightarrow> db \<Rightarrow> db" where
  "put_row r d = d\<lparr>users := map (\<lambda>x. if u_id x = u_id r then r else x) (users d)\<rparr>"

definition same_identity :: "user_row \<Rightarrow> user_row \<Rightarrow> bool" where
  "same_identity r r' \<longleftrightarrow> u_id r' = u_id r \<and> u_username r' = u_username r
     \<and> u_password_hash r' = u_password_hash r \<and> u_role r' = u_role r"

lemma same_identity_refl [simp]: "same_identity r r"
  by (simp add: same_identity_def)

lemma same_identity_trans: "same_identity a b \<Longrightarrow> same_identity b c \<Longrightarrow> same_identity a c"
  by (simp add: same_identity_def)

lemma same_identity_bump [simp]: "same_identity r (bump_row n s t r)"
  by (simp add: same_identity_def bump_row_def)

lemma users_put_row: "users (put_row r d) = map (\<lambda>x. if u_id x = u_id r then r else x) (users d)"
  by (simp add: put_row_def)

lemma put_row_outages [simp]: "outages (put_row r d) = outages d"
  by (simp add: put_row_def)

lemma put_row_member:
  "r \<in> set (users d) \<Longrightarrow> u_id r' = u_id r \<Longrightarrow> r' \<in> set (users (put_row r' d))"
  by (force simp: users_put_row)

lemma put_row_twice [simp]: "u_id r' = u_id r \<Longrightarrow> put_row r' (put_row r d) = put_row r' d"
  by (simp add: put_row_def)

lemma map_update_row:
  assumes "distinct (map u_id xs)" "r \<in> set xs"
  shows "map (\<lambda>x. if u_id x = u_id r then g x else x) xs = map (\<lambda>x. if u_id x = u_id r then g r else x) xs"
  using assms by (intro map_cong refl) (auto dest: distinct_key_unique)

lemma schema_ok_put_row:
  assumes "schema_ok d" "r \<in> set (users d)" "same_identity r r'"
  shows "schema_ok (put_row r' d)"
proof -
  have name: "u_username x = u_username r'" if "x \<in> set (users d)" "u_id x = u_id r'" for x
    using assms that distinct_key_unique [of u_id "users d" x r]
    by (auto simp: schema_ok_def same_identity_def)
  then show ?thesis
    unfolding put_row_def using assms(1) by (subst schema_ok_users) auto
qed

lemma select_user_up:
  assumes "schema_ok d" "outages d = []" "r \<in> set (users d)"
  shows "select_user (u_username r) d = (Inr r, d)"
  using assms filter_unique [of u_username "users d" r]
  by (simp add: select_user_def query_up schema_ok_def)

lemma update_failed_up:
  assumes "schema_ok d" "outages d = []" "r \<in> set (users d)"
  shows "update_failed n s t (u_id r) d =
    (if INT_MAX < u_failed_attempts r + 1 then (Inl OutOfRange, d)
     else (Inr (bump_row n s t r), put_row (bump_row n s t r) d))"
proof -
  have "u_id (bump_row n s t r) = u_id r" by (simp add: bump_row_def)
  then show ?thesis
    using assms filter_unique [of u_id "users d" r] map_update_row [of "users d" r "bump_row n s t"]
    by (simp add: update_failed_def run_stmt_up schema_ok_def put_row_def)
qed

lemma reset_failed_up:
  assumes "schema_ok d" "outages d = []" "r \<in> set (users d)"
  shows "snd (reset_failed (u_id r) d) = put_row (r\<lparr>u_failed_attempts := 0, u_locked_until := None\<rparr>) d"
  using assms map_update_row [of "users d" r "\<lambda>r. r\<lparr>u_failed_attempts := 0, u_locked_until := None\<rparr>"]
  by (simp add: reset_failed_def run_stmt_up schema_ok_def put_row_def)

subsection \<open>One attempt against a healthy database\<close>

definition locked_at :: "instant \<Rightarrow> user_row \<Rightarrow> bool" where
  "locked_at now r \<longleftrightarrow> (\<exists>t \<in> set_option (u_locked_until r). now < t)"

lemma auth_locked:
  assumes "schema_ok d" "outages d = []" "r \<in> set (users d)" "locked_at (t_check clk) r"
  shows "ao_result (Authenticate bcmp cfg clk d (u_username r) pw) = Inl ErrAccountLocked
    \<and> ao_db (Authenticate bcmp cfg clk d (u_username r) pw) = d"
  using assms by (simp add: Authenticate_def select_user_up locked_at_def)

lemma auth_wrong:
  assumes "schema_ok d" "outages d = []" "r \<in> set (users d)" "\<not> locked_at (t_check clk) r"
    and "\<not> bcmp (u_password_hash r) pw"
  shows "ao_result (Authenticate bcmp cfg clk d (u_username r) pw) = Inl ErrAuthentication
    \<and> ao_db (Authenticate bcmp cfg clk d (u_username r) pw) =
      (if INT_MAX < u_failed_attempts r + 1 then d
       else put_row (bump_row (MaxFailedAttempts cfg) (lock_seconds (LockoutDuration cfg)) (t_db clk) r) d)"
  using assms
  by (simp add: Authenticate_def select_user_up locked_at_def VerifyPassword_def
      atomicIncrementAndMaybeLock_def update_failed_up split: option.split)

lemma auth_right:
  assumes "schema_ok d" "outages d = []" "r \<in> set (users d)" "\<not> locked_at (t_check clk) r"
    and "bcmp (u_password_hash r) pw"
  shows "ao_result (Authenticate bcmp cfg clk d (u_username r) pw) =
      Inr \<lparr>usr_ID = u_id r, usr_Username = u_username r, usr_Role = u_role r\<rparr>
    \<and> ao_db (Authenticate bcmp cfg clk d (u_username r) pw) =
      put_row (r\<lparr>u_failed_attempts := 0, u_locked_until := None\<rparr>) d"
  using assms
  by (simp add: Authenticate_def select_user_up locked_at_def VerifyPassword_def reset_failed_up)

lemma login_run_append:
  "login_run bcmp cfg name d (as @ bs) =
     (let (rs, d1) = login_run bcmp cfg name d as; (rs', d2) = login_run bcmp cfg name d1 bs
      in (rs @ rs', d2))"
  by (induction as arbitrary: d) (auto simp: Let_def split: prod.splits)

lemma login_run_below_threshold:
  assumes "schema_ok d" "outages d = []" "r \<in> set (users d)" "u_locked_until r = None"
    and "\<forall>(clk, pw) \<in> set as. \<not> bcmp (u_password_hash r) pw"
    and "u_failed_attempts r + int (length as) < MaxFailedAttempts cfg" "MaxFailedAttempts cfg \<le> INT_MAX"
  shows "login_run bcmp cfg (u_username r) d as =
    (replicate (length as) (Inl ErrAuthentication),
     put_row (r\<lparr>u_failed_attempts := u_failed_attempts r + int (length as)\<rparr>) d)"
  using assms
proof (induction as arbitrary: d r)
  case Nil
  have "put_row r d = d"
    using Nil(1,3) by (cases d) (auto simp: put_row_def schema_ok_def intro!: map_idI dest: distinct_key_unique)
  then show ?case by simp
next
  case (Cons a as)
  obtain clk pw where a: "a = (clk, pw)" by (cases a)
  let ?r = "r\<lparr>u_failed_attempts := u_failed_attempts r + 1\<rparr>"
  have "bump_row (MaxFailedAttempts cfg) (lock_seconds (LockoutDuration cfg)) (t_db clk) r = ?r"
    using Cons.prems(4,6) by (simp add: bump_row_def)
  then have one: "ao_result (Authenticate bcmp cfg clk d (u_username r) pw) = Inl ErrAuthentication"
    "ao_db (Authenticate bcmp cfg clk d (u_username r) pw) = put_row ?r d"
    using auth_wrong [of d r clk bcmp pw cfg] Cons.prems a by (auto simp: locked_at_def)
  have "login_run bcmp cfg (u_username ?r) (put_row ?r d) as =
    (replicate (length as) (Inl ErrAuthentication),
     put_row (?r\<lparr>u_failed_attempts := u_failed_attempts ?r + int (length as)\<rparr>) (put_row ?r d))"
    using Cons.prems schema_ok_put_row [of d r ?r] put_row_member [of r d ?r]
    by (intro Cons.IH) (auto simp: same_identity_def)
  then show ?case using one a by (simp add: algebra_simps)
qed

lemma login_run_after_expiry:
  assumes "schema_ok d" "outages d = []" "r \<in> set (users d)" "u_locked_until r = Some t"
    and "\<forall>(clk, pw) \<in> set as. t \<le> t_check clk \<and> \<not> bcmp (u_password_hash r) pw"
  shows "\<exists>d' r'. login_run bcmp cfg (u_username r) d as = (replicate (length as) (Inl ErrAuthentication), d')
    \<and> schema_ok d' \<and> outages d' = [] \<and> r' \<in> set (users d') \<and> same_identity r r' \<and> u_locked_until r' = Some t"
  using assms
proof (induction as arbitrary: d r)
  case Nil
  then show ?case by (auto intro: exI [of _ r])
next
  case (Cons a as)
  obtain clk pw where a: "a = (clk, pw)" by (cases a)
  let ?r = "bump_row (MaxFailedAttempts cfg) (lock_seconds (LockoutDuration cfg)) (t_db clk) r"
  define r1 where "r1 = (if INT_MAX < u_failed_attempts r + 1 then r else ?r)"
  define d1 where "d1 = (if INT_MAX < u_failed_attempts r + 1 then d else put_row ?r d)"
  have step: "ao_result (Authenticate bcmp cfg clk d (u_username r) pw) = Inl ErrAuthentication"
    "ao_db (Authenticate bcmp cfg clk d (u_username r) pw) = d1"
    using auth_wrong [of d r clk bcmp pw cfg] Cons.prems a by (auto simp: locked_at_def d1_def)
  have ident: "same_identity r r1" by (simp add: r1_def)
  have st: "schema_ok d1" "outages d1 = []" "r1 \<in> set (users d1)" "u_locked_until r1 = Some t"
    using Cons.prems schema_ok_put_row [of d r ?r] put_row_member [of r d ?r]
    by (auto simp: d1_def r1_def bump_row_def same_identity_def)
  obtain d' r' where "login_run bcmp cfg (u_username r1) d1 as = (replicate (length as) (Inl ErrAuthentication), d')"
    "schema_ok d'" "outages d' = []" "r' \<in> set (users d')" "same_identity r1 r'" "u_locked_until r' = Some t"
    using Cons.IH [OF st] Cons.prems(5) ident by (auto simp: same_identity_def)
  then show ?case
    using step a ident by (auto simp: same_identity_def intro!: exI [of _ r'])
qed

text \<open>What an authentication may change: of the users table only the failure counter and the lock
  of rows with the given name, and nothing else.\<close>

definition auth_frame :: "string \<Rightarrow> db \<Rightarrow> db \<Rightarrow> bool" where
  "auth_frame name d d' \<longleftrightarrow>
     list_all2 (\<lambda>r r'. same_identity r r' \<and> u_override r' = u_override r \<and> (u_username r \<noteq> name \<longrightarrow> r' = r))
       (users d) (users d')
     \<and> servers d' = servers d \<and> policies d' = policies d \<and> grants d' = grants d \<and> sessions d' = sessions d"

lemma auth_frame_refl [simp]: "auth_frame name d (d\<lparr>outages := xs\<rparr>)" "auth_frame name d d"
  by (simp_all add: auth_frame_def list.rel_refl)

lemma auth_frame_outages [simp]: "auth_frame name (d\<lparr>outages := xs\<rparr>) d' = auth_frame name d d'"
  by (simp add: auth_frame_def)

lemma auth_frame_update:
  assumes "schema_ok d" "r \<in> set (users d)"
    and "\<And>x. same_identity x (g x) \<and> u_override (g x) = u_override x"
  shows "auth_frame (u_username r) d (d\<lparr>users := map (\<lambda>x. if u_id x = u_id r then g x else x) (users d)\<rparr>)"
proof -
  have "u_username x = u_username r" if "x \<in> set (users d)" "u_id x = u_id r" for x
    using assms(1,2) that distinct_key_unique [of u_id "users d" x r] by (auto simp: schema_ok_def)
  then show ?thesis
    using assms(3) by (auto simp: auth_frame_def list_all2_map2 intro!: list.rel_refl_strong)
qed

lemma select_user_Inr:
  "select_user name d = (Inr r, d1) \<Longrightarrow> \<exists>xs. d1 = d\<lparr>outages := xs\<rparr> \<and> r \<in> set (users d) \<and> u_username r = name"
  by (auto simp: select_user_def dest!: query_Inr split: list.splits)
    (metis (mono_tags, lifting) filter_eq_ConsD in_set_conv_decomp)+

lemma select_user_frame: "auth_frame name d (snd (select_user name' d))"
  by (metis auth_frame_refl(1) query_db select_user_def)

lemma update_failed_frame:
  assumes "schema_ok d" "r \<in> set (users d)"
  shows "auth_frame (u_username r) d (snd (update_failed n s t (u_id r) d))"
proof -
  have "auth_frame (u_username r) d0 (d0\<lparr>users := map (\<lambda>x. if u_id x = u_id r then bump_row n s t x else x) (users d0)\<rparr>)"
    if "schema_ok d0" "r \<in> set (users d0)" for d0
    using that by (rule auth_frame_update) (simp add: bump_row_def same_identity_def)
  from this [of "d\<lparr>outages := _\<rparr>"] this [of d] show ?thesis
    using assms by (auto simp: update_failed_def run_stmt_def split: list.split)
qed

lemma reset_failed_frame:
  assumes "schema_ok d" "r \<in> set (users d)"
  shows "auth_frame (u_username r) d (snd (reset_failed (u_id r) d))"
proof -
  have "auth_frame (u_username r) d0 (d0\<lparr>users := map (\<lambda>x. if u_id x = u_id r then x\<lparr>u_failed_attempts := 0, u_locked_until := None\<rparr> else x) (users d0)\<rparr>)"
    if "schema_ok d0" "r \<in> set (users d0)" for d0
    using that by (rule auth_frame_update) (simp add: same_identity_def)
  from this [of "d\<lparr>outages := _\<rparr>"] this [of d] show ?thesis
    using assms by (auto simp: reset_failed_def run_stmt_def split: list.split)
qed

lemma auth_frame_schema:
  assumes "auth_frame name d d'" "schema_ok d"
  shows "schema_ok d'"
proof -
  have *: "list_all2 (\<lambda>r r'. same_identity r r') (users d) (users d')"
    using assms(1) by (auto simp: auth_frame_def elim: list_all2_mono)
  then have "map u_id (users d') = map u_id (users d)" "map u_username (users d') = map u_username (users d)"
    by (induction rule: list_all2_induct) (auto simp: same_identity_def)
  then have "schema_ok (d\<lparr>users := users d'\<rparr>)" using schema_ok_users assms(2) by blast
  then show ?thesis using assms(1) by (simp add: schema_ok_def auth_frame_def)
qed

lemma Authenticate_Inr:
  assumes "ao_result (Authenticate bcmp cfg clk d username password) = Inr u"
  shows "\<exists>r \<in> set (users d). u_username r = username \<and> \<not> locked_at (t_check clk) r
     \<and> bcmp (u_password_hash r) password
     \<and> u = \<lparr>usr_ID = u_id r, usr_Username = username, usr_Role = u_role r\<rparr>"
proof -
  obtain r d1 where sel: "select_user username d = (Inr r, d1)"
    using assms by (auto simp: Authenticate_def split: prod.splits sum.splits sql_error.splits)
  then have "\<not> locked_at (t_check clk) r \<and> bcmp (u_password_hash r) password
     \<and> u = \<lparr>usr_ID = u_id r, usr_Username = username, usr_Role = u_role r\<rparr>"
    using assms
    by (auto simp: Authenticate_def VerifyPassword_def locked_at_def split: if_splits prod.splits sum.splits)
  then show ?thesis using select_user_Inr [OF sel] by blast
qed

lemma auth_frame_Authenticate:
  assumes "schema_ok d"
  shows "auth_frame username d (ao_db (Authenticate bcmp cfg clk d username password))"
proof (cases "select_user username d")
  case (Pair res d1)
  show ?thesis
  proof (cases res)
    case (Inl e)
    then show ?thesis
      using Pair select_user_frame [of username d username]
      by (cases e) (simp_all add: Authenticate_def)
  next
    case (Inr r)
    then obtain xs where d1: "d1 = d\<lparr>outages := xs\<rparr>" and r: "r \<in> set (users d)" "u_username r = username"
      using select_user_Inr Pair by blast
    have "auth_frame username d (snd (update_failed n s t (u_id r) d1))" for n s t
      using update_failed_frame [of d1 r n s t] assms d1 r by simp
    moreover have "auth_frame username d (snd (reset_failed (u_id r) d1))"
      using reset_failed_frame [of d1 r] assms d1 r by simp
    ultimately show ?thesis
      using Pair Inr d1
      by (auto simp: Authenticate_def atomicIncrementAndMaybeLock_def split: prod.split sum.split option.split)
        (metis snd_conv)+
  qed
qed

subsection \<open>Properties\<close>

text \<open>Data for the witnesses: one account whose password is \<^verbatim>\<open>pw\<close>, and the default settings.\<close>

definition demo_user :: user_row where
  "demo_user = \<lparr>u_id = 1, u_username = ''jdoe'', u_password_hash = ''h'', u_role = ''sre-tier1'',
     u_failed_attempts = 0, u_locked_until = None, u_override = False\<rparr>"

definition demo_db :: db where
  "demo_db = \<lparr>users = [demo_user], servers = [], policies = [], grants = [], sessions = [], outages = []\<rparr>"

definition demo_cmp :: "bytes \<Rightarrow> bytes \<Rightarrow> bool" where
  "demo_cmp h p \<longleftrightarrow> h = ''h'' \<and> p = ''pw''"

lemma demo_user_sel [simp]:
  "u_id demo_user = 1" "u_username demo_user = ''jdoe''" "u_password_hash demo_user = ''h''"
  "u_role demo_user = ''sre-tier1''" "u_failed_attempts demo_user = 0" "u_locked_until demo_user = None"
  "demo_cmp ''h'' p \<longleftrightarrow> p = ''pw''"
  by (simp_all add: demo_user_def demo_cmp_def)

lemma demo_db_ok [simp]: "schema_ok demo_db" "outages demo_db = []" "demo_user \<in> set (users demo_db)"
  by (simp_all add: demo_db_def schema_ok_def)

text \<open>C12. Soundness of the first gate, whatever statements fail: an identity is returned only for an
  existing account with that name that is not locked at the check and whose stored hash matches the
  password, and it carries that account's id and role.\<close>

theorem Authenticate_sound:
  assumes "ao_result (Authenticate bcmp cfg clk d username password) = Inr u"
  shows "\<exists>r \<in> set (users d). u_username r = username \<and> \<not> locked_at (t_check clk) r
     \<and> bcmp (u_password_hash r) password
     \<and> u = \<lparr>usr_ID = u_id r, usr_Username = username, usr_Role = u_role r\<rparr>"
  by (rule Authenticate_Inr [OF assms])

theorem Authenticate_sound_witness:
  "\<exists>r \<in> set (users demo_db). u_username r = ''jdoe'' \<and> \<not> locked_at (t_check \<lparr>t_check = 0, t_db = 0, t_after = 0\<rparr>) r
     \<and> demo_cmp (u_password_hash r) ''pw''
     \<and> \<lparr>usr_ID = 1, usr_Username = ''jdoe'', usr_Role = ''sre-tier1''\<rparr>
       = \<lparr>usr_ID = u_id r, usr_Username = ''jdoe'', usr_Role = u_role r\<rparr>"
  by (rule Authenticate_sound [where cfg = demo_config])
    (use auth_right [of demo_db demo_user "\<lparr>t_check = 0, t_db = 0, t_after = 0\<rparr>" demo_cmp "''pw''" demo_config]
      in \<open>simp add: locked_at_def\<close>)

text \<open>Fail-closed: when the database cannot answer the lookup, the attempt is denied without a
  password comparison, whatever the credentials are, and the stored data are untouched.\<close>

theorem Authenticate_fail_closed:
  assumes "outages d = True # xs"
  shows "Authenticate bcmp cfg clk d username password =
    \<lparr>ao_result = Inl (AuthDbQuery DbDown), ao_db = d\<lparr>outages := xs\<rparr>, ao_alerts = [], ao_hashes = []\<rparr>"
  using assms by (simp add: Authenticate_def select_user_def query_def run_stmt_def)

theorem Authenticate_fail_closed_witness:
  "Authenticate demo_cmp demo_config \<lparr>t_check = 0, t_db = 0, t_after = 0\<rparr> (demo_db\<lparr>outages := [True]\<rparr>) ''jdoe'' ''pw'' =
    \<lparr>ao_result = Inl (AuthDbQuery DbDown), ao_db = demo_db\<lparr>outages := [True]\<rparr>\<lparr>outages := []\<rparr>, ao_alerts = [], ao_hashes = []\<rparr>"
  by (rule Authenticate_fail_closed) simp

text \<open>C7. Lockout: after \<^verbatim>\<open>MaxFailedAttempts\<close> wrong passwords in a row on a fresh account, every
  attempt before the end of the lockout period is refused, the correct password included, and leaves
  the database alone.\<close>

theorem lockout_after_threshold:
  assumes "schema_ok d" "outages d = []" "r \<in> set (users d)" "u_locked_until r = None" "u_failed_attempts r = 0"
    and "valid_config cfg" "MaxFailedAttempts cfg \<le> INT_MAX"
    and "length as = nat (MaxFailedAttempts cfg)" "\<forall>(clk, pw) \<in> set as. \<not> bcmp (u_password_hash r) pw"
    and "t_check clk' < t_db (fst (last as)) + lock_seconds (LockoutDuration cfg) * second"
  shows "\<exists>d'. login_run bcmp cfg (u_username r) d as = (replicate (length as) (Inl ErrAuthentication), d')
     \<and> ao_result (Authenticate bcmp cfg clk' d' (u_username r) pw') = Inl ErrAccountLocked
     \<and> ao_db (Authenticate bcmp cfg clk' d' (u_username r) pw') = d'"
proof -
  have n: "1 \<le> MaxFailedAttempts cfg" using assms(6) by (rule valid_config_threshold)
  with assms(8) have "as \<noteq> []" by auto
  then obtain bs clk pw where as: "as = bs @ [(clk, pw)]"
    by (metis rev_exhaust surj_pair)
  let ?k = "int (length bs)" and ?r1 = "r\<lparr>u_failed_attempts := int (length bs)\<rparr>"
  have k: "?k + 1 = MaxFailedAttempts cfg" using assms(8) as n by simp
  let ?r2 = "bump_row (MaxFailedAttempts cfg) (lock_seconds (LockoutDuration cfg)) (t_db clk) ?r1"
  have below: "login_run bcmp cfg (u_username r) d bs = (replicate (length bs) (Inl ErrAuthentication), put_row ?r1 d)"
    using login_run_below_threshold [of d r bs bcmp cfg] assms as k by simp
  have st1: "schema_ok (put_row ?r1 d)" "?r1 \<in> set (users (put_row ?r1 d))"
    using assms(1,3) schema_ok_put_row [of d r ?r1] put_row_member [of r d ?r1]
    by (auto simp: same_identity_def)
  have last: "ao_result (Authenticate bcmp cfg clk (put_row ?r1 d) (u_username r) pw) = Inl ErrAuthentication"
    "ao_db (Authenticate bcmp cfg clk (put_row ?r1 d) (u_username r) pw) = put_row ?r2 (put_row ?r1 d)"
    using auth_wrong [of "put_row ?r1 d" ?r1 clk bcmp pw cfg] st1 assms as k
    by (auto simp: locked_at_def)
  have st2: "schema_ok (put_row ?r2 (put_row ?r1 d))"
    by (rule schema_ok_put_row [OF st1 same_identity_bump])
  have mem2: "?r2 \<in> set (users (put_row ?r2 (put_row ?r1 d)))"
    by (rule put_row_member [OF st1(2)]) (simp add: bump_row_def)
  have "locked_at (t_check clk') ?r2"
    using assms(4,10) as k by (auto simp: locked_at_def bump_row_def)
  with st2 mem2 have "ao_result (Authenticate bcmp cfg clk' (put_row ?r2 (put_row ?r1 d)) (u_username r) pw') = Inl ErrAccountLocked
    \<and> ao_db (Authenticate bcmp cfg clk' (put_row ?r2 (put_row ?r1 d)) (u_username r) pw') = put_row ?r2 (put_row ?r1 d)"
    using auth_locked [of "put_row ?r2 (put_row ?r1 d)" ?r2 clk' bcmp cfg pw'] assms(2)
    by (simp add: bump_row_def)
  moreover have "login_run bcmp cfg (u_username r) d as =
    (replicate (length as) (Inl ErrAuthentication), put_row ?r2 (put_row ?r1 d))"
    using below last by (simp add: as login_run_append Let_def replicate_append_same)
  ultimately show ?thesis by blast
qed

theorem lockout_after_threshold_witness:
  "\<exists>d'. login_run demo_cmp demo_config (u_username demo_user) demo_db (replicate 5 (\<lparr>t_check = 0, t_db = 0, t_after = 0\<rparr>, ''guess''))
      = (replicate (length (replicate 5 (\<lparr>t_check = 0, t_db = 0, t_after = 0\<rparr>, ''guess''))) (Inl ErrAuthentication), d')
     \<and> ao_result (Authenticate demo_cmp demo_config \<lparr>t_check = 899999999999, t_db = 0, t_after = 0\<rparr> d' (u_username demo_user) ''pw'') = Inl ErrAccountLocked
     \<and> ao_db (Authenticate demo_cmp demo_config \<lparr>t_check = 899999999999, t_db = 0, t_after = 0\<rparr> d' (u_username demo_user) ''pw'') = d'"
  by (rule lockout_after_threshold)
    (simp_all add: valid_config_def validate_def demo_config_def INT_MAX_def lock_seconds_def)

text \<open>The lockout happens once: when it has expired, no number of further wrong passwords locks
  the account again, and the right password found that way is accepted.\<close>

theorem lockout_not_renewed:
  assumes "schema_ok d" "outages d = []" "r \<in> set (users d)" "u_locked_until r = Some t"
    and "\<forall>(clk, pw) \<in> set as. t \<le> t_check clk \<and> \<not> bcmp (u_password_hash r) pw"
    and "t \<le> t_check clk'" "bcmp (u_password_hash r) pw'"
  shows "\<exists>d'. login_run bcmp cfg (u_username r) d as = (replicate (length as) (Inl ErrAuthentication), d')
     \<and> ao_result (Authenticate bcmp cfg clk' d' (u_username r) pw')
       = Inr \<lparr>usr_ID = u_id r, usr_Username = u_username r, usr_Role = u_role r\<rparr>"
proof -
  obtain d' r' where run: "login_run bcmp cfg (u_username r) d as = (replicate (length as) (Inl ErrAuthentication), d')"
    and d': "schema_ok d'" "outages d' = []" "r' \<in> set (users d')" "same_identity r r'" "u_locked_until r' = Some t"
    using login_run_after_expiry [of d r t as bcmp cfg] assms(1-5) by blast
  have "\<not> locked_at (t_check clk') r'" using d'(5) assms(6) by (simp add: locked_at_def)
  then show ?thesis
    using run auth_right [of d' r' clk' bcmp pw' cfg] d'(1-3) d'(4) assms(7) by (simp add: same_identity_def)
qed

theorem lockout_not_renewed_witness:
  "\<exists>d'. login_run demo_cmp demo_config (u_username (demo_user\<lparr>u_failed_attempts := 5, u_locked_until := Some 10\<rparr>))
        (demo_db\<lparr>users := [demo_user\<lparr>u_failed_attempts := 5, u_locked_until := Some 10\<rparr>]\<rparr>)
        (replicate 1000 (\<lparr>t_check = 10, t_db = 10, t_after = 10\<rparr>, ''guess''))
      = (replicate (length (replicate 1000 (\<lparr>t_check = 10, t_db = 10, t_after = 10\<rparr>, ''guess''))) (Inl ErrAuthentication), d')
     \<and> ao_result (Authenticate demo_cmp demo_config \<lparr>t_check = 10, t_db = 10, t_after = 10\<rparr> d'
         (u_username (demo_user\<lparr>u_failed_attempts := 5, u_locked_until := Some 10\<rparr>)) ''pw'')
       = Inr \<lparr>usr_ID = u_id (demo_user\<lparr>u_failed_attempts := 5, u_locked_until := Some 10\<rparr>),
              usr_Username = u_username (demo_user\<lparr>u_failed_attempts := 5, u_locked_until := Some 10\<rparr>),
              usr_Role = u_role (demo_user\<lparr>u_failed_attempts := 5, u_locked_until := Some 10\<rparr>)\<rparr>"
  by (rule lockout_not_renewed [where t = 10])
    (simp_all add: demo_db_def demo_user_def schema_ok_def demo_cmp_def)

text \<open>Isolation: under any pattern of database failures an attempt changes nothing but the failure
  counter and the lock of accounts with that name (no role, hash, identity or other table), and the
  schema constraints keep holding.\<close>

theorem Authenticate_frame:
  assumes "schema_ok d"
  shows "auth_frame username d (ao_db (Authenticate bcmp cfg clk d username password))
     \<and> schema_ok (ao_db (Authenticate bcmp cfg clk d username password))"
  using auth_frame_Authenticate [OF assms] auth_frame_schema assms by blast

theorem Authenticate_frame_witness:
  "auth_frame ''jdoe'' demo_db (ao_db (Authenticate demo_cmp demo_config \<lparr>t_check = 0, t_db = 0, t_after = 0\<rparr> demo_db ''jdoe'' ''x''))
   \<and> schema_ok (ao_db (Authenticate demo_cmp demo_config \<lparr>t_check = 0, t_db = 0, t_after = 0\<rparr> demo_db ''jdoe'' ''x''))"
  by (rule Authenticate_frame) simp

text \<open>No username enumeration: an unknown name and a wrong password on an unlocked account give the
  same answer after the same work, one bcrypt comparison.\<close>

theorem unknown_user_like_wrong_password:
  assumes "schema_ok d" "outages d = []" "r \<in> set (users d)" "\<not> locked_at (t_check clk) r"
    and "\<not> bcmp (u_password_hash r) password" "name \<notin> u_username ` set (users d)"
  shows "ao_result (Authenticate bcmp cfg clk d name password) = ao_result (Authenticate bcmp cfg clk d (u_username r) password)
     \<and> length (ao_hashes (Authenticate bcmp cfg clk d name password)) = 1
     \<and> length (ao_hashes (Authenticate bcmp cfg clk d (u_username r) password)) = 1"
proof -
  have "filter (\<lambda>x. u_username x = name) (users d) = []"
    using assms(6) by (auto simp: filter_empty_conv)
  then have "Authenticate bcmp cfg clk d name password =
    \<lparr>ao_result = Inl ErrAuthentication, ao_db = d, ao_alerts = [], ao_hashes = [(password, dummyHash)]\<rparr>"
    using assms(2) by (simp add: Authenticate_def select_user_def query_up)
  moreover have "length (ao_hashes (Authenticate bcmp cfg clk d (u_username r) password)) = 1"
    using assms
    by (simp add: Authenticate_def select_user_up locked_at_def VerifyPassword_def split: prod.split sum.split)
  ultimately show ?thesis using auth_wrong [of d r clk bcmp password cfg] assms(1-5) by simp
qed

theorem unknown_user_like_wrong_password_witness:
  "ao_result (Authenticate demo_cmp demo_config \<lparr>t_check = 0, t_db = 0, t_after = 0\<rparr> demo_db ''eve'' ''x'')
     = ao_result (Authenticate demo_cmp demo_config \<lparr>t_check = 0, t_db = 0, t_after = 0\<rparr> demo_db (u_username demo_user) ''x'')
   \<and> length (ao_hashes (Authenticate demo_cmp demo_config \<lparr>t_check = 0, t_db = 0, t_after = 0\<rparr> demo_db ''eve'' ''x'')) = 1
   \<and> length (ao_hashes (Authenticate demo_cmp demo_config \<lparr>t_check = 0, t_db = 0, t_after = 0\<rparr> demo_db (u_username demo_user) ''x'')) = 1"
  by (rule unknown_user_like_wrong_password)
    (simp_all add: locked_at_def, simp add: demo_db_def)

end
