(* ===== verification/Zttp_Net.thy ===== *)
theory Zttp_Net
  imports Zttp_Strings
begin

text \<open>
  The parts of Go's \<^verbatim>\<open>net\<close> package that the program relies on: splitting a socket address into
  host and port, reading an IP address and printing it. A \<^verbatim>\<open>net.IP\<close> is its 16 bytes (the form
  \<^verbatim>\<open>net.ParseIP\<close> returns, IPv4 addresses mapped into it); the empty list is the nil \<^verbatim>\<open>net.IP\<close>.
\<close>

subsection \<open>Socket addresses\<close>

definition IndexByte :: "string \<Rightarrow> char \<Rightarrow> int" where
  "IndexByte s c = (if c \<in> set s then int (length (takeWhile (\<lambda>x. x \<noteq> c) s)) else - 1)"

text \<open>\<^verbatim>\<open>net.SplitHostPort\<close>; \<open>None\<close> stands for any of its errors.\<close>

definition SplitHostPort :: "string \<Rightarrow> (string \<times> string) option" where
  "SplitHostPort hostport =
     (let i = LastIndexByte hostport (CHR '':'') in
      if i < 0 then None
      else if hostport ! 0 = CHR ''['' then
        (let end = IndexByte hostport (CHR '']'') in
         if end < 0 \<or> end + 1 \<noteq> i then None
         else if CHR ''['' \<in> set (drop 1 hostport) \<or> CHR '']'' \<in> set (drop (nat (end + 1)) hostport) then None
         else Some (take (nat (end - 1)) (drop 1 hostport), drop (nat (i + 1)) hostport))
      else if CHR '':'' \<in> set (take (nat i) hostport) then None
      else if CHR ''['' \<in> set hostport \<or> CHR '']'' \<in> set hostport then None
      else Some (take (nat i) hostport, drop (nat (i + 1)) hostport))"

subsection \<open>IP addresses\<close>

type_synonym IP = bytes

definition nil_IP :: IP where
  "nil_IP = []"

definition dec_digit :: "char \<Rightarrow> bool" where
  "dec_digit c \<longleftrightarrow> 48 \<le> (of_char c :: nat) \<and> (of_char c :: nat) \<le> 57"

definition dec_value :: "string \<Rightarrow> nat" where
  "dec_value s = foldl (\<lambda>n c. n * 10 + (of_char c - 48)) 0 s"

text \<open>One field of a dotted address: digits only, no leading zero, at most 255.\<close>

definition parse_octet :: "string \<Rightarrow> char option" where
  "parse_octet s =
     (if s = [] \<or> \<not> list_all dec_digit s \<or> (hd s = CHR ''0'' \<and> 1 < length s) \<or> 255 < dec_value s
      then None else Some (char_of (dec_value s)))"

definition parseIPv4Fields :: "string \<Rightarrow> bytes option" where
  "parseIPv4Fields s = (let fs = map parse_octet (Split s (CHR ''.''))
     in if length fs = 4 \<and> None \<notin> set fs then Some (map the fs) else None)"

definition v4_in_v6 :: bytes where
  "v4_in_v6 = replicate 10 (CHR 0x00) @ [CHR 0xFF, CHR 0xFF]"

text \<open>Hexadecimal digits of either case.\<close>

definition hex_nibble :: "char \<Rightarrow> nat option" where
  "hex_nibble c = (let n = of_char c in
     if 65 \<le> n \<and> n \<le> 70 then Some (n - 55) else hex_value c)"

definition hex_group :: "string \<Rightarrow> nat" where
  "hex_group s = foldl (\<lambda>n c. n * 16 + the (hex_nibble c)) 0 s"

text \<open>The loop of \<^verbatim>\<open>parseIPv6\<close>: \<open>ip\<close> holds the bytes read, \<open>ell\<close> where the ellipsis was seen. The
  result is what is left of the text, the bytes and the ellipsis.\<close>

function parse6 :: "string \<Rightarrow> bytes \<Rightarrow> nat option \<Rightarrow> (string \<times> bytes \<times> nat option) option" where
  "parse6 s ip ell =
     (if 16 \<le> length ip then Some (s, ip, ell)
      else
        (let g = takeWhile (\<lambda>c. hex_nibble c \<noteq> None) s; rest = drop (length g) s in
         if g = [] \<or> 4 < length g then None
         else if rest \<noteq> [] \<and> hd rest = CHR ''.'' then
           (if (ell = None \<and> length ip \<noteq> 12) \<or> 16 < length ip + 4 then None
            else map_option (\<lambda>f. ([], ip @ f, ell)) (parseIPv4Fields s))
         else
           (let ip' = ip @ [char_of (hex_group g div 256), char_of (hex_group g mod 256)] in
            if rest = [] then Some ([], ip', ell)
            else if hd rest \<noteq> CHR '':'' \<or> length rest = 1 then None
            else if rest ! 1 = CHR '':'' then
              (if ell \<noteq> None then None
               else if length rest = 2 then Some ([], ip', Some (length ip'))
               else parse6 (drop 2 rest) ip' (Some (length ip')))
            else parse6 (drop 1 rest) ip' ell)))"
  by pat_completeness auto
termination
  by (relation "measure (\<lambda>(s, ip, ell). 16 - length ip)") auto

declare parse6.simps [simp del]

definition parseIPv6 :: "string \<Rightarrow> bytes option" where
  "parseIPv6 s =
     (if CHR ''%'' \<in> set s then None
      else if s = ''::'' then Some (replicate 16 (CHR 0x00))
      else
        (case (if take 2 s = ''::'' then parse6 (drop 2 s) [] (Some 0) else parse6 s [] None) of
           None \<Rightarrow> None
         | Some (rest, ip, ell) \<Rightarrow>
             if rest \<noteq> [] then None
             else (case ell of
                 None \<Rightarrow> (if length ip < 16 then None else Some ip)
               | Some e \<Rightarrow> (if 16 \<le> length ip then None
                   else Some (take e ip @ replicate (16 - length ip) (CHR 0x00) @ drop e ip)))))"

definition ParseIP :: "string \<Rightarrow> IP" where
  "ParseIP s =
     (case dropWhile (\<lambda>c. c \<notin> {CHR ''.'', CHR '':'', CHR ''%''}) s of
        [] \<Rightarrow> nil_IP
      | c # _ \<Rightarrow>
          (if c = CHR ''.'' then (case parseIPv4Fields s of Some f \<Rightarrow> v4_in_v6 @ f | None \<Rightarrow> nil_IP)
           else if c = CHR '':'' then (case parseIPv6 s of Some ip \<Rightarrow> ip | None \<Rightarrow> nil_IP)
           else nil_IP))"

definition dotted :: "bytes \<Rightarrow> string" where
  "dotted f = Join (map (\<lambda>c. dec_nat (of_char c)) f) ''.''"

definition hextets :: "bytes \<Rightarrow> nat list" where
  "hextets ip = map (\<lambda>i. of_char (ip ! (2 * i)) * 256 + of_char (ip ! (2 * i + 1))) [0..<8]"

text \<open>Hexadecimal without leading zeros.\<close>

definition appendHex :: "nat \<Rightarrow> string" where
  "appendHex n = (let ds = map hex_digit [n div 4096, n div 256 mod 16, n div 16 mod 16, n mod 16];
     t = dropWhile (\<lambda>c. c = CHR ''0'') ds in if t = [] then ''0'' else t)"

definition zero_run :: "nat list \<Rightarrow> nat \<Rightarrow> nat" where
  "zero_run hs i = length (takeWhile (\<lambda>h. h = 0) (drop i hs))"

text \<open>The first longest run of at least two zero fields: where it starts and ends.\<close>

definition longest_zeros :: "nat list \<Rightarrow> (nat \<times> nat) option" where
  "longest_zeros hs = fold (\<lambda>i best. let l = zero_run hs i in
     if 2 \<le> l \<and> (case best of None \<Rightarrow> True | Some (a, b) \<Rightarrow> b - a < l) then Some (i, i + l) else best)
     [0..<8] None"

definition IP_String :: "IP \<Rightarrow> string" where
  "IP_String ip =
     (if ip = nil_IP then ''<nil>''
      else if take 12 ip = v4_in_v6 then dotted (drop 12 ip)
      else (let hs = hextets ip; show = (\<lambda>xs. Join (map appendHex xs) '':'')
            in case longest_zeros hs of
                 None \<Rightarrow> show hs
               | Some (a, b) \<Rightarrow> show (take a hs) @ ''::'' @ show (drop b hs)))"

subsection \<open>Lemmas\<close>

lemma takeWhile_stop: "c \<notin> set s \<Longrightarrow> takeWhile (\<lambda>x. x \<noteq> c) (s @ c # t) = s"
  by (induction s) auto

lemma LastIndexByte_last: "c \<notin> set t \<Longrightarrow> LastIndexByte (s @ c # t) c = int (length s)"
  using takeWhile_stop [of c "rev t" "rev s"] by (simp add: LastIndexByte_def)

lemma IndexByte_first: "c \<notin> set s \<Longrightarrow> IndexByte (s @ c # t) c = int (length s)"
  using takeWhile_stop [of c s t] by (simp add: IndexByte_def)

lemma SplitHostPort_plain:
  assumes "set h \<inter> {CHR '':'', CHR ''['', CHR '']''} = {}" "set p \<inter> {CHR '':'', CHR ''['', CHR '']''} = {}"
  shows "SplitHostPort (h @ CHR '':'' # p) = Some (h, p)"
proof -
  have "(h @ CHR '':'' # p) ! 0 \<noteq> CHR ''[''" using assms(1) by (cases h) auto
  moreover have "LastIndexByte (h @ CHR '':'' # p) CHR '':'' = int (length h)"
    using assms(2) by (intro LastIndexByte_last) auto
  ultimately show ?thesis using assms by (auto simp: SplitHostPort_def Let_def nat_add_distrib)
qed

lemma SplitHostPort_brackets:
  assumes "set h \<inter> {CHR ''['', CHR '']''} = {}" "set p \<inter> {CHR '':'', CHR ''['', CHR '']''} = {}"
  shows "SplitHostPort (CHR ''['' # h @ CHR '']'' # CHR '':'' # p) = Some (h, p)"
proof -
  have i: "LastIndexByte ((CHR ''['' # h @ [CHR '']'']) @ CHR '':'' # p) CHR '':'' = int (length h + 2)"
    using LastIndexByte_last [of "CHR '':''" p "CHR ''['' # h @ [CHR '']'']"] assms(2) by simp
  have e: "IndexByte ((CHR ''['' # h) @ CHR '']'' # CHR '':'' # p) CHR '']'' = int (length h + 1)"
    using IndexByte_first [of "CHR '']''" "CHR ''['' # h" "CHR '':'' # p"] assms(1) by simp
  show ?thesis using i e assms by (auto simp: SplitHostPort_def Let_def nat_add_distrib numeral_3_eq_3)
qed

lemma dotted_not_nil: "length f = 4 \<Longrightarrow> dotted f \<noteq> []"
  by (auto simp: dotted_def length_Suc_conv numeral_eq_Suc)

text \<open>An address with a netmask is not an address.\<close>

lemma split_on_mem: "x \<in> set s \<Longrightarrow> x \<noteq> c \<Longrightarrow> \<exists>p \<in> set (split_on c acc s). x \<in> set p"
proof (induction s arbitrary: acc)
  case (Cons y s)
  have "z \<in> set acc \<Longrightarrow> \<exists>p \<in> set (split_on c acc s). z \<in> set p" for z acc s
    by (induction s arbitrary: acc) auto
  then show ?case using Cons by (cases "x = y") auto
qed simp

lemma parseIPv4Fields_slash:
  assumes "CHR ''/'' \<in> set s"
  shows "parseIPv4Fields s = None"
proof -
  obtain p where p: "p \<in> set (Split s (CHR ''.''))" "CHR ''/'' \<in> set p"
    using split_on_mem [OF assms, of "CHR ''.''" "[]"] by (auto simp: Split_def)
  have "\<not> dec_digit CHR ''/''" by (simp add: dec_digit_def)
  then have "parse_octet p = None" using p(2) by (auto simp: parse_octet_def list_all_iff)
  then have "None \<in> set (map parse_octet (Split s (CHR ''.'')))"
    using p(1) by (metis image_eqI set_map)
  then show ?thesis by (simp add: parseIPv4Fields_def Let_def del: set_map)
qed

lemma takeWhile_drop_slash:
  "x \<in> set s \<Longrightarrow> \<not> P x \<Longrightarrow> x \<in> set (drop (length (takeWhile P s)) s)"
  by (metis UnE dropWhile_eq_drop set_append set_takeWhileD takeWhile_dropWhile_id)

lemma parse6_slash: "CHR ''/'' \<in> set s \<Longrightarrow> parse6 s ip ell = Some (r, ip', ell') \<Longrightarrow> r \<noteq> []"
proof (induction "16 - length ip" arbitrary: s ip ell rule: less_induct)
  case less
  define g where "g = takeWhile (\<lambda>c. hex_nibble c \<noteq> None) s"
  define rest where "rest = drop (length g) s"
  define ip1 where "ip1 = ip @ [char_of (hex_group g div 256), char_of (hex_group g mod 256)]"
  have "hex_nibble CHR ''/'' = None" by (simp add: hex_nibble_def hex_value_def)
  then have rest: "CHR ''/'' \<in> set rest"
    using takeWhile_drop_slash [of "CHR ''/''" s "\<lambda>c. hex_nibble c \<noteq> None"] less.prems(1)
    by (simp add: rest_def g_def)
  show ?case
  proof (cases "16 \<le> length ip")
    case True
    then show ?thesis using less.prems by (auto simp: parse6.simps [of s ip ell])
  next
    case False
    then have len: "16 - length ip1 < 16 - length ip" by (simp add: ip1_def)
    have step: "hd rest = CHR '':'' \<and> (rest ! 1 = CHR '':'' \<and> parse6 (drop 2 rest) ip1 (Some (length ip1)) = Some (r, ip', ell')
        \<or> parse6 (drop 1 rest) ip1 ell = Some (r, ip', ell')) \<or> rest = [] \<or> length rest = 2 \<and> rest ! 1 = CHR '':'' \<and> hd rest = CHR '':''"
      using False parseIPv4Fields_slash [OF less.prems(1)]
        less.prems(2) [unfolded parse6.simps [of s ip ell] Let_def, folded g_def, folded rest_def ip1_def]
      by (auto split: if_splits)
    have "CHR ''/'' \<in> set (drop 1 rest)" if "hd rest = CHR '':''"
      using that rest by (cases rest) auto
    moreover have "CHR ''/'' \<in> set (drop 2 rest)" if "hd rest = CHR '':''" "rest ! 1 = CHR '':''"
      using that rest by (cases rest; cases "tl rest") (auto simp: numeral_2_eq_2)
    ultimately show ?thesis using step rest less.hyps [OF len] by fastforce
  qed
qed

lemma ParseIP_slash: "CHR ''/'' \<in> set s \<Longrightarrow> ParseIP s = nil_IP"
proof -
  assume s: "CHR ''/'' \<in> set s"
  have "CHR ''/'' \<in> set (drop 2 s)" if "take 2 s = ''::''"
    using that s by (cases s; cases "tl s") (auto simp: numeral_2_eq_2)
  then have "parseIPv6 s = None"
    using s parse6_slash [of s "[]" None] parse6_slash [of "drop 2 s" "[]" "Some 0"]
    by (auto simp: parseIPv6_def split: option.splits prod.splits)
  then show ?thesis using s by (auto simp: ParseIP_def parseIPv4Fields_slash split: list.split)
qed

text \<open>IPv4 addresses survive printing and reading.\<close>

lemma of_char_digit [byte_simps]: "k < 10 \<Longrightarrow> of_char (char_of (48 + k) :: char) = (48 + k :: nat)"
  by simp

lemma char_digit_eq: "k < 10 \<Longrightarrow> char_of (48 + k) = c \<longleftrightarrow> of_char c = (48 + k :: nat)"
  by (metis char_of_char of_char_digit)

lemma dec_nat_digit: "c \<in> set (dec_nat n) \<Longrightarrow> dec_digit c"
proof (induction n rule: dec_nat.induct)
  case (1 n)
  have dig: "dec_digit (char_of (48 + k))" if "k < 10" for k :: nat
    using that by (simp add: dec_digit_def)
  show ?case
  proof (cases "n < 10")
    case True
    then show ?thesis using 1 dig [of n] by (simp add: dec_nat.simps [of n])
  next
    case False
    then have "c \<in> set (dec_nat (n div 10)) \<or> c = char_of (48 + n mod 10)"
      using 1(2) by (auto simp: dec_nat.simps [of n])
    then show ?thesis using 1(1) [OF False] dig [of "n mod 10"] by auto
  qed
qed

definition digits :: "nat list \<Rightarrow> string" where
  "digits ds = map (\<lambda>k. char_of (48 + k)) ds"

lemma dec_value_digits:
  assumes "\<forall>k \<in> set ds. k < 10"
  shows "dec_value (digits ds) = foldl (\<lambda>n k. n * 10 + k) 0 ds"
proof -
  have "foldl (\<lambda>n c. n * 10 + (of_char c - 48)) a (digits ds) = foldl (\<lambda>n k. n * 10 + k) a ds" for a :: nat
    using assms by (induction ds arbitrary: a) (simp_all add: digits_def)
  then show ?thesis by (simp add: dec_value_def)
qed

lemma parse_octet_digits:
  assumes "\<forall>k \<in> set ds. k < 10" "ds \<noteq> []" "hd ds \<noteq> 0 \<or> length ds = 1" "foldl (\<lambda>n k. n * 10 + k) 0 ds = n" "n < 256"
  shows "parse_octet (digits ds) = Some (char_of n)" "list_all dec_digit (digits ds)"
proof -
  show digit: "list_all dec_digit (digits ds)"
    using assms(1) by (auto simp: digits_def list_all_iff dec_digit_def)
  have "hd (digits ds) = CHR ''0'' \<longleftrightarrow> hd ds = 0"
    using assms(1,2) by (cases ds) (simp_all add: digits_def char_digit_eq)
  then show "parse_octet (digits ds) = Some (char_of n)"
    using assms digit dec_value_digits [OF assms(1)] by (auto simp: parse_octet_def digits_def)
qed

lemma octet_nat:
  assumes "n < 256"
  shows "parse_octet (dec_nat n) = Some (char_of n)" "list_all dec_digit (dec_nat n)"
proof -
  consider "n < 10" | "10 \<le> n" "n < 100" | "100 \<le> n" by linarith
  then have "parse_octet (dec_nat n) = Some (char_of n) \<and> list_all dec_digit (dec_nat n)"
  proof cases
    case 1
    then have "dec_nat n = digits [n]" by (simp add: dec_nat.simps [of n] digits_def)
    then show ?thesis using parse_octet_digits [of "[n]" n] 1 by simp
  next
    case 2
    then have "n div 10 < 10" "n div 10 \<noteq> 0" by auto
    moreover from this 2 have "dec_nat n = digits [n div 10, n mod 10]"
      by (simp add: dec_nat.simps [of n] dec_nat.simps [of "n div 10"] digits_def)
    ultimately show ?thesis using parse_octet_digits [of "[n div 10, n mod 10]" n] 2 by simp
  next
    case 3
    have ineqs: "\<not> n < 10" "\<not> n div 10 < 10" "n div 10 div 10 < 10" "n div 10 div 10 \<noteq> 0"
      using 3 assms by auto
    then have "dec_nat n = digits [n div 10 div 10, n div 10 mod 10, n mod 10]"
      by (simp add: dec_nat.simps [of n] dec_nat.simps [of "n div 10"] dec_nat.simps [of "n div 10 div 10"] digits_def
          del: div_mult2_eq)
    moreover have "(n div 10 div 10 * 10 + n div 10 mod 10) * 10 + n mod 10 = n" by presburger
    ultimately show ?thesis
      using parse_octet_digits [of "[n div 10 div 10, n div 10 mod 10, n mod 10]" n] ineqs assms by simp
  qed
  then show "parse_octet (dec_nat n) = Some (char_of n)" "list_all dec_digit (dec_nat n)" by auto
qed

lemma octet:
  "parse_octet (dec_nat (of_char c)) = Some c" "CHR ''.'' \<notin> set (dec_nat (of_char c))"
  "CHR '':'' \<notin> set (dec_nat (of_char c))" "CHR ''%'' \<notin> set (dec_nat (of_char c))"
proof -
  have n: "(of_char c :: nat) < 256" by simp
  show "parse_octet (dec_nat (of_char c)) = Some c" using octet_nat(1) [OF n] by simp
  have "\<not> dec_digit CHR ''.''" "\<not> dec_digit CHR '':''" "\<not> dec_digit CHR ''%''"
    by (simp_all add: dec_digit_def)
  then show "CHR ''.'' \<notin> set (dec_nat (of_char c))"
    "CHR '':'' \<notin> set (dec_nat (of_char c))" "CHR ''%'' \<notin> set (dec_nat (of_char c))"
    using octet_nat(2) [OF n] by (auto simp: list_all_iff)
qed

lemma split_on_no: "c \<notin> set s \<Longrightarrow> split_on c acc s = [acc @ s]"
  by (induction s arbitrary: acc) auto

lemma split_on_sep: "c \<notin> set s \<Longrightarrow> split_on c acc (s @ c # t) = (acc @ s) # split_on c [] t"
  by (induction s arbitrary: acc) auto

lemma ParseIP_dotted: "ParseIP (dotted [a, b, c, d]) = v4_in_v6 @ [a, b, c, d]"
proof -
  have eq: "dotted [a, b, c, d] = dec_nat (of_char a) @ CHR ''.'' # dec_nat (of_char b) @ CHR ''.''
    # dec_nat (of_char c) @ CHR ''.'' # dec_nat (of_char d)"
    by (simp add: dotted_def)
  have "parseIPv4Fields (dotted [a, b, c, d]) = Some [a, b, c, d]"
    unfolding eq by (simp add: parseIPv4Fields_def Split_def split_on_sep split_on_no octet)
  moreover have "\<exists>t. dropWhile (\<lambda>c. c \<notin> {CHR ''.'', CHR '':'', CHR ''%''}) (dotted [a, b, c, d]) = CHR ''.'' # t"
    unfolding eq using octet(2-4) [of a] by (subst dropWhile_append2) auto
  ultimately show ?thesis by (auto simp: ParseIP_def)
qed

lemma IP_String_v4: "IP_String (v4_in_v6 @ f) = dotted f"
  by (simp add: IP_String_def v4_in_v6_def nil_IP_def)

lemma IP_String_ParseIP_dotted [simp]: "IP_String (ParseIP (dotted [a, b, c, d])) = dotted [a, b, c, d]"
  by (simp add: ParseIP_dotted IP_String_v4)

lemma IP_String_nil [simp]: "IP_String nil_IP = ''<nil>''"
  by (simp add: IP_String_def)

end
