(* ===== verification/Zttp_Rbac.thy ===== *)
theory Zttp_Rbac
  imports Zttp_Database Zttp_Net
begin

text \<open>
  The policy engine, \<^verbatim>\<open>internal/rbac/rbac.go\<close>: which servers a user may reach. The statement of
  \<^verbatim>\<open>Authorize\<close> is evaluated as written, with the three-valued logic of SQL: a condition is
  \<open>None\<close> when it is NULL.
\<close>

subsection \<open>Three-valued conditions\<close>

fun sql_or :: "bool option \<Rightarrow> bool option \<Rightarrow> bool option" where
  "sql_or (Some True) y = Some True"
| "sql_or x (Some True) = Some True"
| "sql_or (Some False) (Some False) = Some False"
| "sql_or _ _ = None"

fun sql_and :: "bool option \<Rightarrow> bool option \<Rightarrow> bool option" where
  "sql_and (Some False) y = Some False"
| "sql_and x (Some False) = Some False"
| "sql_and (Some True) (Some True) = Some True"
| "sql_and _ _ = None"

definition coalesce :: "bool option \<Rightarrow> bool \<Rightarrow> bool" where
  "coalesce x b = (case x of Some y \<Rightarrow> y | None \<Rightarrow> b)"

text \<open>A \<^verbatim>\<open>WHERE\<close> clause keeps a row only when its condition is true.\<close>

definition sql_true :: "bool option \<Rightarrow> bool" where
  "sql_true x \<longleftrightarrow> x = Some True"

text \<open>\<^verbatim>\<open>s.environment = ANY(p.allowed_environments)\<close> for the policy of an outer join.\<close>

definition env_any :: "server_row \<Rightarrow> policy_row option \<Rightarrow> bool option" where
  "env_any s p = map_option (\<lambda>p. s_environment s \<in> set (p_envs p)) p"

text \<open>\<^verbatim>\<open>LEFT JOIN\<close>: the matching rows, or one NULL row.\<close>

definition left_join :: "('b \<Rightarrow> bool) \<Rightarrow> 'b list \<Rightarrow> 'b option list" where
  "left_join P ys = (case filter P ys of [] \<Rightarrow> [None] | zs \<Rightarrow> map Some zs)"

subsection \<open>Model\<close>

datatype rbac_error = ErrUnknownHost | ErrPermissionDenied | RbacQuery sql_error

record AuthorizedAccess =
  aa_ServerID :: uuid
  aa_Hostname :: string
  aa_PrivateIP :: IP
  aa_Environment :: string
  aa_SSHUser :: string
  aa_VaultPath :: string
  aa_AllowedCmds :: "string list option" \<comment> \<open>\<open>None\<close> is the nil slice\<close>

text \<open>The row that the statement selects: the server, the commands of the policy,
  \<^verbatim>\<open>policy_found\<close> and \<^verbatim>\<open>is_authorized\<close>.\<close>

definition authorize_rows :: "db \<Rightarrow> string \<Rightarrow> string \<Rightarrow> uuid \<Rightarrow> (server_row \<times> string list option \<times> bool \<times> bool) list" where
  "authorize_rows d role targetHostname userID =
     [(s, Option.bind p p_cmds, p \<noteq> None,
       coalesce (sql_or (Some (\<exists>g \<in> set (grants d). g = (userID, s_id s)))
         (sql_and (Some (u_override u = False)) (env_any s p))) False).
      s \<leftarrow> servers d, u \<leftarrow> users d, p \<leftarrow> left_join (\<lambda>p. p_role p = role) (policies d),
      s_hostname s = targetHostname \<and> u_id u = userID]"

definition select_access :: "string \<Rightarrow> string \<Rightarrow> uuid \<Rightarrow> (server_row \<times> string list option \<times> bool \<times> bool) sql" where
  "select_access role targetHostname userID = query (\<lambda>d.
     case authorize_rows d role targetHostname userID of [] \<Rightarrow> Inl ErrNoRows | r # _ \<Rightarrow> Inr r)"

definition Authorize :: "uuid \<Rightarrow> string \<Rightarrow> string \<Rightarrow> db \<Rightarrow> (rbac_error + AuthorizedAccess) \<times> db" where
  "Authorize userID role targetHostname d =
     (case select_access role targetHostname userID d of
        (Inl ErrNoRows, d1) \<Rightarrow> (Inl ErrUnknownHost, d1)
      | (Inl e, d1) \<Rightarrow> (Inl (RbacQuery e), d1)
      | (Inr (s, allowedCmds, policyFound, isAuthorized), d1) \<Rightarrow>
          (if \<not> policyFound \<and> \<not> isAuthorized then (Inl ErrPermissionDenied, d1)
           else if \<not> isAuthorized then (Inl ErrPermissionDenied, d1)
           else (Inr \<lparr>aa_ServerID = s_id s, aa_Hostname = s_hostname s,
                      aa_PrivateIP = ParseIP (pg_host (s_private_ip s)), aa_Environment = s_environment s,
                      aa_SSHUser = s_ssh_user s, aa_VaultPath = s_vault_path s,
                      aa_AllowedCmds = allowedCmds\<rparr>, d1)))"

subsection \<open>Specification\<close>

text \<open>Who may reach a server: a direct grant, or the role's policy unless it is overridden.\<close>

definition may_access :: "db \<Rightarrow> uuid \<Rightarrow> string \<Rightarrow> server_row \<Rightarrow> bool" where
  "may_access d userID role s \<longleftrightarrow>
     (userID, s_id s) \<in> set (grants d)
     \<or> (\<exists>u \<in> set (users d). u_id u = userID \<and> \<not> u_override u)
       \<and> (\<exists>p \<in> set (policies d). p_role p = role \<and> s_environment s \<in> set (p_envs p))"

definition policy_cmds :: "db \<Rightarrow> string \<Rightarrow> string list option" where
  "policy_cmds d role = Option.bind (find (\<lambda>p. p_role p = role) (policies d)) p_cmds"

subsection \<open>Lemmas\<close>

lemma left_join_unique:
  "distinct (map f xs) \<Longrightarrow> left_join (\<lambda>y. f y = k) xs = [find (\<lambda>y. f y = k) xs]"
proof (cases "find (\<lambda>y. f y = k) xs")
  case None
  then have "filter (\<lambda>y. f y = k) xs = []" by (auto simp: find_None_iff filter_empty_conv)
  then show ?thesis using None by (simp add: left_join_def)
next
  case (Some x)
  then have x: "x \<in> set xs" "f x = k" by (auto simp: find_Some_iff)
  assume "distinct (map f xs)"
  then show ?thesis using filter_unique [of f xs x] x Some by (simp add: left_join_def)
qed

text \<open>A comprehension over the cross product of two keyed tables selects at most one pair.\<close>

lemma concat_map_filter: "concat (map (\<lambda>x. if P x then g x else []) xs) = concat (map g (filter P xs))"
  by (induction xs) auto

lemma concat_map_filter_conj:
  "concat (map (\<lambda>y. if P \<and> Q y then [h y] else []) ys) = (if P then map h (filter Q ys) else [])"
  by (induction ys) auto

lemma authorize_rows_found:
  fixes role :: string
  assumes ok: "schema_ok d" and s: "s \<in> set (servers d)" and u: "u \<in> set (users d)"
  defines "p \<equiv> find (\<lambda>p. p_role p = role) (policies d)"
  shows "authorize_rows d role (s_hostname s) (u_id u) =
    [(s, Option.bind p p_cmds, p \<noteq> None,
      coalesce (sql_or (Some ((u_id u, s_id s) \<in> set (grants d)))
        (sql_and (Some (\<not> u_override u)) (env_any s p))) False)]"
proof -
  have lj: "left_join (\<lambda>p. p_role p = role) (policies d) = [p]"
    unfolding p_def by (rule left_join_unique) (use ok in \<open>simp add: schema_ok_def\<close>)
  have fs: "filter (\<lambda>x. s_hostname x = s_hostname s) (servers d) = [s]"
    by (rule filter_unique) (use ok s in \<open>simp_all add: schema_ok_def\<close>)
  have fu: "filter (\<lambda>x. u_id x = u_id u) (users d) = [u]"
    by (rule filter_unique) (use ok u in \<open>simp_all add: schema_ok_def\<close>)
  let ?row = "\<lambda>x y. (x, Option.bind p p_cmds, p \<noteq> None,
    coalesce (sql_or (Some (\<exists>g \<in> set (grants d). g = (u_id u, s_id x)))
      (sql_and (Some (u_override y = False)) (env_any x p))) False)"
  have "authorize_rows d role (s_hostname s) (u_id u) =
    concat (map (\<lambda>x. concat (map (\<lambda>y. if s_hostname x = s_hostname s \<and> u_id y = u_id u then [?row x y] else [])
      (users d))) (servers d))"
    by (simp add: authorize_rows_def lj)
  also have "\<dots> = concat (map (\<lambda>x. if s_hostname x = s_hostname s then map (?row x) (filter (\<lambda>y. u_id y = u_id u) (users d)) else []) (servers d))"
    by (simp only: concat_map_filter_conj)
  also have "\<dots> = [?row s u]"
    by (simp add: concat_map_filter fs fu)
  finally show ?thesis by auto
qed

lemma authorize_rows_none:
  "targetHostname \<notin> s_hostname ` set (servers d) \<or> userID \<notin> u_id ` set (users d) \<Longrightarrow>
   authorize_rows d role targetHostname userID = []"
  by (force simp: authorize_rows_def)

lemma is_authorized_iff:
  assumes "schema_ok d" "u \<in> set (users d)"
  shows "coalesce (sql_or (Some ((u_id u, s_id s) \<in> set (grants d)))
      (sql_and (Some (\<not> u_override u)) (env_any s (find (\<lambda>p. p_role p = role) (policies d))))) False
    \<longleftrightarrow> may_access d (u_id u) role s"
proof -
  have u: "(\<exists>v \<in> set (users d). u_id v = u_id u \<and> \<not> u_override v) \<longleftrightarrow> \<not> u_override u"
    using assms distinct_key_unique [of u_id "users d"] by (metis schema_ok_def)
  have p: "(\<exists>p \<in> set (policies d). p_role p = role \<and> s_environment s \<in> set (p_envs p)) \<longleftrightarrow>
    env_any s (find (\<lambda>p. p_role p = role) (policies d)) = Some True"
  proof (cases "find (\<lambda>p. p_role p = role) (policies d)")
    case None
    then have "\<not> (\<exists>p \<in> set (policies d). p_role p = role)" by (auto simp: find_None_iff)
    then show ?thesis using None by (auto simp: env_any_def)
  next
    case (Some p)
    then have "p \<in> set (policies d)" "p_role p = role" by (auto simp: find_Some_iff)
    then show ?thesis using Some assms(1) distinct_key_unique [of p_role "policies d"]
      by (auto simp: env_any_def schema_ok_def)
  qed
  have "coalesce (sql_or (Some a) (sql_and (Some b) x)) False \<longleftrightarrow> a \<or> b \<and> x = Some True" for a b x
    by (cases a; cases b; cases x; cases "x = Some True") (auto simp: coalesce_def)
  then show ?thesis unfolding may_access_def u p by simp
qed

definition access_of :: "db \<Rightarrow> string \<Rightarrow> server_row \<Rightarrow> AuthorizedAccess" where
  "access_of d role s = \<lparr>aa_ServerID = s_id s, aa_Hostname = s_hostname s,
     aa_PrivateIP = ParseIP (pg_host (s_private_ip s)), aa_Environment = s_environment s,
     aa_SSHUser = s_ssh_user s, aa_VaultPath = s_vault_path s, aa_AllowedCmds = policy_cmds d role\<rparr>"

lemma Authorize_known:
  assumes "schema_ok d" "outages d = []" "s \<in> set (servers d)" "u \<in> set (users d)"
  shows "Authorize (u_id u) role (s_hostname s) d =
    (if may_access d (u_id u) role s then Inr (access_of d role s) else Inl ErrPermissionDenied, d)"
  using authorize_rows_found [OF assms(1,3,4), of role] is_authorized_iff [OF assms(1,4), of s role] assms(2)
  by (simp add: Authorize_def select_access_def query_up access_of_def policy_cmds_def)

lemma Authorize_unknown:
  assumes "outages d = []" "targetHostname \<notin> s_hostname ` set (servers d) \<or> userID \<notin> u_id ` set (users d)"
  shows "Authorize userID role targetHostname d = (Inl ErrUnknownHost, d)"
  using authorize_rows_none [OF assms(2)] assms(1) by (simp add: Authorize_def select_access_def query_up)

lemma Authorize_Inr:
  assumes "Authorize userID role targetHostname d = (Inr acc, d')" "schema_ok d"
  shows "\<exists>s \<in> set (servers d). s_hostname s = targetHostname \<and> userID \<in> u_id ` set (users d)
    \<and> may_access d userID role s \<and> acc = access_of d role s"
proof -
  obtain r where "select_access role targetHostname userID d = (Inr r, d')"
    using assms(1) by (auto simp: Authorize_def split: prod.splits sum.splits sql_error.splits if_splits)
  note sel = this
  have rows: "authorize_rows (d\<lparr>outages := ys\<rparr>) role targetHostname userID = authorize_rows d role targetHostname userID" for ys
    by (simp add: authorize_rows_def cong: if_cong)
  obtain rs where up: "authorize_rows d role targetHostname userID = r # rs"
    using query_Inr [OF sel [unfolded select_access_def]]
    by (cases "authorize_rows d role targetHostname userID") (auto simp: rows)
  have "targetHostname \<in> s_hostname ` set (servers d) \<and> userID \<in> u_id ` set (users d)"
    using up authorize_rows_none [of targetHostname d userID role] by (metis list.distinct(1))
  then obtain s u where su: "s \<in> set (servers d)" "s_hostname s = targetHostname" "u \<in> set (users d)" "u_id u = userID"
    by auto
  have "r = (s, policy_cmds d role, find (\<lambda>p. p_role p = role) (policies d) \<noteq> None, may_access d (u_id u) role s)"
    using up authorize_rows_found [OF assms(2) su(1,3), of role] is_authorized_iff [OF assms(2) su(3), of s role] su
    by (simp add: policy_cmds_def)
  then show ?thesis using assms(1) sel su
    by (auto simp: Authorize_def access_of_def split: if_splits)
qed

subsection \<open>Properties\<close>

definition demo_rbac :: db where
  "demo_rbac = \<lparr>
     users = [\<lparr>u_id = 1, u_username = ''jdoe'', u_password_hash = ''h'', u_role = ''sre-tier1'',
               u_failed_attempts = 0, u_locked_until = None, u_override = False\<rparr>],
     servers = [\<lparr>s_id = 7, s_hostname = ''dev-01'', s_private_ip = Inet ''10.0.0.7'' 32,
                 s_vault_path = ''secret/data/ssh/dev-01'', s_ssh_user = ''ubuntu'', s_environment = ''dev''\<rparr>,
                \<lparr>s_id = 8, s_hostname = ''prod-01'', s_private_ip = Inet ''10.0.0.8'' 32,
                 s_vault_path = ''secret/data/ssh/prod-01'', s_ssh_user = ''root'', s_environment = ''prod''\<rparr>],
     policies = [\<lparr>p_role = ''sre-tier1'', p_envs = [''dev''], p_cmds = Some [''ls'']\<rparr>],
     grants = [], sessions = [], outages = []\<rparr>"

lemma demo_rbac_ok: "schema_ok demo_rbac" "outages demo_rbac = []"
  by (simp_all add: demo_rbac_def schema_ok_def)

text \<open>C11. The second gate decides exactly the access policy: with the database up, access is granted
  iff the host and the user exist and the user has a direct grant or an unoverridden role whose
  policy lists the environment; a known host without a right is denied, everything else is an
  unknown host, and what is granted is that server's address, key path and the role's command
  whitelist.\<close>

theorem Authorize_exact:
  assumes "schema_ok d" "outages d = []"
  shows "Authorize userID role targetHostname d =
    (case find (\<lambda>s. s_hostname s = targetHostname) (servers d) of
       Some s \<Rightarrow>
         if userID \<notin> u_id ` set (users d) then Inl ErrUnknownHost
         else if may_access d userID role s then Inr (access_of d role s)
         else Inl ErrPermissionDenied
     | None \<Rightarrow> Inl ErrUnknownHost, d)"
proof (cases "find (\<lambda>s. s_hostname s = targetHostname) (servers d)")
  case None
  then have "targetHostname \<notin> s_hostname ` set (servers d)" by (auto simp: find_None_iff)
  then show ?thesis using None Authorize_unknown [OF assms(2)] by simp
next
  case (Some s)
  then have s: "s \<in> set (servers d)" "s_hostname s = targetHostname" by (auto simp: find_Some_iff)
  show ?thesis
  proof (cases "userID \<in> u_id ` set (users d)")
    case True
    then obtain u where "u \<in> set (users d)" "u_id u = userID" by auto
    then show ?thesis using Authorize_known [OF assms s(1), of u role] Some s(2) True by auto
  next
    case False
    then show ?thesis using Authorize_unknown [OF assms(2), of targetHostname userID role] Some by simp
  qed
qed

theorem Authorize_exact_witness:
  "Authorize 1 ''sre-tier1'' ''prod-01'' demo_rbac =
    (case find (\<lambda>s. s_hostname s = ''prod-01'') (servers demo_rbac) of
       Some s \<Rightarrow>
         if 1 \<notin> u_id ` set (users demo_rbac) then Inl ErrUnknownHost
         else if may_access demo_rbac 1 ''sre-tier1'' s then Inr (access_of demo_rbac ''sre-tier1'' s)
         else Inl ErrPermissionDenied
     | None \<Rightarrow> Inl ErrUnknownHost, demo_rbac)"
  by (rule Authorize_exact [OF demo_rbac_ok])

end
