(* ===== verification/Zttp_Vault.thy ===== *)
theory Zttp_Vault
  imports Zttp_Config Zttp_Strings
begin

text \<open>
  The Vault client: \<^verbatim>\<open>internal/vault/vault.go\<close>, \<^verbatim>\<open>keyfetch.go\<close> and \<^verbatim>\<open>fingerprint.go\<close>.

  The Vault server and its API client are parameters: \<open>login\<close>, \<open>kv_get\<close> and \<open>kv_put\<close> are the
  AppRole login and the KV version 2 calls on the server state \<open>'v\<close>, each under the token the
  client has set. The SSH package is a parameter too: \<open>parse_key\<close> reads a PEM key, \<open>marshal\<close> is
  the wire form of a public key. The process heap is a list of cells, addressed by position, since
  wiping a key is a statement about memory: the string that comes back in a response is one cell
  and the byte slice made from it another.
\<close>

subsection \<open>The client and its token\<close>

record vault_client =
  vc_cfg :: Config
  vc_token :: string
  vc_api_token :: string \<comment> \<open>the token set on the API client\<close>
  vc_renews :: bool \<comment> \<open>the renewal loop was started\<close>

datatype login_response = NoAuth | Auth string

definition setToken :: "string \<Rightarrow> vault_client \<Rightarrow> vault_client" where
  "setToken token c = c\<lparr>vc_token := token, vc_api_token := token\<rparr>"

definition loginAppRole ::
  "(string \<Rightarrow> string \<Rightarrow> string + login_response) \<Rightarrow> vault_client \<Rightarrow> (string + unit) \<times> vault_client" where
  "loginAppRole login c =
     (case login (VaultRoleID (vc_cfg c)) (VaultSecretID (vc_cfg c)) of
        Inl e \<Rightarrow> (Inl (''approle login request: '' @ e), c)
      | Inr NoAuth \<Rightarrow> (Inl ''approle login returned empty auth response'', c)
      | Inr (Auth token) \<Rightarrow> (Inr (), setToken token c))"

text \<open>\<open>ready\<close> tells whether the API client can be built for the configured address.\<close>

definition vault_New ::
  "bool \<Rightarrow> (string \<Rightarrow> string \<Rightarrow> string + login_response) \<Rightarrow> Config \<Rightarrow> string + vault_client" where
  "vault_New ready login cfg =
     (let c = \<lparr>vc_cfg = cfg, vc_token = [], vc_api_token = [], vc_renews = False\<rparr> in
      if \<not> ready then Inl ''vault client init''
      else if cfg_VaultDevMode cfg \<or> VaultToken cfg \<noteq> [] then Inr (setToken (VaultToken cfg) c)
      else if VaultRoleID cfg = [] \<or> VaultSecretID cfg = [] then
        Inl ''VAULT_ROLE_ID and VAULT_SECRET_ID are required when VAULT_DEV_MODE is false''
      else (case loginAppRole login c of
              (Inl e, _) \<Rightarrow> Inl (''vault approle login: '' @ e)
            | (Inr _, c') \<Rightarrow> Inr (c'\<lparr>vc_renews := True\<rparr>)))"

text \<open>The renewal loop: one login per tick, with the answers the server gives.\<close>

fun renewLoop :: "(string + login_response) list \<Rightarrow> vault_client \<Rightarrow> vault_client" where
  "renewLoop [] c = c"
| "renewLoop (r # rs) c = renewLoop rs (snd (loginAppRole (\<lambda>_ _. r) c))"

subsection \<open>Secrets\<close>

datatype kv_value = KvString string | KvOther

type_synonym kv_data = "string \<rightharpoonup> kv_value"

type_synonym 'v kv_getter = "'v \<Rightarrow> string \<Rightarrow> string \<Rightarrow> string + kv_data option"
type_synonym 'v kv_putter = "'v \<Rightarrow> string \<Rightarrow> string \<Rightarrow> kv_data \<Rightarrow> (string + unit) \<times> 'v"

definition kv_prefix :: string where
  "kv_prefix = ''secret/data/''"

definition stripKVPrefix :: "string \<Rightarrow> string" where
  "stripKVPrefix path =
     (if length kv_prefix < length path \<and> take (length kv_prefix) path = kv_prefix
      then drop (length kv_prefix) path else path)"

definition use_token :: "vault_client \<Rightarrow> vault_client" where
  "use_token c = c\<lparr>vc_api_token := vc_token c\<rparr>"

definition PutSecret ::
  "'v kv_putter \<Rightarrow> string \<Rightarrow> string \<Rightarrow> string \<Rightarrow> vault_client \<Rightarrow> 'v \<Rightarrow> (string + unit) \<times> vault_client \<times> 'v" where
  "PutSecret kv_put vaultPath privateKey fingerprint c v =
     (let c1 = use_token c; keyName = stripKVPrefix vaultPath;
          data = [''private_key'' \<mapsto> KvString privateKey, ''fingerprint'' \<mapsto> KvString fingerprint]
      in case kv_put v (vc_api_token c1) keyName data of
           (Inl e, v') \<Rightarrow> (Inl (''vault kv put ['' @ vaultPath @ '']: '' @ e), c1, v')
         | (Inr _, v') \<Rightarrow> (Inr (), c1, v'))"

type_synonym heap = "bytes list"

record 'sg EphemeralSigner =
  es_signer :: "'sg option"
  es_rawBytes :: "nat option" \<comment> \<open>the cell of the slice; \<open>None\<close> is nil\<close>

definition zeroBytes :: "nat \<Rightarrow> heap \<Rightarrow> heap" where
  "zeroBytes a h = h[a := replicate (length (h ! a)) (CHR 0x00)]"

definition Zero :: "'sg EphemeralSigner \<Rightarrow> heap \<Rightarrow> 'sg EphemeralSigner \<times> heap" where
  "Zero e h = (case es_rawBytes e of
     None \<Rightarrow> (e, h)
   | Some a \<Rightarrow> (e\<lparr>es_rawBytes := None, es_signer := None\<rparr>, zeroBytes a h))"

datatype vault_error =
  KvGet string string | SecretEmpty string | MissingKey string | KeyNotString string
| ParseKey string string | NoFingerprint string

definition FetchPrivateKey ::
  "'v kv_getter \<Rightarrow> (bytes \<Rightarrow> string + 'sg) \<Rightarrow> string \<Rightarrow> 'v \<Rightarrow> vault_client \<Rightarrow> heap \<Rightarrow>
   (vault_error + 'sg EphemeralSigner) \<times> vault_client \<times> heap" where
  "FetchPrivateKey kv_get parse_key vaultPath v c h =
     (let c1 = use_token c; keyName = stripKVPrefix vaultPath in
      case kv_get v (vc_api_token c1) keyName of
        Inl e \<Rightarrow> (Inl (KvGet vaultPath e), c1, h)
      | Inr None \<Rightarrow> (Inl (SecretEmpty vaultPath), c1, h)
      | Inr (Some data) \<Rightarrow>
          (case data ''private_key'' of
             None \<Rightarrow> (Inl (MissingKey vaultPath), c1, h)
           | Some KvOther \<Rightarrow> (Inl (KeyNotString vaultPath), c1, h)
           | Some (KvString rawKeyStr) \<Rightarrow>
               (let h1 = h @ [rawKeyStr]; a = length h1; h2 = h1 @ [rawKeyStr]
                in case parse_key (h2 ! a) of
                     Inl e \<Rightarrow> (Inl (ParseKey vaultPath e), c1, zeroBytes a h2)
                   | Inr signer \<Rightarrow> (Inr \<lparr>es_signer = Some signer, es_rawBytes = Some a\<rparr>, c1, h2))))"

definition FetchHostFingerprint ::
  "'v kv_getter \<Rightarrow> string \<Rightarrow> 'v \<Rightarrow> vault_client \<Rightarrow> (vault_error + string) \<times> vault_client" where
  "FetchHostFingerprint kv_get vaultPath v c =
     (let c1 = use_token c; keyName = stripKVPrefix vaultPath in
      case kv_get v (vc_api_token c1) keyName of
        Inl e \<Rightarrow> (Inl (KvGet vaultPath e), c1)
      | Inr None \<Rightarrow> (Inl (SecretEmpty vaultPath), c1)
      | Inr (Some data) \<Rightarrow>
          (case data ''fingerprint'' of
             Some (KvString fp) \<Rightarrow> (if fp = [] then (Inl (NoFingerprint vaultPath), c1) else (Inr fp, c1))
           | _ \<Rightarrow> (Inl (NoFingerprint vaultPath), c1)))"

subsection \<open>Host keys\<close>

definition computeFingerprint :: "(bytes \<Rightarrow> bytes) \<Rightarrow> bytes \<Rightarrow> string" where
  "computeFingerprint sha256 marshalled = ''SHA256:'' @ b64_encode True (sha256 marshalled)"

text \<open>The callback: \<open>None\<close> accepts the key, \<open>Some\<close> is the error that aborts the handshake.\<close>

definition StrictHostKeyCallback ::
  "(bytes \<Rightarrow> bytes) \<Rightarrow> string \<Rightarrow> bool \<Rightarrow> string \<Rightarrow> bytes \<Rightarrow> string option" where
  "StrictHostKeyCallback sha256 expectedFingerprint skipVerify hostname key =
     (if skipVerify then None
      else (let actual = computeFingerprint sha256 key in
        if actual \<noteq> expectedFingerprint then
          Some (''MITM DETECTED: host key fingerprint mismatch for '' @ hostname @ '' expected '' @ expectedFingerprint
            @ '', got '' @ actual)
        else None))"

text \<open>The standard form of OpenSSH and of \<^verbatim>\<open>ssh.FingerprintSHA256\<close>: base64 without padding.\<close>

definition openssh_fingerprint :: "(bytes \<Rightarrow> bytes) \<Rightarrow> bytes \<Rightarrow> string" where
  "openssh_fingerprint sha256 key = ''SHA256:'' @ b64_encode False (sha256 key)"

subsection \<open>What the KV engine documents\<close>

text \<open>A read under the token of a successful write returns the data written, and leaves other keys
  alone.\<close>

definition kv_law :: "'v kv_getter \<Rightarrow> 'v kv_putter \<Rightarrow> bool" where
  "kv_law kv_get kv_put \<longleftrightarrow> (\<forall>v t k data v'. kv_put v t k data = (Inr (), v') \<longrightarrow>
     kv_get v' t k = Inr (Some data) \<and> (\<forall>k'. k' \<noteq> k \<longrightarrow> kv_get v' t k' = kv_get v t k'))"

subsection \<open>Properties\<close>

lemma vc_api_token_use [simp]: "vc_api_token (use_token c) = vc_token c" "vc_token (use_token c) = vc_token c"
  by (simp_all add: use_token_def)

lemma stripKVPrefix_add: "p \<noteq> [] \<Longrightarrow> stripKVPrefix (kv_prefix @ p) = p"
  by (simp add: stripKVPrefix_def)

lemma zeroBytes_last: "zeroBytes (length h) (h @ [x]) = h @ [replicate (length x) (CHR 0x00)]"
  by (simp add: zeroBytes_def list_update_append nth_append)

text \<open>Keys that were provisioned come back: after \<^verbatim>\<open>PutSecret\<close> the path yields that key and that
  fingerprint, with or without the mount prefix in the path, and other paths are untouched.\<close>

theorem PutSecret_roundtrip:
  assumes "kv_law kv_get kv_put" "PutSecret kv_put (kv_prefix @ name) key fp c v = (Inr (), c', v')"
    and "parse_key key = Inr sg" "fp \<noteq> []" "name \<noteq> []" "path \<in> {kv_prefix @ name, name}"
    and "take (length kv_prefix) name \<noteq> kv_prefix"
  shows "fst (FetchHostFingerprint kv_get path v' c') = Inr fp
    \<and> fst (FetchPrivateKey kv_get parse_key path v' c' h) = Inr \<lparr>es_signer = Some sg, es_rawBytes = Some (Suc (length h))\<rparr>
    \<and> (\<forall>other. stripKVPrefix other \<noteq> name \<longrightarrow>
         fst (FetchHostFingerprint kv_get other v' c') = fst (FetchHostFingerprint kv_get other v c'))"
proof -
  let ?data = "[''private_key'' \<mapsto> KvString key, ''fingerprint'' \<mapsto> KvString fp]"
  have put: "kv_put v (vc_token c) name ?data = (Inr (), v')" and c': "vc_token c' = vc_token c"
    using assms(2,5) by (auto simp: PutSecret_def stripKVPrefix_add Let_def split: prod.splits sum.splits)
  note law = assms(1) [unfolded kv_law_def, rule_format, OF put]
  have get: "kv_get v' (vc_token c') name = Inr (Some ?data)"
    and other: "k' \<noteq> name \<Longrightarrow> kv_get v' (vc_token c') k' = kv_get v (vc_token c') k'" for k'
    using law c' by simp_all
  have "stripKVPrefix path = name"
    using assms(5-7) by (auto simp: stripKVPrefix_add) (simp add: stripKVPrefix_def)
  then show ?thesis
    using get other assms(3,4)
    by (simp add: FetchHostFingerprint_def FetchPrivateKey_def Let_def nth_append)
qed

theorem PutSecret_roundtrip_witness:
  "fst (FetchHostFingerprint (\<lambda>v t k. Inr (v k)) ''ssh/h'' ([''ssh/h'' \<mapsto> [''private_key'' \<mapsto> KvString ''PEM'', ''fingerprint'' \<mapsto> KvString ''F'']])
      \<lparr>vc_cfg = demo_config, vc_token = ''t'', vc_api_token = ''t'', vc_renews = False\<rparr>) = Inr ''F''
   \<and> fst (FetchPrivateKey (\<lambda>v t k. Inr (v k)) (\<lambda>_. Inr ()) ''ssh/h''
      ([''ssh/h'' \<mapsto> [''private_key'' \<mapsto> KvString ''PEM'', ''fingerprint'' \<mapsto> KvString ''F'']])
      \<lparr>vc_cfg = demo_config, vc_token = ''t'', vc_api_token = ''t'', vc_renews = False\<rparr> [])
      = Inr \<lparr>es_signer = Some (), es_rawBytes = Some (Suc (length ([] :: heap)))\<rparr>
   \<and> (\<forall>other. stripKVPrefix other \<noteq> ''ssh/h'' \<longrightarrow>
       fst (FetchHostFingerprint (\<lambda>v t k. Inr (v k)) other ([''ssh/h'' \<mapsto> [''private_key'' \<mapsto> KvString ''PEM'', ''fingerprint'' \<mapsto> KvString ''F'']])
         \<lparr>vc_cfg = demo_config, vc_token = ''t'', vc_api_token = ''t'', vc_renews = False\<rparr>)
       = fst (FetchHostFingerprint (\<lambda>v t k. Inr (v k)) other Map.empty
         \<lparr>vc_cfg = demo_config, vc_token = ''t'', vc_api_token = ''t'', vc_renews = False\<rparr>))"
  by (rule PutSecret_roundtrip [where kv_put = "\<lambda>v t k data. (Inr (), v(k \<mapsto> data))" and key = "''PEM''"
        and c = "\<lparr>vc_cfg = demo_config, vc_token = ''t'', vc_api_token = ''t'', vc_renews = False\<rparr>"])
    (simp_all add: kv_law_def PutSecret_def use_token_def stripKVPrefix_def kv_prefix_def Let_def)

text \<open>Key memory: the slice that the signer owns is overwritten with zeros by \<^verbatim>\<open>Zero\<close>, and on the
  path where the key does not parse before the error is returned; a second \<^verbatim>\<open>Zero\<close> does nothing.
  The response string the slice was copied from keeps the key.\<close>

theorem key_is_wiped:
  assumes "kv_get v (vc_token c) (stripKVPrefix path) = Inr (Some data)" "data ''private_key'' = Some (KvString key)"
  shows "\<exists>res c' h'. FetchPrivateKey kv_get parse_key path v c h = (res, c', h')
    \<and> (case res of
         Inl e \<Rightarrow> h' = h @ [key, replicate (length key) (CHR 0x00)]
       | Inr e \<Rightarrow> Zero e h' = (\<lparr>es_signer = None, es_rawBytes = None\<rparr>, h @ [key, replicate (length key) (CHR 0x00)])
           \<and> Zero (fst (Zero e h')) h'' = (fst (Zero e h'), h''))"
proof (cases "parse_key key")
  case (Inl e)
  then have "FetchPrivateKey kv_get parse_key path v c h =
    (Inl (ParseKey path e), use_token c, h @ [key, replicate (length key) (CHR 0x00)])"
    using assms zeroBytes_last [of "h @ [key]" key] by (simp add: FetchPrivateKey_def Let_def nth_append)
  then show ?thesis by simp
next
  case (Inr sg)
  then have "FetchPrivateKey kv_get parse_key path v c h =
    (Inr \<lparr>es_signer = Some sg, es_rawBytes = Some (Suc (length h))\<rparr>, use_token c, h @ [key, key])"
    using assms by (simp add: FetchPrivateKey_def Let_def nth_append)
  then show ?thesis using zeroBytes_last [of "h @ [key]" key] by (simp add: Zero_def)
qed

theorem key_is_wiped_witness:
  "\<exists>res c' h'. FetchPrivateKey (\<lambda>v t k. Inr (v k)) (\<lambda>_. Inr ()) ''ssh/h'' ([''ssh/h'' \<mapsto> [''private_key'' \<mapsto> KvString ''PEM'']])
      \<lparr>vc_cfg = demo_config, vc_token = ''t'', vc_api_token = ''t'', vc_renews = False\<rparr> [] = (res, c', h')
    \<and> (case res of
         Inl e \<Rightarrow> h' = [] @ [''PEM'', replicate (length ''PEM'') (CHR 0x00)]
       | Inr e \<Rightarrow> Zero e h' = (\<lparr>es_signer = None, es_rawBytes = None\<rparr>, [] @ [''PEM'', replicate (length ''PEM'') (CHR 0x00)])
           \<and> Zero (fst (Zero e h')) [] = (fst (Zero e h'), []))"
  by (rule key_is_wiped [where data = "[''private_key'' \<mapsto> KvString ''PEM'']"]) (simp_all add: stripKVPrefix_def kv_prefix_def)

text \<open>Strict checking accepts exactly the fingerprint it computes; no server can match a
  fingerprint stored in the standard OpenSSH form, whose base64 has no padding.\<close>

theorem strict_check_rejects_openssh_form:
  assumes "\<forall>x. length (sha x) = 32"
  shows "(StrictHostKeyCallback sha fp False host key = None \<longleftrightarrow> fp = computeFingerprint sha key)
    \<and> StrictHostKeyCallback sha (openssh_fingerprint sha key') False host key \<noteq> None"
proof -
  have "length (openssh_fingerprint sha key') \<noteq> length (computeFingerprint sha key)"
    using assms by (simp add: openssh_fingerprint_def computeFingerprint_def length_b64_padded length_b64_raw)
  then have "openssh_fingerprint sha key' \<noteq> computeFingerprint sha key" by metis
  then show ?thesis by (auto simp: StrictHostKeyCallback_def Let_def)
qed

theorem strict_check_rejects_openssh_form_witness:
  "(StrictHostKeyCallback (\<lambda>_. replicate 32 (CHR ''x'')) ''F'' False ''h'' ''k'' = None \<longleftrightarrow>
      ''F'' = computeFingerprint (\<lambda>_. replicate 32 (CHR ''x'')) ''k'')
   \<and> StrictHostKeyCallback (\<lambda>_. replicate 32 (CHR ''x'')) (openssh_fingerprint (\<lambda>_. replicate 32 (CHR ''x'')) ''k'') False ''h'' ''k'' \<noteq> None"
  by (rule strict_check_rejects_openssh_form) simp

text \<open>Renewal keeps the last token that was issued.\<close>

lemma renewLoop_token:
  "vc_token (renewLoop rs c) = fold (\<lambda>r t. case r of Inr (Auth t') \<Rightarrow> t' | _ \<Rightarrow> t) rs (vc_token c)"
  by (induction rs arbitrary: c)
    (auto simp: loginAppRole_def setToken_def split: sum.split login_response.split)

end
