(* ===== verification/Zttp_Commands.thy ===== *)
theory Zttp_Commands
  imports Zttp_Strings
begin

text \<open>
  The command policy of \<^verbatim>\<open>internal/rbac/commands.go\<close>: the multiplexers that are always
  refused, the optional whitelist of a role, and the two messages shown to the user.

  A command line is reduced to the base name of its first field by \<open>extractBinaryName\<close>; both
  layers look at that name only. The locale \<open>command_policy\<close> states what the stream filter
  relies on: a line with no command in it is allowed.
\<close>

subsection \<open>Model\<close>

definition BlockedMultiplexers :: "string list" where
  "BlockedMultiplexers =
     [''tmux'', ''screen'', ''nohup'', ''disown'', ''setsid'', ''byobu'', ''dtach'']"

definition extractBinaryName :: "string \<Rightarrow> string" where
  "extractBinaryName cmdLine = (case Fields (TrimSpace cmdLine) of
     [] \<Rightarrow> []
   | binary # _ \<Rightarrow>
       (let idx = LastIndexByte binary (CHR ''/'')
        in if 0 \<le> idx then drop (nat (idx + 1)) binary else binary))"

definition IsCommandAllowed :: "(rune \<Rightarrow> rune \<Rightarrow> bool) \<Rightarrow> string \<Rightarrow> string list \<Rightarrow> bool" where
  "IsCommandAllowed sf cmdLine allowedCmds =
     (let base = extractBinaryName cmdLine in
      if base = [] then True
      else if \<exists>blocked \<in> set BlockedMultiplexers. EqualFold sf base blocked then False
      else if length allowedCmds = 0 then True
      else if \<exists>allowed \<in> set allowedCmds. EqualFold sf base allowed then True
      else False)"

definition policy_tag :: string where
  "policy_tag = crlf @ [esc] @ ''[31m[ZTTP Policy]'' @ [esc] @ ''[0m Command '' @ [CHR 0x27]"

definition MultiplexerViolationMessage :: "string \<Rightarrow> string" where
  "MultiplexerViolationMessage cmd = policy_tag @ extractBinaryName cmd @ [CHR 0x27] @
     '' is prohibited. Long-running tasks must use CI/CD pipelines.'' @ crlf"

definition WhitelistViolationMessage :: "string \<Rightarrow> string" where
  "WhitelistViolationMessage cmd = policy_tag @ extractBinaryName cmd @ [CHR 0x27] @
     '' is not permitted by your access policy.'' @ crlf"

subsection \<open>The base name\<close>

definition space_byte :: "char \<Rightarrow> bool" where
  "space_byte c \<longleftrightarrow> ascii c \<and> is_space (of_char c)"

definition word_byte :: "char \<Rightarrow> bool" where
  "word_byte c \<longleftrightarrow> ascii c \<and> \<not> is_space (of_char c)"

text \<open>The part of a path after its last slash, computed from the front.\<close>

fun basename :: "string \<Rightarrow> string" where
  "basename [] = []"
| "basename (c # cs) = (if CHR ''/'' \<in> set cs then basename cs else if c = CHR ''/'' then cs else c # cs)"

lemma basename_no_slash: "CHR ''/'' \<notin> set s \<Longrightarrow> basename s = s"
  by (cases s) auto

lemma basename_dir: "CHR ''/'' \<notin> set s \<Longrightarrow> basename (d @ CHR ''/'' # s) = s"
  by (induction d) auto

lemma takeWhile_rev_last:
  "c \<notin> set t \<Longrightarrow> takeWhile (\<lambda>x. x \<noteq> c) (rev (d @ c # t)) = rev t"
  by (auto simp: takeWhile_append)

lemma LastIndexByte_dir: "c \<notin> set t \<Longrightarrow> LastIndexByte (d @ c # t) c = int (length d)"
  by (simp add: LastIndexByte_def takeWhile_rev_last del: rev_append)

lemma LastIndexByte_none: "c \<notin> set s \<Longrightarrow> LastIndexByte s c = - 1"
  by (simp add: LastIndexByte_def)

lemma cut_after_last_slash:
  "(let idx = LastIndexByte s (CHR ''/'') in if 0 \<le> idx then drop (nat (idx + 1)) s else s) = basename s"
proof (cases "CHR ''/'' \<in> set s")
  case True
  then obtain d t where "s = d @ CHR ''/'' # t" "CHR ''/'' \<notin> set t"
    by (meson split_list_last)
  then show ?thesis by (simp add: LastIndexByte_dir basename_dir nat_add_distrib)
next
  case False
  then show ?thesis by (simp add: LastIndexByte_none basename_no_slash)
qed

lemma extractBinaryName_eq:
  "extractBinaryName s = (case Fields s of [] \<Rightarrow> [] | w # _ \<Rightarrow> basename w)"
  by (simp add: extractBinaryName_def cut_after_last_slash split: list.split)

lemma extractBinaryName_TrimSpace [simp]: "extractBinaryName (TrimSpace s) = extractBinaryName s"
  by (simp add: extractBinaryName_eq)

text \<open>A field holds no white space, wherever it is cut.\<close>

lemma fields_from_no_space:
  assumes "w \<in> set (fields_from acc xs)" "space_byte c"
    and "c \<notin> set acc" and "\<forall>x \<in> set xs. is_space (fst x) \<or> c \<notin> set (snd x)"
  shows "c \<notin> set w"
  using assms
proof (induction acc xs rule: fields_from.induct)
  case (2 acc r b rs)
  then show ?case by (auto split: if_splits)
qed (auto split: if_splits)

lemma Fields_no_space: "w \<in> set (Fields s) \<Longrightarrow> c \<in> set w \<Longrightarrow> \<not> space_byte c"
proof
  assume w: "w \<in> set (Fields s)" "c \<in> set w" and c: "space_byte c"
  have "is_space (fst x) \<or> c \<notin> set (snd x)" if "x \<in> set (runes s)" for x
    using that c runes_ascii_bytes [of x s c] by (auto simp: space_byte_def)
  then show False
    using fields_from_no_space [of w "[]" "runes s" c] w c by (auto simp: Fields_def)
qed

lemma basename_subset: "set (basename s) \<subseteq> set s"
  by (induction s) auto

lemma extractBinaryName_subset: "set (extractBinaryName s) \<subseteq> set s"
proof (cases "Fields s")
  case (Cons w ws)
  then show ?thesis
    using Fields_subset [of w s] basename_subset [of w] by (auto simp: extractBinaryName_eq)
qed (simp add: extractBinaryName_eq)

lemma extractBinaryName_no_space: "c \<in> set (extractBinaryName s) \<Longrightarrow> \<not> space_byte c"
proof (cases "Fields s")
  case (Cons w ws)
  assume "c \<in> set (extractBinaryName s)"
  with Cons have "c \<in> set w" using basename_subset by (fastforce simp: extractBinaryName_eq)
  with Cons show ?thesis using Fields_no_space [of w s c] by simp
qed (simp add: extractBinaryName_eq)

text \<open>The shape of an invocation: white space, then a word, then the end or more white space.\<close>

lemma fields_from_word:
  "\<forall>c \<in> set w. word_byte c \<Longrightarrow>
   fields_from acc (map (\<lambda>c. (of_char c, [c])) w @ xs) = fields_from (acc @ w) xs"
  by (induction w arbitrary: acc) (auto simp: word_byte_def)

lemma Fields_word:
  assumes "\<forall>c \<in> set pre. space_byte c" "\<forall>c \<in> set w. word_byte c" "w \<noteq> []"
    and "rest = [] \<or> space_byte (hd rest)"
  obtains ws where "Fields (pre @ w @ rest) = w # ws"
proof -
  have "runes (pre @ w @ rest) = map (\<lambda>c. (of_char c, [c])) pre @ map (\<lambda>c. (of_char c, [c])) w @ runes rest"
    using assms(1,2) by (simp add: runes_append_ascii space_byte_def word_byte_def)
  moreover have "fields_from [] (map (\<lambda>c. (of_char c, [c])) pre @ xs) = fields_from [] xs" for xs
    using assms(1) by (intro fields_from_leading) (auto simp: space_byte_def)
  ultimately have "Fields (pre @ w @ rest) = fields_from w (runes rest)"
    using assms(2) by (simp add: Fields_def fields_from_word)
  moreover have "\<exists>ws. fields_from w (runes rest) = w # ws"
    using assms(3,4) by (cases rest) (auto simp: space_byte_def simp del: runes.simps(2))
  ultimately show thesis using that by auto
qed

lemma extractBinaryName_invocation:
  assumes "\<forall>c \<in> set pre. space_byte c" "\<forall>c \<in> set (dir @ name). word_byte c" "name \<noteq> []"
    and "CHR ''/'' \<notin> set name" "dir = [] \<or> last dir = CHR ''/''"
    and "rest = [] \<or> space_byte (hd rest)"
  shows "extractBinaryName (pre @ dir @ name @ rest) = name"
proof -
  obtain ws where "Fields (pre @ (dir @ name) @ rest) = (dir @ name) # ws"
    using Fields_word [of pre "dir @ name" rest] assms by auto
  moreover have "basename (dir @ name) = name"
    using assms(4,5) basename_dir [of name "butlast dir"] basename_no_slash
    by (cases dir rule: rev_cases) auto
  ultimately show ?thesis by (simp add: extractBinaryName_eq)
qed

subsection \<open>Properties\<close>

lemma lower_letter:
  assumes "97 \<le> (of_char (lower c) :: nat)" "(of_char (lower c) :: nat) \<le> 122"
  shows "word_byte c" "c \<noteq> CHR ''/''"
  using assms by (auto simp: of_char_lower word_byte_def ascii_def is_space_def split: if_splits)

lemma blocked_letters: "name \<in> set BlockedMultiplexers \<Longrightarrow> c \<in> set name \<Longrightarrow> 97 \<le> (of_char c :: nat) \<and> (of_char c :: nat) \<le> 122"
  by (auto simp: BlockedMultiplexers_def)

lemma blocked_ascii: "name \<in> set BlockedMultiplexers \<Longrightarrow> c \<in> set name \<Longrightarrow> ascii c \<and> lower c = c"
  using blocked_letters [of name c] by (auto simp: ascii_def lower_def Let_def)

lemma blocked_spelling:
  assumes "map lower name \<in> set BlockedMultiplexers"
  shows "\<forall>c \<in> set name. word_byte c" "CHR ''/'' \<notin> set name" "name \<noteq> []"
proof -
  have "97 \<le> (of_char (lower c) :: nat) \<and> (of_char (lower c) :: nat) \<le> 122" if "c \<in> set name" for c
    using blocked_letters [OF assms, of "lower c"] that by simp
  then show "\<forall>c \<in> set name. word_byte c" "CHR ''/'' \<notin> set name"
    using lower_letter by blast+
  show "name \<noteq> []" using assms by (auto simp: BlockedMultiplexers_def)
qed

lemma EqualFold_blocked:
  assumes "\<forall>c \<in> set name. ascii c"
  shows "(\<exists>b \<in> set BlockedMultiplexers. EqualFold sf name b) \<longleftrightarrow> map lower name \<in> set BlockedMultiplexers"
proof -
  have "EqualFold sf name b \<longleftrightarrow> map lower name = b" if "b \<in> set BlockedMultiplexers" for b
  proof -
    have "\<forall>c \<in> set b. ascii c" "map lower b = b"
      using blocked_ascii [OF that] by (auto intro: map_idI)
    then show ?thesis using EqualFold_ascii [OF assms, of b sf] by simp
  qed
  then show ?thesis by auto
qed

text \<open>The decision on a call of an ASCII-named program, shared by the properties below.\<close>

lemma IsCommandAllowed_invocation:
  assumes "\<forall>c \<in> set pre. space_byte c" and "\<forall>c \<in> set (dir @ name). word_byte c"
    and "name \<noteq> []" and "CHR ''/'' \<notin> set name" and "dir = [] \<or> last dir = CHR ''/''"
    and "rest = [] \<or> space_byte (hd rest)"
    and "\<forall>a \<in> set allowedCmds. \<forall>c \<in> set a. ascii c"
  shows "IsCommandAllowed sf (pre @ dir @ name @ rest) allowedCmds \<longleftrightarrow>
     map lower name \<notin> set BlockedMultiplexers
     \<and> (allowedCmds = [] \<or> map lower name \<in> map lower ` set allowedCmds)"
proof -
  have base: "extractBinaryName (pre @ dir @ name @ rest) = name"
    using assms by (intro extractBinaryName_invocation)
  have nm: "\<forall>c \<in> set name. ascii c" using assms(2) by (simp add: word_byte_def)
  have "EqualFold sf name a \<longleftrightarrow> map lower name = map lower a" if "a \<in> set allowedCmds" for a
    using EqualFold_ascii [OF nm, of a sf] assms(7) that by blast
  then have "(\<exists>a \<in> set allowedCmds. EqualFold sf name a) \<longleftrightarrow> map lower name \<in> map lower ` set allowedCmds"
    by auto
  then show ?thesis
    using base EqualFold_blocked [OF nm, of sf] assms(3) by (auto simp: IsCommandAllowed_def Let_def)
qed





text \<open>Only the first word of a line is inspected: a multiplexer after a shell separator, or
  directly followed by one, passes the filter of an unrestricted session.\<close>

theorem chained_multiplexer_passes:
  "\<forall>m \<in> set BlockedMultiplexers.
     IsCommandAllowed sf (''true; '' @ m) [] \<and> IsCommandAllowed sf (m @ '';'') []"
proof -
  have one: "IsCommandAllowed sf ([] @ [] @ name @ rest) []"
    if "\<forall>c \<in> set name. word_byte c" "CHR ''/'' \<notin> set name" "map lower name \<notin> set BlockedMultiplexers"
      "name \<noteq> []" "rest = [] \<or> space_byte (hd rest)" for name rest
    using IsCommandAllowed_invocation [of "[]" "[]" name rest "[]" sf] that by simp
  have "IsCommandAllowed sf ([] @ [] @ ''true;'' @ CHR '' '' # m) []" for m
    by (rule one) (simp_all add: word_byte_def space_byte_def ascii_def is_space_def BlockedMultiplexers_def lower_def)
  moreover have "IsCommandAllowed sf ([] @ [] @ (m @ '';'') @ []) []" if m: "m \<in> set BlockedMultiplexers" for m
  proof (rule one)
    show "\<forall>c \<in> set (m @ '';''). word_byte c" "CHR ''/'' \<notin> set (m @ '';'')"
      using blocked_spelling [of m] blocked_ascii [OF m] m
      by (auto simp: word_byte_def ascii_def is_space_def map_idI)
    show "map lower (m @ '';'') \<notin> set BlockedMultiplexers"
      using blocked_letters [of "map lower (m @ '';'')" "CHR '';''"] by (auto simp: lower_def)
  qed simp_all
  ultimately show ?thesis by simp
qed

theorem chained_multiplexer_passes_witness:
  "''tmux'' \<in> set BlockedMultiplexers \<and> IsCommandAllowed (\<lambda>_ _. False) (''true; '' @ ''tmux'') []
   \<and> IsCommandAllowed (\<lambda>_ _. False) (''tmux'' @ '';'') []"
proof -
  have "''tmux'' \<in> set BlockedMultiplexers" by (simp add: BlockedMultiplexers_def)
  with chained_multiplexer_passes [of "\<lambda>_ _. False"] show ?thesis by blast
qed

text \<open>A whitelist entry that contains white space (the seeded \<^verbatim>\<open>systemctl status\<close>) permits no
  ASCII command line: the policy is the same without it.\<close>

theorem whitelist_entry_with_space_is_dead:
  assumes "\<forall>c \<in> set cmd. ascii c" and "\<forall>c \<in> set e. ascii c"
    and "CHR '' '' \<in> set e" and "xs @ ys \<noteq> []"
  shows "IsCommandAllowed sf cmd (xs @ e # ys) = IsCommandAllowed sf cmd (xs @ ys)"
proof -
  let ?b = "extractBinaryName cmd"
  have "\<forall>c \<in> set ?b. ascii c" using extractBinaryName_subset [of cmd] assms(1) by blast
  then have "EqualFold sf ?b e \<longleftrightarrow> map lower ?b = map lower e" using assms(2) by (rule EqualFold_ascii)
  moreover have "CHR '' '' \<notin> lower ` set ?b"
  proof
    assume "CHR '' '' \<in> lower ` set ?b"
    then obtain c where c: "c \<in> set ?b" "lower c = CHR '' ''" by auto
    then have "(of_char c :: nat) = 32" using of_char_lower [of c] by (auto split: if_splits)
    then have "space_byte c" by (simp add: space_byte_def ascii_def is_space_def)
    with extractBinaryName_no_space c(1) show False by blast
  qed
  moreover have "CHR '' '' \<in> lower ` set e"
    using assms(3) by (force simp: lower_def)
  ultimately have "\<not> EqualFold sf ?b e" by (metis set_map)
  then show ?thesis using assms(4) by (auto simp: IsCommandAllowed_def Let_def)
qed

theorem whitelist_entry_with_space_is_dead_witness:
  "IsCommandAllowed (\<lambda>_ _. False) ''systemctl status sshd'' ([''ls''] @ ''systemctl status'' # [])
   = IsCommandAllowed (\<lambda>_ _. False) ''systemctl status sshd'' ([''ls''] @ [])"
  by (rule whitelist_entry_with_space_is_dead) (simp_all add: ascii_def)

subsection \<open>The interface used by the stream filter\<close>

locale command_policy =
  fixes allowed :: "string \<Rightarrow> bool"
  assumes blank_allowed: "TrimSpace s = [] \<Longrightarrow> allowed s"
    and trim_irrelevant: "allowed (TrimSpace s) = allowed s"
begin

text \<open>The filter's test \<^verbatim>\<open>cleanLine != "" && !allowed(cleanLine)\<close> is the policy on the raw line.\<close>

lemma refuse_iff: "TrimSpace raw \<noteq> [] \<and> \<not> allowed (TrimSpace raw) \<longleftrightarrow> \<not> allowed raw"
  using blank_allowed trim_irrelevant by blast

end

lemma extractBinaryName_blank: "TrimSpace s = [] \<Longrightarrow> extractBinaryName s = []"
  using Fields_TrimSpace [of s] by (simp add: extractBinaryName_eq Fields_def)

interpretation rbac_policy: command_policy "\<lambda>line. IsCommandAllowed sf line allowedCmds" for sf allowedCmds
  by unfold_locales (simp_all add: IsCommandAllowed_def extractBinaryName_blank)

end
