(* ===== verification/Zttp_IO.thy ===== *)
theory Zttp_IO
  imports Zttp_Strings
begin

text \<open>
  Byte streams: writers whose writes may fail, the client connection, and the keyboard decoder
  that the terminal screens of \<^verbatim>\<open>internal/proxy/admin_tui.go\<close> read it with.

  A \<open>sink\<close> is an \<^verbatim>\<open>io.Writer\<close>: the bytes it has accepted and the outcomes of the writes to
  come (an exhausted list of outcomes means that writes succeed). The input of a connection is the
  list of results its \<^verbatim>\<open>Read\<close> calls will deliver byte by byte: a byte, a timeout, or an error;
  when the list is exhausted the peer has closed the connection and every further read fails with
  an error that is not a timeout. All loops over the input therefore end.
\<close>

subsection \<open>Writers\<close>

record sink =
  sk_data :: bytes
  sk_fails :: "bool list" \<comment> \<open>outcome of the coming writes: \<open>True\<close> fails\<close>

definition sk_write :: "bytes \<Rightarrow> sink \<Rightarrow> bool \<times> sink" where
  "sk_write p s = (case sk_fails s of
     [] \<Rightarrow> (True, s\<lparr>sk_data := sk_data s @ p\<rparr>)
   | f # fs \<Rightarrow> (if f then (False, s\<lparr>sk_fails := fs\<rparr>)
                else (True, s\<lparr>sk_data := sk_data s @ p, sk_fails := fs\<rparr>)))"

definition good_sink :: "sink \<Rightarrow> bool" where
  "good_sink s \<longleftrightarrow> True \<notin> set (sk_fails s)"

subsection \<open>Connections\<close>

datatype rd = RByte char | RTimeout | RErr

record conn =
  c_in :: "rd list"
  c_out :: sink
  c_deadline :: bool \<comment> \<open>a read deadline is set\<close>
  c_closed :: bool

definition conn_write :: "bytes \<Rightarrow> conn \<Rightarrow> conn" where
  "conn_write p c = (if c_closed c then c else c\<lparr>c_out := snd (sk_write p (c_out c))\<rparr>)"

definition SetReadDeadline :: "bool \<Rightarrow> conn \<Rightarrow> conn" where
  "SetReadDeadline b c = c\<lparr>c_deadline := b\<rparr>"

definition conn_close :: "conn \<Rightarrow> conn" where
  "conn_close c = c\<lparr>c_closed := True\<rparr>"

text \<open>\<^verbatim>\<open>io.ReadFull\<close>: the bytes read, whether all \<open>n\<close> arrived, and the input left.\<close>

fun read_full :: "nat \<Rightarrow> rd list \<Rightarrow> bytes \<times> bool \<times> rd list" where
  "read_full 0 xs = ([], True, xs)"
| "read_full (Suc n) (RByte b # xs) = (let (bs, ok, r) = read_full n xs in (b # bs, ok, r))"
| "read_full (Suc n) (x # xs) = ([], False, xs)"
| "read_full (Suc n) [] = ([], False, [])"

definition isTimeout :: "rd \<Rightarrow> bool" where
  "isTimeout e \<longleftrightarrow> e = RTimeout"

subsection \<open>Keys\<close>

text \<open>The strings that \<^verbatim>\<open>readKey\<close> returns; \<open>KeyByte c\<close> is the one-byte string.\<close>

datatype key = KeyUp | KeyDown | KeyRight | KeyLeft | KeyEsc | KeyEnter | KeyBackspace
  | KeyCtrlC | KeyCtrlS | KeyByte char

text \<open>The first loop of \<^verbatim>\<open>readKey\<close>: retry on a timeout, stop on any other error.\<close>

fun read_first :: "rd list \<Rightarrow> char option \<times> rd list" where
  "read_first (RByte b # xs) = (Some b, xs)"
| "read_first (RTimeout # xs) = read_first xs"
| "read_first (RErr # xs) = (None, xs)"
| "read_first [] = (None, [])"

definition arrow_key :: "bytes \<Rightarrow> bool \<Rightarrow> key" where
  "arrow_key b2 ok =
     (if ok \<and> b2 ! 0 = CHR ''['' then
        (if b2 ! 1 = CHR ''A'' then KeyUp
         else if b2 ! 1 = CHR ''B'' then KeyDown
         else if b2 ! 1 = CHR ''C'' then KeyRight
         else if b2 ! 1 = CHR ''D'' then KeyLeft
         else KeyEsc)
      else KeyEsc)"

definition readKey :: "conn \<Rightarrow> key option \<times> conn" where
  "readKey c = (case read_first (c_in c) of
     (None, r) \<Rightarrow> (None, c\<lparr>c_in := r\<rparr>)
   | (Some b, r) \<Rightarrow>
       (let n = (of_char b :: nat) in
        if n = 0x1b then
          (let (b2, ok, r') = read_full 2 r
           in (Some (arrow_key b2 ok), SetReadDeadline False (c\<lparr>c_in := r'\<rparr>)))
        else (Some
          (if n = 13 \<or> n = 10 then KeyEnter
           else if n = 127 \<or> n = 8 then KeyBackspace
           else if n = 3 then KeyCtrlC
           else if n = 19 then KeyCtrlS
           else KeyByte b), c\<lparr>c_in := r\<rparr>)))"

definition clearScreen :: "conn \<Rightarrow> conn" where
  "clearScreen = conn_write ([esc] @ ''[2J'' @ [esc] @ ''[H'')"

text \<open>\<^verbatim>\<open>flushConn\<close> throws away pending input up to the first error.\<close>

fun flush_input :: "rd list \<Rightarrow> rd list" where
  "flush_input (RByte b # xs) = flush_input xs"
| "flush_input (x # xs) = xs"
| "flush_input [] = []"

definition flushConn :: "conn \<Rightarrow> conn" where
  "flushConn c = SetReadDeadline False (c\<lparr>c_in := flush_input (c_in c)\<rparr>)"

fun wait_input :: "rd list \<Rightarrow> rd list" where
  "wait_input (RByte b # xs) = (if (of_char b :: nat) = 3 then flush_input xs else wait_input xs)"
| "wait_input (e # xs) = (if isTimeout e then wait_input xs else xs)"
| "wait_input [] = []"

definition waitForCtrlC :: "conn \<Rightarrow> conn" where
  "waitForCtrlC c = SetReadDeadline False (c\<lparr>c_in := wait_input (c_in c)\<rparr>)"

subsection \<open>Lemmas\<close>

lemma sk_write_good [simp]:
  "good_sink s \<Longrightarrow> sk_write p s = (True, s\<lparr>sk_data := sk_data s @ p, sk_fails := tl (sk_fails s)\<rparr>)"
  by (cases "sk_fails s") (auto simp: sk_write_def good_sink_def)

lemma good_sink_write [simp]: "good_sink s \<Longrightarrow> good_sink (s\<lparr>sk_data := d, sk_fails := tl (sk_fails s)\<rparr>)"
  by (cases "sk_fails s") (auto simp: good_sink_def)

lemma good_sink_snd [simp]: "good_sink s \<Longrightarrow> good_sink (snd (sk_write p s))"
  by simp

lemma conn_write_good:
  assumes "good_sink (c_out c)" "\<not> c_closed c"
  shows "sk_data (c_out (conn_write p c)) = sk_data (c_out c) @ p" "good_sink (c_out (conn_write p c))"
  using assms by (simp_all add: conn_write_def)

lemma conn_write_frame [simp, frame_simps]:
  "c_in (conn_write p c) = c_in c" "c_closed (conn_write p c) = c_closed c" "c_deadline (conn_write p c) = c_deadline c"
  by (simp_all add: conn_write_def)

lemma read_full_bytes [simp]: "read_full (length bs) (map RByte bs @ xs) = (bs, True, xs)"
  by (induction bs) auto

lemma read_full_length: "read_full n xs = (bs, True, r) \<Longrightarrow> length bs = n"
  by (induction n xs arbitrary: bs r rule: read_full.induct) (auto split: prod.splits)

lemma read_full_suffix: "suffix (snd (snd (read_full n xs))) xs"
  by (induction n xs rule: read_full.induct) (auto split: prod.splits intro: suffix_ConsI)

lemma read_first_shorter: "read_first xs = (Some b, r) \<Longrightarrow> length r < length xs"
  by (induction xs rule: read_first.induct) auto

text \<open>A key is read only by consuming input, so every loop that reads a key per round ends.\<close>

lemma readKey_progress: "readKey c = (Some k, c') \<Longrightarrow> length (c_in c') < length (c_in c)"
proof -
  assume k: "readKey c = (Some k, c')"
  obtain o' r where f: "read_first (c_in c) = (o', r)" by fastforce
  with k obtain b where "o' = Some b" by (cases o') (auto simp: readKey_def)
  with f have r: "length r < length (c_in c)" using read_first_shorter by blast
  have "suffix (snd (snd (read_full 2 r))) r" by (rule read_full_suffix)
  then have "length (snd (snd (read_full 2 r))) \<le> length r" by (rule suffix_length_le)
  with k f \<open>o' = Some b\<close> r show ?thesis
    by (auto simp: readKey_def Let_def SetReadDeadline_def split: prod.splits if_splits)
qed

subsection \<open>Properties\<close>

text \<open>The bytes a terminal sends for a key.\<close>

fun key_bytes :: "key \<Rightarrow> bytes" where
  "key_bytes KeyUp = [esc, CHR ''['', CHR ''A'']"
| "key_bytes KeyDown = [esc, CHR ''['', CHR ''B'']"
| "key_bytes KeyRight = [esc, CHR ''['', CHR ''C'']"
| "key_bytes KeyLeft = [esc, CHR ''['', CHR ''D'']"
| "key_bytes KeyEsc = [esc]"
| "key_bytes KeyEnter = [CHR 0x0D]"
| "key_bytes KeyBackspace = [CHR 0x7F]"
| "key_bytes KeyCtrlC = [CHR 0x03]"
| "key_bytes KeyCtrlS = [CHR 0x13]"
| "key_bytes (KeyByte c) = [c]"

fun typed_key :: "key \<Rightarrow> bool" where
  "typed_key (KeyByte c) = ((of_char c :: nat) \<notin> {0x1b, 13, 10, 127, 8, 3, 19})"
| "typed_key k = True"

text \<open>What arrives for one key: its bytes, and after a lone escape a pause longer than the 50 ms
  that \<^verbatim>\<open>readKey\<close> waits for the rest of an arrow sequence.\<close>

definition key_events :: "key \<Rightarrow> rd list" where
  "key_events k = map RByte (key_bytes k) @ (if k = KeyEsc then [RTimeout] else [])"

text \<open>The keyboard decoder inverts the terminal's key encoding: after any number of timeouts,
  the events of a key are read back as that key, nothing after them is consumed and no read
  deadline is left behind.\<close>

theorem readKey_decodes:
  assumes "typed_key k"
  shows "\<exists>c'. readKey (c\<lparr>c_in := replicate n RTimeout @ key_events k @ rest\<rparr>) = (Some k, c')
     \<and> c_in c' = rest \<and> (c_deadline c' \<longrightarrow> c_deadline c)"
proof -
  have skip: "read_first (replicate n RTimeout @ xs) = read_first xs" for xs
    by (induction n) auto
  show ?thesis
    using assms
    by (cases k)
      (auto simp: readKey_def skip key_events_def esc_def arrow_key_def SetReadDeadline_def
         Let_def numeral_2_eq_2)
qed

theorem readKey_decodes_witness:
  "\<exists>c'. readKey (\<lparr>c_in = [], c_out = \<lparr>sk_data = [], sk_fails = []\<rparr>, c_deadline = False, c_closed = False\<rparr>
      \<lparr>c_in := replicate 2 RTimeout @ key_events KeyEsc @ [RByte (CHR ''x'')]\<rparr>) = (Some KeyEsc, c')
     \<and> c_in c' = [RByte (CHR ''x'')] \<and> (c_deadline c' \<longrightarrow> c_deadline
       \<lparr>c_in = [], c_out = \<lparr>sk_data = [], sk_fails = []\<rparr>, c_deadline = False, c_closed = False\<rparr>)"
  by (rule readKey_decodes) simp

end
