(* ===== verification/Zttp_CmdFilter.thy ===== *)
theory Zttp_CmdFilter
  imports Zttp_Commands Zttp_IO
begin

text \<open>
  The stdin interceptor of \<^verbatim>\<open>internal/proxy/cmdfilter.go\<close>. Every typed byte is forwarded at
  once; the filter keeps its own copy of the current line and decides at the Enter key whether to
  forward it or to cancel the line on the target with Ctrl+C and tell the user why.

  The reference below reads the same input as a line editor (\<open>typed_line\<close>) and says what each key
  contributes to the target (\<open>filter_out\<close>) and to the client (\<open>filter_msgs\<close>); the writer is shown
  to implement it, however the input is cut into \<^verbatim>\<open>Write\<close> calls.
\<close>

subsection \<open>Model\<close>

record commandFilterWriter =
  cf_target :: sink
  cf_clientW :: sink
  cf_allowedCmds :: "string list"
  cf_buf :: bytes

definition newCommandFilterWriter :: "sink \<Rightarrow> sink \<Rightarrow> string list \<Rightarrow> commandFilterWriter" where
  "newCommandFilterWriter target clientW allowedCmds =
     \<lparr>cf_target = target, cf_clientW = clientW, cf_allowedCmds = allowedCmds, cf_buf = []\<rparr>"

definition extractBase :: "string \<Rightarrow> string" where
  "extractBase cmdLine = (case Fields (TrimSpace cmdLine) of
     [] \<Rightarrow> []
   | binary # _ \<Rightarrow>
       (let idx = LastIndexByte binary (CHR ''/'')
        in if 0 \<le> idx then drop (nat (idx + 1)) binary else binary))"

definition forward_byte :: "char \<Rightarrow> commandFilterWriter \<Rightarrow> commandFilterWriter \<times> bool" where
  "forward_byte b f = (let (ok, t) = sk_write [b] (cf_target f) in (f\<lparr>cf_target := t\<rparr>, ok))"

definition is_backspace :: "char \<Rightarrow> bool" where
  "is_backspace b \<longleftrightarrow> (of_char b :: nat) = 127 \<or> (of_char b :: nat) = 8"

definition is_enter :: "char \<Rightarrow> bool" where
  "is_enter b \<longleftrightarrow> b = CHR 0x0A \<or> b = CHR 0x0D"

text \<open>One round of the loop in \<^verbatim>\<open>Write\<close>; the flag is false when the write to the target failed.\<close>

definition filter_byte ::
  "(rune \<Rightarrow> rune \<Rightarrow> bool) \<Rightarrow> commandFilterWriter \<Rightarrow> char \<Rightarrow> commandFilterWriter \<times> bool" where
  "filter_byte sf f b =
     (if is_backspace b then
        forward_byte b (if 0 < length (cf_buf f)
                        then f\<lparr>cf_buf := take (length (cf_buf f) - 1) (cf_buf f)\<rparr> else f)
      else if is_enter b then
        (let rawLine = cf_buf f;
             f = f\<lparr>cf_buf := []\<rparr>;
             cleanLine = TrimSpace rawLine
         in if cleanLine \<noteq> [] \<and> \<not> IsCommandAllowed sf cleanLine (cf_allowedCmds f) then
              (let isMux = (\<exists>blocked \<in> set BlockedMultiplexers. EqualFold sf (extractBase cleanLine) blocked);
                   errMsg = (if isMux then MultiplexerViolationMessage cleanLine
                             else WhitelistViolationMessage cleanLine)
               in (f\<lparr>cf_target := snd (sk_write [CHR 0x03] (cf_target f)),
                     cf_clientW := snd (sk_write errMsg (cf_clientW f))\<rparr>, True))
            else forward_byte b f)
      else forward_byte b (f\<lparr>cf_buf := cf_buf f @ [b]\<rparr>))"

fun filter_loop ::
  "(rune \<Rightarrow> rune \<Rightarrow> bool) \<Rightarrow> commandFilterWriter \<Rightarrow> bytes \<Rightarrow> commandFilterWriter \<times> bool" where
  "filter_loop sf f [] = (f, True)"
| "filter_loop sf f (b # p) =
     (let (f', ok) = filter_byte sf f b in if ok then filter_loop sf f' p else (f', False))"

text \<open>\<^verbatim>\<open>Write\<close>: the number of bytes taken, or none and an error.\<close>

definition filter_Write ::
  "(rune \<Rightarrow> rune \<Rightarrow> bool) \<Rightarrow> commandFilterWriter \<Rightarrow> bytes \<Rightarrow> commandFilterWriter \<times> nat option" where
  "filter_Write sf f p =
     (let (f', ok) = filter_loop sf f p in (f', if ok then Some (length p) else None))"

subsection \<open>Reference\<close>

definition edit_line :: "bytes \<Rightarrow> char \<Rightarrow> bytes" where
  "edit_line l b = (if is_backspace b then butlast l else if is_enter b then [] else l @ [b])"

text \<open>The line on the screen after typing \<open>p\<close>, as far as the filter models a terminal.\<close>

definition typed_line :: "bytes \<Rightarrow> bytes \<Rightarrow> bytes" where
  "typed_line l p = foldl edit_line l p"

definition refused :: "(rune \<Rightarrow> rune \<Rightarrow> bool) \<Rightarrow> string list \<Rightarrow> bytes \<Rightarrow> char \<Rightarrow> bool" where
  "refused sf cmds l b \<longleftrightarrow> is_enter b \<and> \<not> IsCommandAllowed sf l cmds"

fun filter_out :: "(rune \<Rightarrow> rune \<Rightarrow> bool) \<Rightarrow> string list \<Rightarrow> bytes \<Rightarrow> bytes \<Rightarrow> bytes" where
  "filter_out sf cmds l [] = []"
| "filter_out sf cmds l (b # p) =
     (if refused sf cmds l b then CHR 0x03 else b) # filter_out sf cmds (edit_line l b) p"

definition violation :: "(rune \<Rightarrow> rune \<Rightarrow> bool) \<Rightarrow> bytes \<Rightarrow> bytes" where
  "violation sf l =
     (if \<exists>m \<in> set BlockedMultiplexers. EqualFold sf (extractBinaryName l) m
      then MultiplexerViolationMessage l else WhitelistViolationMessage l)"

fun filter_msgs :: "(rune \<Rightarrow> rune \<Rightarrow> bool) \<Rightarrow> string list \<Rightarrow> bytes \<Rightarrow> bytes \<Rightarrow> bytes" where
  "filter_msgs sf cmds l [] = []"
| "filter_msgs sf cmds l (b # p) =
     (if refused sf cmds l b then violation sf l else []) @ filter_msgs sf cmds (edit_line l b) p"

subsection \<open>Lemmas\<close>

lemma extractBase_eq: "extractBase = extractBinaryName"
  by (simp add: fun_eq_iff extractBase_def extractBinaryName_def)

lemma enter_not_backspace: "is_enter b \<Longrightarrow> \<not> is_backspace b"
  by (auto simp: is_enter_def is_backspace_def)

lemma messages_TrimSpace [simp]:
  "MultiplexerViolationMessage (TrimSpace l) = MultiplexerViolationMessage l"
  "WhitelistViolationMessage (TrimSpace l) = WhitelistViolationMessage l"
  by (simp_all add: MultiplexerViolationMessage_def WhitelistViolationMessage_def)

lemma filter_byte_good:
  assumes "good_sink (cf_target f)" "good_sink (cf_clientW f)"
  obtains f' where "filter_byte sf f b = (f', True)"
    and "cf_buf f' = edit_line (cf_buf f) b" "cf_allowedCmds f' = cf_allowedCmds f"
    and "good_sink (cf_target f')" "good_sink (cf_clientW f')"
    and "sk_data (cf_target f') =
           sk_data (cf_target f) @ [if refused sf (cf_allowedCmds f) (cf_buf f) b then CHR 0x03 else b]"
    and "sk_data (cf_clientW f') = sk_data (cf_clientW f) @
           (if refused sf (cf_allowedCmds f) (cf_buf f) b then violation sf (cf_buf f) else [])"
proof -
  note refuse = rbac_policy.refuse_iff [of "cf_buf f" sf "cf_allowedCmds f"]
  show thesis
    using assms refuse that
    by (cases "is_backspace b"; cases "is_enter b")
      (auto simp: filter_byte_def forward_byte_def edit_line_def refused_def violation_def Let_def
         extractBase_eq butlast_conv_take dest: enter_not_backspace)
qed

lemma filter_loop_good:
  assumes "good_sink (cf_target f)" "good_sink (cf_clientW f)"
  shows "\<exists>f'. filter_loop sf f p = (f', True)
     \<and> cf_buf f' = typed_line (cf_buf f) p
     \<and> cf_allowedCmds f' = cf_allowedCmds f
     \<and> sk_data (cf_target f') = sk_data (cf_target f) @ filter_out sf (cf_allowedCmds f) (cf_buf f) p
     \<and> sk_data (cf_clientW f') = sk_data (cf_clientW f) @ filter_msgs sf (cf_allowedCmds f) (cf_buf f) p
     \<and> good_sink (cf_target f') \<and> good_sink (cf_clientW f')"
  using assms
proof (induction p arbitrary: f)
  case Nil
  then show ?case by (simp add: typed_line_def)
next
  case (Cons b p)
  obtain f1 where f1: "filter_byte sf f b = (f1, True)"
    "cf_buf f1 = edit_line (cf_buf f) b" "cf_allowedCmds f1 = cf_allowedCmds f"
    "good_sink (cf_target f1)" "good_sink (cf_clientW f1)"
    "sk_data (cf_target f1) =
       sk_data (cf_target f) @ [if refused sf (cf_allowedCmds f) (cf_buf f) b then CHR 0x03 else b]"
    "sk_data (cf_clientW f1) = sk_data (cf_clientW f) @
       (if refused sf (cf_allowedCmds f) (cf_buf f) b then violation sf (cf_buf f) else [])"
    using filter_byte_good [OF Cons.prems, of sf b] by blast
  from Cons.IH [OF f1(4,5)] f1 show ?case by (auto simp: typed_line_def)
qed

lemma filter_loop_append:
  "filter_loop sf f (p @ q) =
     (let (f1, ok) = filter_loop sf f p in if ok then filter_loop sf f1 q else (f1, False))"
  by (induction p arbitrary: f) (auto split: prod.splits)

lemma filter_out_snoc:
  "filter_out sf cmds l (p @ [b]) =
     filter_out sf cmds l p @ [if refused sf cmds (typed_line l p) b then CHR 0x03 else b]"
  by (induction p arbitrary: l) (auto simp: typed_line_def)

lemma filter_out_allowed:
  "\<forall>u e v. p = u @ e # v \<longrightarrow> is_enter e \<longrightarrow> IsCommandAllowed sf (typed_line l u) cmds \<Longrightarrow>
   filter_out sf cmds l p = p \<and> filter_msgs sf cmds l p = []"
proof (induction p arbitrary: l)
  case (Cons b p)
  have "\<not> refused sf cmds l b"
    using Cons.prems by (auto simp: refused_def typed_line_def dest: spec [of _ "[]"])
  moreover have "\<forall>u e v. p = u @ e # v \<longrightarrow> is_enter e \<longrightarrow> IsCommandAllowed sf (typed_line (edit_line l b) u) cmds"
    using Cons.prems by (metis append_Cons foldl_Cons typed_line_def)
  ultimately show ?case using Cons.IH by simp
qed simp

lemma typed_line_plain:
  "\<forall>b \<in> set p. \<not> is_enter b \<and> \<not> is_backspace b \<Longrightarrow> typed_line l p = l @ p"
  by (induction p arbitrary: l) (auto simp: typed_line_def edit_line_def)

lemma filter_out_plain:
  "\<forall>b \<in> set p. \<not> is_enter b \<Longrightarrow> filter_out sf cmds l p = p"
  by (induction p arbitrary: l) (auto simp: refused_def)

lemma typed_line_append: "typed_line l (p @ q) = typed_line (typed_line l p) q"
  by (simp add: typed_line_def)

lemma filter_out_append:
  "filter_out sf cmds l (p @ q) = filter_out sf cmds l p @ filter_out sf cmds (typed_line l p) q"
  by (induction p arbitrary: l) (simp_all add: typed_line_def)

subsection \<open>Properties\<close>





text \<open>The decision does not depend on how the stream is cut: a successful \<^verbatim>\<open>Write\<close> of \<open>p\<close>
  followed by a \<^verbatim>\<open>Write\<close> of \<open>q\<close> leaves the filter as one \<^verbatim>\<open>Write\<close> of both does, also when
  writes to the target fail.\<close>

theorem filter_Write_chunks:
  assumes "filter_Write sf f p = (f1, Some n)"
  shows "fst (filter_Write sf f (p @ q)) = fst (filter_Write sf f1 q)
     \<and> snd (filter_Write sf f (p @ q)) = map_option ((+) n) (snd (filter_Write sf f1 q))"
  using assms by (auto simp: filter_Write_def filter_loop_append split: prod.splits if_splits)

theorem filter_Write_chunks_witness:
  "fst (filter_Write (\<lambda>_ _. False) (newCommandFilterWriter \<lparr>sk_data = [], sk_fails = [False, True]\<rparr> \<lparr>sk_data = [], sk_fails = []\<rparr> []) (''l'' @ ''s''))
   = fst (filter_Write (\<lambda>_ _. False) \<lparr>cf_target = \<lparr>sk_data = ''l'', sk_fails = [True]\<rparr>, cf_clientW = \<lparr>sk_data = [], sk_fails = []\<rparr>, cf_allowedCmds = [], cf_buf = ''l''\<rparr> ''s'')
   \<and> snd (filter_Write (\<lambda>_ _. False) (newCommandFilterWriter \<lparr>sk_data = [], sk_fails = [False, True]\<rparr> \<lparr>sk_data = [], sk_fails = []\<rparr> []) (''l'' @ ''s''))
   = map_option ((+) 1) (snd (filter_Write (\<lambda>_ _. False) \<lparr>cf_target = \<lparr>sk_data = ''l'', sk_fails = [True]\<rparr>, cf_clientW = \<lparr>sk_data = [], sk_fails = []\<rparr>, cf_allowedCmds = [], cf_buf = ''l''\<rparr> ''s''))"
  by (rule filter_Write_chunks)
    (simp add: newCommandFilterWriter_def filter_Write_def filter_byte_def forward_byte_def sk_write_def
      is_backspace_def is_enter_def)

text \<open>A line that holds other editing keys is judged by its raw bytes: after \<^verbatim>\<open>x\<close> and Ctrl+U,
  which erases the line on the target, every multiplexer is forwarded together with its Enter.\<close>

theorem kill_line_key_evades_filter:
  "\<forall>m \<in> set BlockedMultiplexers.
     \<exists>f'. filter_Write sf (newCommandFilterWriter \<lparr>sk_data = [], sk_fails = []\<rparr> \<lparr>sk_data = [], sk_fails = []\<rparr> [])
            (''x'' @ [CHR 0x15] @ m @ [CHR 0x0D]) = (f', Some (3 + length m))
       \<and> sk_data (cf_target f') = ''x'' @ [CHR 0x15] @ m @ [CHR 0x0D]
       \<and> sk_data (cf_clientW f') = []"
proof
  fix m assume m: "m \<in> set BlockedMultiplexers"
  let ?f = "newCommandFilterWriter \<lparr>sk_data = [], sk_fails = []\<rparr> \<lparr>sk_data = [], sk_fails = []\<rparr> []"
  let ?l = "''x'' @ [CHR 0x15] @ m"
  have letters: "\<forall>c \<in> set m. word_byte c \<and> c \<noteq> CHR ''/'' \<and> \<not> is_enter c \<and> \<not> is_backspace c"
    using blocked_spelling [of m] blocked_ascii [OF m] blocked_letters [OF m] m
    by (fastforce simp: map_idI is_enter_def is_backspace_def)
  have plain: "\<forall>b \<in> set ?l. \<not> is_enter b \<and> \<not> is_backspace b"
    using letters by (auto simp: is_enter_def is_backspace_def)
  have "map lower ?l \<notin> set BlockedMultiplexers"
    using blocked_letters [of "map lower ?l" "CHR 0x15"] by (auto simp: lower_def)
  then have ok: "IsCommandAllowed sf ?l []"
    using IsCommandAllowed_invocation [of "[]" "[]" ?l "[]" "[]" sf] letters
    by (auto simp: word_byte_def ascii_def is_space_def)
  have "filter_out sf [] [] (?l @ [CHR 0x0D]) = ?l @ [CHR 0x0D] \<and> filter_msgs sf [] [] (?l @ [CHR 0x0D]) = []"
  proof (rule filter_out_allowed, intro allI impI)
    fix u e v assume split: "?l @ [CHR 0x0D] = u @ e # v" and "is_enter e"
    then have "u = ?l"
    proof (cases v rule: rev_cases)
      case (snoc v' z)
      with split have "e \<in> set ?l" by (metis append_Cons append_assoc butlast_snoc in_set_conv_decomp)
      with plain \<open>is_enter e\<close> show ?thesis by blast
    qed simp
    with ok plain show "IsCommandAllowed sf (typed_line [] u) []" by (simp add: typed_line_plain)
  qed
  then show "\<exists>f'. filter_Write sf ?f (''x'' @ [CHR 0x15] @ m @ [CHR 0x0D]) = (f', Some (3 + length m))
       \<and> sk_data (cf_target f') = ''x'' @ [CHR 0x15] @ m @ [CHR 0x0D] \<and> sk_data (cf_clientW f') = []"
    using filter_loop_good [of ?f sf "?l @ [CHR 0x0D]"]
    by (auto simp: newCommandFilterWriter_def good_sink_def filter_Write_def)
qed

theorem kill_line_key_evades_filter_witness:
  "\<exists>f'. filter_Write (\<lambda>_ _. False)
            (newCommandFilterWriter \<lparr>sk_data = [], sk_fails = []\<rparr> \<lparr>sk_data = [], sk_fails = []\<rparr> [])
            (''x'' @ [CHR 0x15] @ ''screen'' @ [CHR 0x0D]) = (f', Some (3 + length ''screen''))
       \<and> sk_data (cf_target f') = ''x'' @ [CHR 0x15] @ ''screen'' @ [CHR 0x0D]
       \<and> sk_data (cf_clientW f') = []"
proof -
  have "''screen'' \<in> set BlockedMultiplexers" by (simp add: BlockedMultiplexers_def)
  with kill_line_key_evades_filter [of "\<lambda>_ _. False"] show ?thesis by blast
qed

text \<open>A prohibited command line is not withheld: its characters have reached the target before
  the Enter key is pressed, and Ctrl+C is sent after them.\<close>

theorem prohibited_line_reaches_target:
  assumes "good_sink target" and "good_sink clientW" and "is_enter e"
    and "\<forall>b \<in> set l. \<not> is_enter b \<and> \<not> is_backspace b"
    and "\<not> IsCommandAllowed sf l cmds"
  shows "\<exists>f'. filter_Write sf (newCommandFilterWriter target clientW cmds) (l @ [e]) = (f', Some (Suc (length l)))
     \<and> sk_data (cf_target f') = sk_data target @ l @ [CHR 0x03]"
proof -
  have "filter_out sf cmds [] (l @ [e]) = l @ [CHR 0x03]"
    using assms(3-5) by (simp add: filter_out_snoc filter_out_plain typed_line_plain refused_def)
  then show ?thesis
    using filter_loop_good [of "newCommandFilterWriter target clientW cmds" sf "l @ [e]"] assms(1,2)
    by (auto simp: newCommandFilterWriter_def filter_Write_def)
qed

theorem prohibited_line_reaches_target_witness:
  "\<exists>f'. filter_Write (\<lambda>_ _. False) (newCommandFilterWriter \<lparr>sk_data = [], sk_fails = []\<rparr> \<lparr>sk_data = [], sk_fails = []\<rparr> []) (''tmux'' @ [CHR 0x0A]) = (f', Some (Suc (length ''tmux'')))
     \<and> sk_data (cf_target f') = [] @ ''tmux'' @ [CHR 0x03]"
proof -
  have "\<not> IsCommandAllowed (\<lambda>_ _. False) ''tmux'' []"
    using IsCommandAllowed_invocation [of "[]" "[]" "''tmux''" "[]" "[]" "\<lambda>_ _. False"]
    by (simp add: word_byte_def ascii_def is_space_def BlockedMultiplexers_def lower_def)
  then show ?thesis
    using prohibited_line_reaches_target [of "\<lparr>sk_data = [], sk_fails = []\<rparr>" "\<lparr>sk_data = [], sk_fails = []\<rparr>"
        "CHR 0x0A" "''tmux''" "\<lambda>_ _. False" "[]"]
    by (simp add: good_sink_def is_enter_def is_backspace_def)
qed

end
