(* ===== verification/Zttp_RateLimit.thy ===== *)
theory Zttp_RateLimit
  imports Zttp_Net
begin

text \<open>
  Rate limiting: the per-address limiter in front of the TLS handshake
  (\<^verbatim>\<open>internal/ratelimit/ratelimit.go\<close>) and the throughput wrappers of the bridge
  (\<^verbatim>\<open>internal/proxy/ratelimit.go\<close>).

  The limiter of \<^verbatim>\<open>golang.org/x/time/rate\<close> is a parameter: \<open>mk r b\<close> is \<^verbatim>\<open>rate.NewLimiter\<close>
  with \<open>r\<close> tokens per minute (the code passes \<^verbatim>\<open>float64(r)/60\<close> tokens per second) and burst
  \<open>b\<close>, and \<open>lim t l\<close> is \<^verbatim>\<open>Allow\<close> at instant \<open>t\<close>: the answer and the limiter afterwards.
  \<open>token_bucket\<close> states what the package documents of it. One call of \<open>Allow\<close> reads the clock
  once; the code reads it a second time inside \<^verbatim>\<open>limiter.Allow\<close>.
\<close>

subsection \<open>The per-address limiter\<close>

record 'l IPRateLimiter =
  limiters :: "string \<rightharpoonup> 'l"
  expiry :: "string \<rightharpoonup> instant"
  rps :: int \<comment> \<open>in tokens per minute\<close>
  burst :: int
  ttl :: duration

definition New_limiter :: "int \<Rightarrow> 'l IPRateLimiter" where
  "New_limiter requestsPerMinute =
     \<lparr>limiters = (\<lambda>_. None), expiry = (\<lambda>_. None), rps = requestsPerMinute,
      burst = requestsPerMinute, ttl = 10 * minute\<rparr>"

definition addr_ip :: "string \<Rightarrow> string" where
  "addr_ip remoteAddr = (case SplitHostPort remoteAddr of Some (ip, _) \<Rightarrow> ip | None \<Rightarrow> remoteAddr)"

definition Allow ::
  "(int \<Rightarrow> int \<Rightarrow> 'l) \<Rightarrow> (instant \<Rightarrow> 'l \<Rightarrow> bool \<times> 'l) \<Rightarrow> instant \<times> string \<Rightarrow>
   'l IPRateLimiter \<Rightarrow> bool \<times> 'l IPRateLimiter" where
  "Allow mk lim = (\<lambda>(now, remoteAddr) l.
     let ip = addr_ip remoteAddr;
         limiter = (case limiters l ip of Some x \<Rightarrow> x | None \<Rightarrow> mk (rps l) (burst l));
         l1 = l\<lparr>expiry := (expiry l)(ip \<mapsto> now + ttl l)\<rparr>;
         (ok, limiter') = lim now limiter
     in (ok, l1\<lparr>limiters := (limiters l1)(ip \<mapsto> limiter')\<rparr>))"

text \<open>One tick of the \<^verbatim>\<open>Cleanup\<close> loop.\<close>

definition Cleanup :: "instant \<Rightarrow> 'l IPRateLimiter \<Rightarrow> 'l IPRateLimiter" where
  "Cleanup now l =
     (let stale = (\<lambda>ip. case expiry l ip of Some exp \<Rightarrow> exp < now | None \<Rightarrow> False)
      in l\<lparr>limiters := (\<lambda>ip. if stale ip then None else limiters l ip),
           expiry := (\<lambda>ip. if stale ip then None else expiry l ip)\<rparr>)"

datatype rl_event = Request instant string | Tick instant

fun event_time :: "rl_event \<Rightarrow> instant" where
  "event_time (Request t _) = t"
| "event_time (Tick t) = t"

text \<open>A run: the answers to the requests, in order.\<close>

fun limiter_run ::
  "(int \<Rightarrow> int \<Rightarrow> 'l) \<Rightarrow> (instant \<Rightarrow> 'l \<Rightarrow> bool \<times> 'l) \<Rightarrow> 'l IPRateLimiter \<Rightarrow> rl_event list \<Rightarrow>
   bool list \<times> 'l IPRateLimiter" where
  "limiter_run mk lim l [] = ([], l)"
| "limiter_run mk lim l (Request t a # es) =
     (let (ok, l1) = Allow mk lim (t, a) l; (oks, l2) = limiter_run mk lim l1 es in (ok # oks, l2))"
| "limiter_run mk lim l (Tick t # es) = limiter_run mk lim (Cleanup t l) es"

subsection \<open>What the limiter package documents\<close>

text \<open>
  A limiter is a bucket of \<open>b\<close> tokens, initially full, refilled at \<open>r\<close> tokens per minute; a request
  is allowed when a token is there, and takes it. \<open>tokens t l\<close> is the content at \<open>t\<close> in
  units of one token per nanosecond and minute, so that it is an integer.
\<close>

definition token_bucket ::
  "(int \<Rightarrow> int \<Rightarrow> 'l) \<Rightarrow> (instant \<Rightarrow> 'l \<Rightarrow> bool \<times> 'l) \<Rightarrow> ('l \<Rightarrow> int \<times> int) \<Rightarrow> (instant \<Rightarrow> 'l \<Rightarrow> int) \<Rightarrow> bool" where
  "token_bucket mk lim limits tokens \<longleftrightarrow>
     (\<forall>r b. limits (mk r b) = (r, b) \<and> (\<forall>t. tokens t (mk r b) = b * minute))
     \<and> (\<forall>t l. limits (snd (lim t l)) = limits l \<and> (fst (lim t l) \<longleftrightarrow> minute \<le> tokens t l)
          \<and> tokens t (snd (lim t l)) = (if minute \<le> tokens t l then tokens t l - minute else tokens t l))
     \<and> (\<forall>t t' l r b. limits l = (r, b) \<longrightarrow> 0 \<le> r \<longrightarrow> t \<le> t' \<longrightarrow>
          tokens t' l = min (b * minute) (tokens t l + r * (t' - t)))"

subsection \<open>Specification: one bucket per address, nothing ever forgotten\<close>

text \<open>\<open>avail ip t\<close> is what the bucket of \<open>ip\<close> holds at \<open>t\<close> if no request comes before.\<close>

type_synonym buckets = "string \<Rightarrow> instant \<Rightarrow> int"

definition spec_take :: "int \<Rightarrow> instant \<Rightarrow> int \<Rightarrow> instant \<Rightarrow> int" where
  "spec_take rpm t have t' =
     min (rpm * minute) ((if minute \<le> have then have - minute else have) + rpm * (t' - t))"

fun spec_run :: "int \<Rightarrow> buckets \<Rightarrow> rl_event list \<Rightarrow> bool list" where
  "spec_run rpm av [] = []"
| "spec_run rpm av (Request t a # es) =
     (let ip = addr_ip a; have = av ip t
      in (minute \<le> have) # spec_run rpm (av(ip := spec_take rpm t have)) es)"
| "spec_run rpm av (Tick t # es) = spec_run rpm av es"

subsection \<open>Stream wrappers\<close>

text \<open>\<^verbatim>\<open>waitN l n\<close> is \<^verbatim>\<open>WaitN\<close> under the background context: an error, if any, and the limiter
  afterwards. A reader or writer is its \<^verbatim>\<open>Read\<close> or \<^verbatim>\<open>Write\<close> operation on its own state.\<close>

datatype io_error = EOF | IOError string

record ('r, 'l) rateLimited =
  rl_inner :: 'r
  rl_limiter :: 'l

definition newRateLimited :: "(int \<Rightarrow> int \<Rightarrow> 'l) \<Rightarrow> 'r \<Rightarrow> int \<Rightarrow> int \<Rightarrow> ('r, 'l) rateLimited" where
  "newRateLimited newLimiter r bytesPerSec b = \<lparr>rl_inner = r, rl_limiter = newLimiter bytesPerSec b\<rparr>"

definition rateLimitedReader_Read ::
  "('l \<Rightarrow> nat \<Rightarrow> io_error option \<times> 'l) \<Rightarrow> (nat \<Rightarrow> 'r \<Rightarrow> (bytes \<times> io_error option) \<times> 'r) \<Rightarrow> nat \<Rightarrow>
   ('r, 'l) rateLimited \<Rightarrow> (bytes \<times> io_error option) \<times> ('r, 'l) rateLimited" where
  "rateLimitedReader_Read waitN rd cap rl =
     (let ((p, err), r') = rd cap (rl_inner rl); rl1 = rl\<lparr>rl_inner := r'\<rparr>
      in if 0 < length p then
           (let (waitErr, l') = waitN (rl_limiter rl1) (length p); rl2 = rl1\<lparr>rl_limiter := l'\<rparr>
            in if waitErr \<noteq> None then ((p, waitErr), rl2) else ((p, err), rl2))
         else ((p, err), rl1))"

definition rateLimitedWriter_Write ::
  "('l \<Rightarrow> nat \<Rightarrow> io_error option \<times> 'l) \<Rightarrow> (bytes \<Rightarrow> 'w \<Rightarrow> (nat \<times> io_error option) \<times> 'w) \<Rightarrow> bytes \<Rightarrow>
   ('w, 'l) rateLimited \<Rightarrow> (nat \<times> io_error option) \<times> ('w, 'l) rateLimited" where
  "rateLimitedWriter_Write waitN wr p rl =
     (let (waitErr, l') = waitN (rl_limiter rl) (length p); rl1 = rl\<lparr>rl_limiter := l'\<rparr>
      in if waitErr \<noteq> None then ((0, waitErr), rl1)
         else (let (res, w') = wr p (rl_inner rl1) in (res, rl1\<lparr>rl_inner := w'\<rparr>)))"

text \<open>Documented of \<^verbatim>\<open>WaitN\<close> without a deadline: it fails exactly when more is asked for than the
  burst, and a limiter keeps its burst.\<close>

definition waits :: "('l \<Rightarrow> nat \<Rightarrow> io_error option \<times> 'l) \<Rightarrow> ('l \<Rightarrow> int) \<Rightarrow> bool" where
  "waits waitN burst_of \<longleftrightarrow> (\<forall>l n. (fst (waitN l n) = None \<longleftrightarrow> int n \<le> burst_of l)
     \<and> burst_of (snd (waitN l n)) = burst_of l)"

lemma waits_None: "waits waitN burst_of \<Longrightarrow> int n \<le> burst_of l \<Longrightarrow> fst (waitN l n) = None"
  and waits_burst: "waits waitN burst_of \<Longrightarrow> burst_of (snd (waitN l n)) = burst_of l"
  by (simp_all add: waits_def)

lemma rateLimitedReader_transparent:
  assumes "waits waitN burst_of" "int (length (fst (fst (rd cap (rl_inner rl))))) \<le> burst_of (rl_limiter rl)"
  shows "fst (rateLimitedReader_Read waitN rd cap rl) = fst (rd cap (rl_inner rl))"
    and "rl_inner (snd (rateLimitedReader_Read waitN rd cap rl)) = snd (rd cap (rl_inner rl))"
    and "burst_of (rl_limiter (snd (rateLimitedReader_Read waitN rd cap rl))) = burst_of (rl_limiter rl)"
  using waits_None [OF assms] waits_burst [OF assms(1)]
  by (simp_all add: rateLimitedReader_Read_def Let_def case_prod_beta prod_eq_iff)

lemma rateLimitedWriter_transparent:
  assumes "waits waitN burst_of" "int (length p) \<le> burst_of (rl_limiter rl)"
  shows "fst (rateLimitedWriter_Write waitN wr p rl) = fst (wr p (rl_inner rl))"
    and "rl_inner (snd (rateLimitedWriter_Write waitN wr p rl)) = snd (wr p (rl_inner rl))"
    and "burst_of (rl_limiter (snd (rateLimitedWriter_Write waitN wr p rl))) = burst_of (rl_limiter rl)"
  using waits_None [OF assms] waits_burst [OF assms(1)]
  by (simp_all add: rateLimitedWriter_Write_def Let_def case_prod_beta)

text \<open>A write larger than the burst is refused before anything is written.\<close>

lemma rateLimitedWriter_too_large:
  assumes "waits waitN burst_of" "burst_of (rl_limiter rl) < int (length p)"
  shows "rl_inner (snd (rateLimitedWriter_Write waitN wr p rl)) = rl_inner rl"
    and "fst (fst (rateLimitedWriter_Write waitN wr p rl)) = 0"
    and "snd (fst (rateLimitedWriter_Write waitN wr p rl)) \<noteq> None"
  using assms
  by (simp_all add: rateLimitedWriter_Write_def waits_def Let_def case_prod_beta)

subsection \<open>Invariants and isolation\<close>

definition limiter_ok :: "'l IPRateLimiter \<Rightarrow> bool" where
  "limiter_ok l \<longleftrightarrow> dom (limiters l) = dom (expiry l) \<and> ttl l = 10 * minute \<and> burst l = rps l"

lemma limiter_ok_New [simp]: "limiter_ok (New_limiter n)"
  by (simp add: limiter_ok_def New_limiter_def)

lemma limiter_ok_Allow: "limiter_ok l \<Longrightarrow> limiter_ok (snd (Allow mk lim x l))"
  by (cases x) (simp add: limiter_ok_def Allow_def Let_def split: prod.split)

lemma limiter_ok_Cleanup: "limiter_ok l \<Longrightarrow> limiter_ok (Cleanup now l)"
  by (auto simp: limiter_ok_def Cleanup_def Let_def dom_def set_eq_iff split: option.splits)

text \<open>What the limiter keeps about one address.\<close>

definition ip_view :: "'l IPRateLimiter \<Rightarrow> string \<Rightarrow> 'l option \<times> instant option \<times> int \<times> int \<times> duration" where
  "ip_view l ip = (limiters l ip, expiry l ip, rps l, burst l, ttl l)"

interpretation per_ip: keyed_machine "Allow mk lim" "\<lambda>x. addr_ip (snd x)" ip_view limiter_ok
  for mk :: "int \<Rightarrow> int \<Rightarrow> 'l" and lim
proof
  show "limiter_ok s \<Longrightarrow> limiter_ok (snd (Allow mk lim i s))" for s i
    by (rule limiter_ok_Allow)
qed (auto simp: Allow_def ip_view_def Let_def case_prod_beta cong: option.case_cong)

subsection \<open>Simulation\<close>

definition content :: "(instant \<Rightarrow> 'l \<Rightarrow> int) \<Rightarrow> int \<Rightarrow> 'l option \<Rightarrow> instant \<Rightarrow> int" where
  "content tokens rpm x t = (case x of Some l \<Rightarrow> tokens t l | None \<Rightarrow> rpm * minute)"

text \<open>At \<open>now\<close>, every address has in the implementation what it has in the specification, and an
  entry was last used ten minutes before its expiry, when it held no negative number of tokens.\<close>

definition sim ::
  "('l \<Rightarrow> int \<times> int) \<Rightarrow> (instant \<Rightarrow> 'l \<Rightarrow> int) \<Rightarrow> int \<Rightarrow> instant \<Rightarrow> 'l IPRateLimiter \<Rightarrow> buckets \<Rightarrow> bool" where
  "sim limits tokens rpm now l av \<longleftrightarrow> limiter_ok l \<and> rps l = rpm
     \<and> (\<forall>ip. \<forall>t \<ge> now. content tokens rpm (limiters l ip) t = av ip t)
     \<and> (\<forall>ip x e. limiters l ip = Some x \<longrightarrow> expiry l ip = Some e \<longrightarrow>
          limits x = (rpm, rpm) \<and> e - ttl l \<le> now \<and> 0 \<le> tokens (e - ttl l) x)"

lemma sim_New: "sim limits tokens rpm now (New_limiter rpm) (\<lambda>_ _. rpm * minute)"
  by (simp add: sim_def content_def New_limiter_def limiter_ok_def)

lemma sim_later: "sim limits tokens rpm now l av \<Longrightarrow> now \<le> t \<Longrightarrow> sim limits tokens rpm t l av"
  unfolding sim_def by fastforce

lemma bucket_refill:
  assumes "token_bucket mk lim limits tokens" "limits x = (r, b)" "0 \<le> r" "t \<le> t'"
  shows "tokens t' x = min (b * minute) (tokens t x + r * (t' - t))"
  using assms by (simp add: token_bucket_def)

lemma sim_limiter:
  fixes ip :: string
  assumes tb: "token_bucket mk lim limits tokens" and rpm: "0 \<le> rpm" and s: "sim limits tokens rpm t l av"
  defines "x \<equiv> (case limiters l ip of Some x \<Rightarrow> x | None \<Rightarrow> mk (rps l) (burst l))"
  shows "tokens t x = av ip t" "limits x = (rpm, rpm)" "0 \<le> tokens t x"
proof -
  have lr: "rps l = rpm" "burst l = rpm" using s by (simp_all add: sim_def limiter_ok_def)
  show "tokens t x = av ip t"
  proof -
    have "content tokens rpm (limiters l ip) t = av ip t" using s by (simp add: sim_def)
    then show ?thesis using tb lr
      by (auto simp: x_def content_def token_bucket_def split: option.splits)
  qed
  show lim: "limits x = (rpm, rpm)"
  proof (cases "limiters l ip")
    case None then show ?thesis using tb lr by (simp add: x_def token_bucket_def)
  next
    case (Some y)
    then have "ip \<in> dom (expiry l)" using s unfolding sim_def limiter_ok_def by (metis domI)
    then show ?thesis using s Some by (auto simp: x_def sim_def)
  qed
  show "0 \<le> tokens t x"
  proof (cases "limiters l ip")
    case None then show ?thesis using tb lr rpm by (simp add: x_def token_bucket_def)
  next
    case (Some y)
    then have "ip \<in> dom (expiry l)" using s unfolding sim_def limiter_ok_def by (metis domI)
    then obtain e where e: "e - ttl l \<le> t" "0 \<le> tokens (e - ttl l) y" using s Some unfolding sim_def by blast
    have "tokens t y = min (rpm * minute) (tokens (e - ttl l) y + rpm * (t - (e - ttl l)))"
      using bucket_refill [OF tb _ rpm e(1)] lim Some by (simp add: x_def)
    then show ?thesis using e rpm Some by (simp add: x_def)
  qed
qed

lemma sim_Allow:
  fixes a :: string
  assumes tb: "token_bucket mk lim limits tokens" and rpm: "0 \<le> rpm" and s: "sim limits tokens rpm t l av"
  defines "ip \<equiv> addr_ip a"
  shows "fst (Allow mk lim (t, a) l) \<longleftrightarrow> minute \<le> av ip t"
    and "sim limits tokens rpm t (snd (Allow mk lim (t, a) l)) (av(ip := spec_take rpm t (av ip t)))"
proof -
  define x where "x = (case limiters l ip of Some x \<Rightarrow> x | None \<Rightarrow> mk (rps l) (burst l))"
  note sx = sim_limiter [OF tb rpm s, of ip, folded x_def]
  obtain ok x' where lx: "lim t x = (ok, x')" by fastforce
  have x': "limits x' = (rpm, rpm)" "ok \<longleftrightarrow> minute \<le> av ip t"
    "tokens t x' = (if minute \<le> av ip t then av ip t - minute else av ip t)"
    using tb sx lx unfolding token_bucket_def by (metis fst_conv snd_conv)+
  have eq: "Allow mk lim (t, a) l =
    (ok, l\<lparr>expiry := (expiry l)(ip \<mapsto> t + ttl l), limiters := (limiters l)(ip \<mapsto> x')\<rparr>)"
    using lx by (simp add: Allow_def ip_def [symmetric] x_def [symmetric])
  then show "fst (Allow mk lim (t, a) l) \<longleftrightarrow> minute \<le> av ip t" using x' by simp
  have later: "tokens t' x' = spec_take rpm t (av ip t) t'" if "t \<le> t'" for t'
    using bucket_refill [OF tb x'(1) rpm that] x'(3) by (simp add: spec_take_def)
  have pos: "0 \<le> tokens t x'" using x'(3) sx by simp
  have "limiter_ok (snd (Allow mk lim (t, a) l))" using s by (simp add: sim_def limiter_ok_Allow)
  then show "sim limits tokens rpm t (snd (Allow mk lim (t, a) l)) (av(ip := spec_take rpm t (av ip t)))"
    using s later pos x'(1) unfolding eq sim_def by (simp add: content_def)
qed

lemma sim_Cleanup:
  assumes tb: "token_bucket mk lim limits tokens" and rpm: "0 \<le> rpm" and s: "sim limits tokens rpm t l av"
  shows "sim limits tokens rpm t (Cleanup t l) av"
proof -
  have full: "tokens t' x = rpm * minute"
    if x: "limiters l ip = Some x" "expiry l ip = Some e" "e < t" "t \<le> t'" for ip x e t'
  proof -
    have lim: "limits x = (rpm, rpm)" "0 \<le> tokens (e - ttl l) x" using s x by (simp_all add: sim_def)
    have ttl: "ttl l = 10 * minute" using s by (simp add: sim_def limiter_ok_def)
    have "tokens t' x = min (rpm * minute) (tokens (e - ttl l) x + rpm * (t' - (e - ttl l)))"
      by (rule bucket_refill [OF tb lim(1) rpm]) (use x ttl in simp)
    moreover have "rpm * minute \<le> rpm * (t' - (e - ttl l))"
      by (rule mult_left_mono) (use x ttl rpm in simp_all)
    ultimately show ?thesis using lim(2) by linarith
  qed
  have "content tokens rpm (limiters (Cleanup t l) ip) t' = av ip t'" if "t \<le> t'" for ip t'
  proof -
    have same: "content tokens rpm (limiters l ip) t' = av ip t'" using s that by (simp add: sim_def)
    show ?thesis
    proof (cases "\<exists>e. expiry l ip = Some e \<and> e < t")
      case True
      then obtain e x where e: "expiry l ip = Some e" "e < t" "limiters l ip = Some x"
        using s unfolding sim_def limiter_ok_def by (metis domD domI)
      then have "av ip t' = rpm * minute" using full that same by (simp add: content_def)
      then show ?thesis using e by (simp add: Cleanup_def content_def)
    next
      case False
      then show ?thesis using same by (auto simp: Cleanup_def split: option.splits)
    qed
  qed
  then show ?thesis using s limiter_ok_Cleanup [of l t]
    unfolding sim_def by (auto simp: Cleanup_def Let_def split: if_splits option.splits)
qed

subsection \<open>Properties\<close>

text \<open>C23. The limiter implements one token bucket per source address, whatever the interleaving of the
  requests of all addresses and of the cleanup ticks: forgetting idle entries never changes an
  answer.\<close>

theorem limiter_refines_buckets:
  assumes "token_bucket mk lim limits tokens" "0 \<le> rpm" "sorted (map event_time es)"
  shows "fst (limiter_run mk lim (New_limiter rpm) es) = spec_run rpm (\<lambda>_ _. rpm * minute) es"
proof -
  have "fst (limiter_run mk lim l es) = spec_run rpm av es"
    if "sim limits tokens rpm t l av" "\<forall>e \<in> set es. t \<le> event_time e" for t l av
    using that assms(3)
  proof (induction es arbitrary: t l av)
    case (Cons e es)
    show ?case
    proof (cases e)
      case (Request u a)
      have s: "sim limits tokens rpm u l av" using sim_later Cons.prems(1,2) Request by fastforce
      note sa = sim_Allow [OF assms(1,2) s, of a]
      show ?thesis using Cons.IH [OF sa(2)] sa(1) Cons.prems(3) Request
        by (simp add: Let_def case_prod_beta fun_upd_def)
    next
      case (Tick u)
      have "sim limits tokens rpm u l av" using sim_later Cons.prems(1,2) Tick by fastforce
      from Cons.IH [OF sim_Cleanup [OF assms(1,2) this]] show ?thesis
        using Cons.prems(3) Tick by simp
    qed
  qed simp
  note run = this
  show ?thesis
  proof (cases es)
    case (Cons e es')
    then have "\<forall>x \<in> set es. event_time e \<le> event_time x" using assms(3) by auto
    then show ?thesis using run [OF sim_New] by blast
  qed simp
qed

definition demo_tokens :: "instant \<Rightarrow> int \<times> int \<times> (int \<times> instant) option \<Rightarrow> int" where
  "demo_tokens t = (\<lambda>(r, b, x). case x of None \<Rightarrow> b * minute
     | Some (n, u) \<Rightarrow> min (b * minute) (n + r * (t - u)))"

definition demo_lim ::
  "instant \<Rightarrow> int \<times> int \<times> (int \<times> instant) option \<Rightarrow> bool \<times> int \<times> int \<times> (int \<times> instant) option" where
  "demo_lim t l = (let have = demo_tokens t l; ok = minute \<le> have
     in (ok, fst l, fst (snd l), Some (if ok then have - minute else have, t)))"

lemma demo_tokens_le: "demo_tokens t (r, b, x) \<le> b * minute"
  by (auto simp: demo_tokens_def split: option.split)

lemma demo_tokens_refill:
  assumes "0 \<le> r" "t \<le> t'"
  shows "demo_tokens t' (r, b, x) = min (b * minute) (demo_tokens t (r, b, x) + r * (t' - t))"
proof -
  have pos: "0 \<le> r * (t' - t)" using assms by simp
  have "r * (t' - u) = r * (t - u) + r * (t' - t)" for u by (simp add: algebra_simps)
  moreover have "min c (n + (y + z)) = min c (min c (n + y) + z)" if "0 \<le> z" for c n y z :: int
    using that by linarith
  ultimately have "min c (n + r * (t' - u)) = min c (min c (n + r * (t - u)) + r * (t' - t))" for c n u
    using pos by metis
  with pos show ?thesis by (auto simp: demo_tokens_def split: option.split)
qed

lemma demo_bucket:
  "token_bucket (\<lambda>r b. (r, b, None)) demo_lim (\<lambda>l. (fst l, fst (snd l))) demo_tokens"
proof -
  have "demo_tokens t (r, b, Some (n, t)) = n" if "n \<le> b * minute" for t r b n
    using that by (simp add: demo_tokens_def)
  then have "demo_tokens t (snd (demo_lim t l)) =
    (if minute \<le> demo_tokens t l then demo_tokens t l - minute else demo_tokens t l)" for t l
    using demo_tokens_le [of t "fst l" "fst (snd l)" "snd (snd l)"] by (simp add: demo_lim_def Let_def)
  moreover have "demo_tokens t (r, b, None) = b * minute" for t r b by (simp add: demo_tokens_def)
  moreover have "demo_tokens t' l = min (b * minute) (demo_tokens t l + r * (t' - t))"
    if "(fst l, fst (snd l)) = (r, b)" "0 \<le> r" "t \<le> t'" for t t' l r b
    using demo_tokens_refill [OF that(2,3), of b "snd (snd l)"] that(1) by auto
  ultimately show ?thesis
    unfolding token_bucket_def by (auto simp: demo_lim_def Let_def)
qed

theorem limiter_refines_buckets_witness:
  "fst (limiter_run (\<lambda>r b. (r, b, None)) demo_lim (New_limiter 1)
      [Request 0 ''10.0.0.1:5000'', Request 1 ''10.0.0.1:5001'', Request 2 ''10.0.0.2:1'', Tick 660000000000,
       Request 660000000001 ''10.0.0.1:5002''])
   = spec_run 1 (\<lambda>_ _. 1 * minute)
      [Request 0 ''10.0.0.1:5000'', Request 1 ''10.0.0.1:5001'', Request 2 ''10.0.0.2:1'', Tick 660000000000,
       Request 660000000001 ''10.0.0.1:5002'']"
  by (rule limiter_refines_buckets [OF demo_bucket]) simp_all

text \<open>No address can use up the quota of another: in any interleaving of connection attempts, and
  for any limiter, the answers given to one address are exactly those it would get if it were
  alone. The port does not count.\<close>

theorem limiter_isolates_addresses:
  assumes "limiter_ok l"
  shows "filter (\<lambda>x. addr_ip (snd (fst x)) = ip) (fst (run_steps (Allow mk lim) l reqs)) =
    fst (run_steps (Allow mk lim) l (filter (\<lambda>x. addr_ip (snd x) = ip) reqs))"
  by (rule per_ip.isolation [OF assms])

theorem limiter_isolates_addresses_witness:
  "filter (\<lambda>x. addr_ip (snd (fst x)) = ''10.0.0.1'')
     (fst (run_steps (Allow (\<lambda>r b. (r, b, None)) demo_lim) (New_limiter 2)
       [(0, ''10.0.0.1:5000''), (1, ''10.0.0.2:7''), (2, ''10.0.0.1:5001'')])) =
   fst (run_steps (Allow (\<lambda>r b. (r, b, None)) demo_lim) (New_limiter 2)
     (filter (\<lambda>x. addr_ip (snd x) = ''10.0.0.1'') [(0, ''10.0.0.1:5000''), (1, ''10.0.0.2:7''), (2, ''10.0.0.1:5001'')]))"
  by (rule limiter_isolates_addresses) simp

end
