(* ===== verification/Zttp_Session.thy ===== *)
theory Zttp_Session
  imports Zttp_Database Zttp_Net "HOL-Library.Char_ord" "HOL-Library.List_Lexorder" "HOL-Library.Multiset"
begin

text \<open>
  The session registry, \<^verbatim>\<open>internal/session/store.go\<close> and \<^verbatim>\<open>cleanup.go\<close>: the rows of
  \<^verbatim>\<open>active_sessions\<close> and their life cycle. The input syntax of \<^verbatim>\<open>INET\<close> is a parameter
  \<open>inet_in\<close> (the cast \<^verbatim>\<open>$1::inet\<close>, \<open>None\<close> when the server rejects the text). Host names
  are ordered bytewise, the collation of the deployment's database image.
\<close>

subsection \<open>Model\<close>

definition StatusActive :: string where "StatusActive = ''active''"
definition StatusTerminated :: string where "StatusTerminated = ''terminated''"
definition StatusTerminatedTimeout :: string where "StatusTerminatedTimeout = ''terminated-timeout''"
definition StatusTerminatedKill :: string where "StatusTerminatedKill = ''terminated-kill''"

lemmas status_defs = StatusActive_def StatusTerminated_def StatusTerminatedTimeout_def StatusTerminatedKill_def

record SessionRecord =
  sr_SessionID :: uuid
  sr_UserID :: uuid
  sr_ServerID :: uuid
  sr_ProxyNodeIP :: IP
  sr_StartTime :: instant
  sr_Status :: string
  sr_Username :: string
  sr_Hostname :: string

definition Register ::
  "(string \<Rightarrow> inet option) \<Rightarrow> instant \<Rightarrow> uuid \<Rightarrow> uuid \<Rightarrow> uuid \<Rightarrow> IP \<Rightarrow> unit sql" where
  "Register inet_in now sessionID userID serverID proxyNodeIP = run_stmt (\<lambda>d.
     case inet_in (IP_String proxyNodeIP) of
       None \<Rightarrow> (Inl BadInput, d)
     | Some node \<Rightarrow>
         (if sessionID \<in> a_session_id ` set (sessions d) \<or> userID \<notin> u_id ` set (users d)
             \<or> serverID \<notin> s_id ` set (servers d)
          then (Inl ConstraintViolation, d)
          else (Inr (), d\<lparr>sessions := sessions d @
            [\<lparr>a_session_id = sessionID, a_user_id = userID, a_server_id = serverID,
              a_proxy_node_ip = node, a_start_time = now, a_status = ''active''\<rparr>]\<rparr>)))"

definition set_status :: "(session_row \<Rightarrow> bool) \<Rightarrow> string \<Rightarrow> db \<Rightarrow> db" where
  "set_status P status d = d\<lparr>sessions := map (\<lambda>a. if P a then a\<lparr>a_status := status\<rparr> else a) (sessions d)\<rparr>"

definition Terminate :: "uuid \<Rightarrow> string \<Rightarrow> unit sql" where
  "Terminate sessionID status = run_stmt (\<lambda>d.
     if status \<notin> session_statuses \<and> sessionID \<in> a_session_id ` set (sessions d)
     then (Inl ConstraintViolation, d)
     else (Inr (), set_status (\<lambda>a. a_session_id a = sessionID) status d))"

definition session_record :: "session_row \<Rightarrow> string \<Rightarrow> string \<Rightarrow> SessionRecord" where
  "session_record a username hostname =
     \<lparr>sr_SessionID = a_session_id a, sr_UserID = a_user_id a, sr_ServerID = a_server_id a,
      sr_ProxyNodeIP = ParseIP (pg_text (a_proxy_node_ip a)), sr_StartTime = a_start_time a,
      sr_Status = a_status a, sr_Username = username, sr_Hostname = hostname\<rparr>"

definition GetActiveByProxyNode :: "(string \<Rightarrow> inet option) \<Rightarrow> string \<Rightarrow> SessionRecord list sql" where
  "GetActiveByProxyNode inet_in proxyIP = query (\<lambda>d.
     case inet_in proxyIP of
       None \<Rightarrow> Inl BadInput
     | Some node \<Rightarrow> Inr (map (\<lambda>a. session_record a [] [])
         (filter (\<lambda>a. a_status a = ''active'' \<and> a_proxy_node_ip a = node) (sessions d))))"

text \<open>The joins of a session with its user and its server.\<close>

definition joined :: "db \<Rightarrow> session_row list \<Rightarrow> (session_row \<times> SessionRecord) list" where
  "joined d as = [(a, session_record a (u_username u) (s_hostname s)).
     a \<leftarrow> as, u \<leftarrow> users d, s \<leftarrow> servers d, u_id u = a_user_id a \<and> s_id s = a_server_id a]"

definition newest_first :: "(session_row \<times> SessionRecord) list \<Rightarrow> SessionRecord list" where
  "newest_first rs = map snd (sort_key (\<lambda>r. Desc (a_start_time (fst r))) rs)"

definition ListAllActive :: "SessionRecord list sql" where
  "ListAllActive = query (\<lambda>d.
     Inr (newest_first (joined d (filter (\<lambda>a. a_status a = ''active'') (sessions d)))))"

record ServerSummary =
  ss_ID :: uuid
  ss_Hostname :: string
  ss_Environment :: string

definition ListServersWithSessions :: "ServerSummary list sql" where
  "ListServersWithSessions = query (\<lambda>d.
     Inr (sort_key ss_Hostname (remdups
       [\<lparr>ss_ID = s_id s, ss_Hostname = s_hostname s, ss_Environment = s_environment s\<rparr>.
        s \<leftarrow> servers d, a \<leftarrow> sessions d, a_server_id a = s_id s])))"

definition ListSessionsByServer :: "uuid \<Rightarrow> SessionRecord list sql" where
  "ListSessionsByServer serverID = query (\<lambda>d.
     Inr (take 50 (newest_first (joined d (filter (\<lambda>a. a_server_id a = serverID) (sessions d))))))"

definition CleanupOrphanedSessions :: "(string \<Rightarrow> inet option) \<Rightarrow> string \<Rightarrow> unit sql" where
  "CleanupOrphanedSessions inet_in proxyNodeIP = run_stmt (\<lambda>d.
     case inet_in proxyNodeIP of
       None \<Rightarrow> (Inl BadInput, d)
     | Some node \<Rightarrow>
         (Inr (), set_status (\<lambda>a. a_proxy_node_ip a = node \<and> a_status a = ''active'') ''terminated'' d))"

text \<open>The operations that change a row, as a client sees them.\<close>

datatype session_op =
  OpRegister instant uuid uuid uuid IP
| OpTerminate uuid string

fun op_session :: "session_op \<Rightarrow> uuid" where
  "op_session (OpRegister _ sid _ _ _) = sid"
| "op_session (OpTerminate sid _) = sid"

fun session_step :: "(string \<Rightarrow> inet option) \<Rightarrow> session_op \<Rightarrow> unit sql" where
  "session_step inet_in (OpRegister now sid uid srv ip) = Register inet_in now sid uid srv ip"
| "session_step inet_in (OpTerminate sid status) = Terminate sid status"

subsection \<open>The invariant\<close>

lemma schema_ok_sessions:
  "schema_ok d \<Longrightarrow> distinct (map a_session_id as) \<Longrightarrow>
   \<forall>a \<in> set as. a_user_id a \<in> u_id ` set (users d) \<and> a_server_id a \<in> s_id ` set (servers d)
     \<and> a_status a \<in> session_statuses \<Longrightarrow> schema_ok (d\<lparr>sessions := as\<rparr>)"
  by (simp add: schema_ok_def)

lemma active_in_statuses [simp]: "''active'' \<in> session_statuses" "''terminated'' \<in> session_statuses"
  "''terminated-timeout'' \<in> session_statuses" "''terminated-kill'' \<in> session_statuses"
  by (simp_all add: session_statuses_def)

lemma set_status_ids: "map a_session_id (sessions (set_status P st d)) = map a_session_id (sessions d)"
  by (auto simp: set_status_def)

lemma schema_ok_set_status:
  assumes "schema_ok d" "st \<in> session_statuses \<or> (\<forall>a \<in> set (sessions d). \<not> P a)"
  shows "schema_ok (set_status P st d)"
  unfolding set_status_def
  using assms by (intro schema_ok_sessions) (auto simp: schema_ok_def o_def distinct_map inj_on_def)

lemma schema_ok_run_stmt:
  assumes "schema_ok d" "\<And>xs. schema_ok (snd (f (d\<lparr>outages := xs\<rparr>)))"
  shows "schema_ok (snd (run_stmt f d))"
proof (cases "outages d")
  case Nil
  then show ?thesis using assms(2) [of "[]"] by (simp add: run_stmt_def outages_same)
next
  case (Cons x xs)
  then show ?thesis using assms by (simp add: run_stmt_def)
qed

lemma schema_ok_Register: "schema_ok d \<Longrightarrow> schema_ok (snd (Register inet_in now sid uid srv ip d))"
  unfolding Register_def
  by (rule schema_ok_run_stmt) (auto simp: schema_ok_def split: option.split)

lemma schema_ok_Terminate: "schema_ok d \<Longrightarrow> schema_ok (snd (Terminate sid st d))"
  unfolding Terminate_def
  by (rule schema_ok_run_stmt) (auto intro!: schema_ok_set_status)

lemma schema_ok_Cleanup: "schema_ok d \<Longrightarrow> schema_ok (snd (CleanupOrphanedSessions inet_in ip d))"
  unfolding CleanupOrphanedSessions_def
  by (rule schema_ok_run_stmt) (auto intro!: schema_ok_set_status split: option.split)

lemma up_Register: "outages d = [] \<Longrightarrow> outages (snd (Register inet_in now sid uid srv ip d)) = []"
  by (simp add: Register_def run_stmt_up split: option.split)

lemma up_Terminate: "outages d = [] \<Longrightarrow> outages (snd (Terminate sid st d)) = []"
  by (simp add: Terminate_def run_stmt_up set_status_def)

definition session_inv :: "db \<Rightarrow> bool" where
  "session_inv d \<longleftrightarrow> schema_ok d \<and> outages d = []"

text \<open>What the registry holds about one session, with the tables a registration refers to.\<close>

definition session_view :: "db \<Rightarrow> uuid \<Rightarrow> session_row list \<times> user_row list \<times> server_row list" where
  "session_view d sid = (filter (\<lambda>a. a_session_id a = sid) (sessions d), users d, servers d)"

lemma filter_set_status_other:
  "sid \<noteq> k \<Longrightarrow> filter (\<lambda>a. a_session_id a = k) (map (\<lambda>a. if a_session_id a = sid then a\<lparr>a_status := st\<rparr> else a) as)
    = filter (\<lambda>a. a_session_id a = k) as"
  by (induction as) auto

lemma filter_set_status_own:
  "filter (\<lambda>a. a_session_id a = sid) (map (\<lambda>a. if a_session_id a = sid then a\<lparr>a_status := st\<rparr> else a) as)
    = map (\<lambda>a. a\<lparr>a_status := st\<rparr>) (filter (\<lambda>a. a_session_id a = sid) as)"
  by (induction as) auto

lemma session_known: "sid \<in> a_session_id ` set as \<longleftrightarrow> filter (\<lambda>a. a_session_id a = sid) as \<noteq> []"
  by (auto simp: filter_empty_conv)

interpretation per_session: keyed_machine "session_step inet_in" op_session session_view session_inv
  for inet_in
proof
  fix s t :: db and i k
  show "session_inv s \<Longrightarrow> session_inv (snd (session_step inet_in i s))"
    by (cases i) (simp_all add: session_inv_def schema_ok_Register schema_ok_Terminate up_Register up_Terminate)
  show "session_inv s \<Longrightarrow> op_session i \<noteq> k \<Longrightarrow> session_view (snd (session_step inet_in i s)) k = session_view s k"
    by (cases i) (auto simp: session_inv_def session_view_def Register_def Terminate_def run_stmt_up set_status_def
        filter_set_status_other split: option.split)
  assume *: "session_inv s" "session_inv t" "session_view s (op_session i) = session_view t (op_session i)"
  then show "fst (session_step inet_in i s) = fst (session_step inet_in i t)"
    by (cases i) (auto simp: session_inv_def session_view_def Register_def Terminate_def run_stmt_up
        session_known split: option.split)
  show "session_view (snd (session_step inet_in i s)) (op_session i) = session_view (snd (session_step inet_in i t)) (op_session i)"
    using * by (cases i) (auto simp: session_inv_def session_view_def Register_def Terminate_def run_stmt_up set_status_def
        session_known filter_set_status_own split: option.split)
qed

subsection \<open>Joins\<close>

definition user_name :: "db \<Rightarrow> uuid \<Rightarrow> string" where
  "user_name d uid = u_username (the (find (\<lambda>u. u_id u = uid) (users d)))"

definition host_name :: "db \<Rightarrow> uuid \<Rightarrow> string" where
  "host_name d sid = s_hostname (the (find (\<lambda>s. s_id s = sid) (servers d)))"

lemma concat_map_unique:
  assumes "distinct (map f xs)" "k \<in> f ` set xs"
  shows "concat (map (\<lambda>x. if f x = k then g x else []) xs) = g (the (find (\<lambda>x. f x = k) xs))"
  using assms
proof (induction xs)
  case (Cons x xs)
  show ?case
  proof (cases "f x = k")
    case True
    then have "\<forall>y \<in> set xs. f y \<noteq> k" using Cons.prems(1) by (metis distinct.simps(2) image_eqI list.map(2) set_map)
    then have "concat (map (\<lambda>x. if f x = k then g x else []) xs) = []" by simp
    then show ?thesis using True by simp
  next
    case False
    then show ?thesis using Cons by auto
  qed
qed simp

lemma joined_eq:
  assumes "schema_ok d" "set as \<subseteq> set (sessions d)"
  shows "joined d as = map (\<lambda>a. (a, session_record a (user_name d (a_user_id a)) (host_name d (a_server_id a)))) as"
proof -
  have one: "[(a, session_record a (u_username u) (s_hostname s)). u \<leftarrow> users d, s \<leftarrow> servers d,
      u_id u = a_user_id a \<and> s_id s = a_server_id a]
    = [(a, session_record a (user_name d (a_user_id a)) (host_name d (a_server_id a)))]"
    if "a \<in> set as" for a
  proof -
    have k: "distinct (map u_id (users d))" "distinct (map s_id (servers d))"
      "a_user_id a \<in> u_id ` set (users d)" "a_server_id a \<in> s_id ` set (servers d)"
      using assms that by (auto simp: schema_ok_def)
    have inner: "concat (map (\<lambda>s. if P \<and> s_id s = a_server_id a then [h s] else []) (servers d)) =
      (if P then [h (the (find (\<lambda>s. s_id s = a_server_id a) (servers d)))] else [])" for P and h :: "server_row \<Rightarrow> session_row \<times> SessionRecord"
      using concat_map_unique [OF k(2,4), of "\<lambda>s. [h s]"] by simp
    show ?thesis unfolding inner
      using concat_map_unique [OF k(1,3), of "\<lambda>u. [(a, session_record a (u_username u) (host_name d (a_server_id a)))]"]
      by (simp add: host_name_def user_name_def cong: if_cong)
  qed
  then show ?thesis unfolding joined_def
    by (induction as) auto
qed

lemma newest_first_sorted:
  "sorted_wrt (\<lambda>r r'. sr_StartTime r' \<le> sr_StartTime r) (newest_first (map (\<lambda>a. (a, session_record a (f a) (g a))) as))"
proof -
  let ?rs = "sort_key (\<lambda>r. Desc (a_start_time (fst r))) (map (\<lambda>a. (a, session_record a (f a) (g a))) as)"
  have t: "sr_StartTime (snd r) = a_start_time (fst r)" if "r \<in> set ?rs" for r
    using that by (auto simp: session_record_def)
  have "sorted_wrt (\<lambda>r r'. a_start_time (fst r') \<le> a_start_time (fst r)) ?rs"
    using sorted_sort_key [of "\<lambda>r. Desc (a_start_time (fst r))"] unfolding sorted_map Desc_le_iff .
  then have "sorted_wrt (\<lambda>r r'. sr_StartTime (snd r') \<le> sr_StartTime (snd r)) ?rs"
    by (rule sorted_wrt_mono_rel [rotated]) (simp only: t)
  then show ?thesis by (simp only: newest_first_def sorted_wrt_map)
qed

lemma filter_orphans:
  "filter (\<lambda>a. a_status a = ''active'' \<and> a_proxy_node_ip a = n)
     (map (\<lambda>a. if a_proxy_node_ip a = node \<and> a_status a = ''active'' then a\<lparr>a_status := ''terminated''\<rparr> else a) as) =
   (if n = node then [] else filter (\<lambda>a. a_status a = ''active'' \<and> a_proxy_node_ip a = n) as)"
proof (cases "n = node")
  case True
  show ?thesis unfolding True by (induction as) auto
next
  case False
  then show ?thesis by (induction as) auto
qed

subsection \<open>Properties\<close>

text \<open>C31. Life cycle: a registered session is listed as active on its node, terminating it with any
  final status removes it from that list, and after both the list is what it was before.\<close>

theorem session_lifecycle:
  assumes "outages d = []" "inet_in (IP_String ip) = Some node" "inet_in proxyIP = Some node"
    and "sid \<notin> a_session_id ` set (sessions d)" "uid \<in> u_id ` set (users d)" "srv \<in> s_id ` set (servers d)"
    and "status \<in> session_statuses" "status \<noteq> ''active''"
  shows "\<exists>d1 d2 rs. Register inet_in now sid uid srv ip d = (Inr (), d1)
    \<and> GetActiveByProxyNode inet_in proxyIP d1 = (Inr rs, d1) \<and> sid \<in> sr_SessionID ` set rs
    \<and> Terminate sid status d1 = (Inr (), d2)
    \<and> fst (GetActiveByProxyNode inet_in proxyIP d2) = fst (GetActiveByProxyNode inet_in proxyIP d)
    \<and> status = a_status (last (sessions d2))"
proof -
  define a where "a = \<lparr>a_session_id = sid, a_user_id = uid, a_server_id = srv,
    a_proxy_node_ip = node, a_start_time = now, a_status = ''active''\<rparr>"
  have R: "Register inet_in now sid uid srv ip d = (Inr (), d\<lparr>sessions := sessions d @ [a]\<rparr>)"
    using assms by (simp add: Register_def run_stmt_up a_def)
  have other: "map (\<lambda>x. if a_session_id x = sid then x\<lparr>a_status := status\<rparr> else x) (sessions d) = sessions d"
    using assms(4) by (intro map_idI) auto
  have T: "Terminate sid status (d\<lparr>sessions := sessions d @ [a]\<rparr>) = (Inr (), d\<lparr>sessions := sessions d @ [a\<lparr>a_status := status\<rparr>]\<rparr>)"
    using assms other by (simp add: Terminate_def run_stmt_up set_status_def a_def)
  let ?rs = "\<lambda>xs. map (\<lambda>a. session_record a [] []) (filter (\<lambda>a. a_status a = ''active'' \<and> a_proxy_node_ip a = node) xs)"
  have G: "GetActiveByProxyNode inet_in proxyIP (d\<lparr>sessions := xs\<rparr>) = (Inr (?rs xs), d\<lparr>sessions := xs\<rparr>)" for xs
    using assms(1,3) by (simp add: GetActiveByProxyNode_def query_up)
  have "sid \<in> sr_SessionID ` set (?rs (sessions d @ [a]))" by (simp add: a_def session_record_def)
  moreover have "fst (GetActiveByProxyNode inet_in proxyIP (d\<lparr>sessions := sessions d @ [a\<lparr>a_status := status\<rparr>]\<rparr>))
    = fst (GetActiveByProxyNode inet_in proxyIP d)"
    using assms(1,3,8) G by (simp add: GetActiveByProxyNode_def query_up)
  moreover have "status = a_status (last (sessions (d\<lparr>sessions := sessions d @ [a\<lparr>a_status := status\<rparr>]\<rparr>)))" by simp
  ultimately show ?thesis using R T G by blast
qed

text \<open>Start-up cleanup touches exactly the orphans: afterwards the node has no active session, the
  active sessions of every other node are listed as before, and the schema constraints hold.\<close>

theorem cleanup_exact:
  assumes "schema_ok d" "outages d = []" "inet_in ip = Some node"
  shows "\<exists>d'. CleanupOrphanedSessions inet_in ip d = (Inr (), d') \<and> schema_ok d'
    \<and> GetActiveByProxyNode inet_in ip d' = (Inr [], d')
    \<and> (\<forall>other. inet_in other \<noteq> Some node \<longrightarrow>
         fst (GetActiveByProxyNode inet_in other d') = fst (GetActiveByProxyNode inet_in other d))"
proof -
  let ?P = "\<lambda>a. a_proxy_node_ip a = node \<and> a_status a = ''active''"
  let ?d = "set_status ?P ''terminated'' d"
  have C: "CleanupOrphanedSessions inet_in ip d = (Inr (), ?d)"
    using assms(2,3) by (simp add: CleanupOrphanedSessions_def run_stmt_up)
  have up: "outages ?d = []" using assms(2) by (simp add: set_status_def)
  have "filter (\<lambda>a. a_status a = ''active'' \<and> a_proxy_node_ip a = n) (sessions ?d) =
    (if n = node then [] else filter (\<lambda>a. a_status a = ''active'' \<and> a_proxy_node_ip a = n) (sessions d))" for n
    by (simp add: set_status_def filter_orphans)
  then have "GetActiveByProxyNode inet_in ip ?d = (Inr [], ?d)"
    "inet_in other \<noteq> Some node \<Longrightarrow> fst (GetActiveByProxyNode inet_in other ?d) = fst (GetActiveByProxyNode inet_in other d)" for other
    using assms(2,3) up by (auto simp: GetActiveByProxyNode_def query_up split: option.split)
  moreover have "schema_ok ?d" by (rule schema_ok_set_status [OF assms(1)]) simp
  ultimately show ?thesis using C by blast
qed

text \<open>The dashboard list is complete and exact: one entry per active session, with the name of its
  user and of its server, newest first.\<close>

theorem ListAllActive_exact:
  assumes "schema_ok d" "outages d = []"
  shows "\<exists>rs. ListAllActive d = (Inr rs, d)
    \<and> sorted_wrt (\<lambda>r r'. sr_StartTime r' \<le> sr_StartTime r) rs
    \<and> mset rs = mset (map (\<lambda>a. session_record a (user_name d (a_user_id a)) (host_name d (a_server_id a)))
        (filter (\<lambda>a. a_status a = ''active'') (sessions d)))"
proof -
  let ?as = "filter (\<lambda>a. a_status a = ''active'') (sessions d)"
  let ?g = "\<lambda>a. session_record a (user_name d (a_user_id a)) (host_name d (a_server_id a))"
  have j: "joined d ?as = map (\<lambda>a. (a, ?g a)) ?as" by (rule joined_eq [OF assms(1)]) auto
  then have L: "ListAllActive d = (Inr (newest_first (map (\<lambda>a. (a, ?g a)) ?as)), d)"
    using assms(2) by (simp add: ListAllActive_def query_up)
  have "mset (newest_first (map (\<lambda>a. (a, ?g a)) ?as)) = mset (map ?g ?as)"
    unfolding newest_first_def mset_map mset_sort by (simp add: multiset.map_comp o_def)
  moreover have "sorted_wrt (\<lambda>r r'. sr_StartTime r' \<le> sr_StartTime r) (newest_first (map (\<lambda>a. (a, ?g a)) ?as))"
    by (rule newest_first_sorted)
  ultimately show ?thesis using L by blast
qed

definition demo_inet :: "string \<Rightarrow> inet option" where
  "demo_inet s = (if ParseIP s = nil_IP then None else Some (Inet s 32))"

definition demo_sessions :: db where
  "demo_sessions = \<lparr>
     users = [\<lparr>u_id = 1, u_username = ''jdoe'', u_password_hash = ''h'', u_role = ''sre-tier1'',
               u_failed_attempts = 0, u_locked_until = None, u_override = False\<rparr>],
     servers = [\<lparr>s_id = 7, s_hostname = ''dev-01'', s_private_ip = Inet ''10.0.0.7'' 32,
                 s_vault_path = ''secret/data/ssh/dev-01'', s_ssh_user = ''ubuntu'', s_environment = ''dev''\<rparr>],
     policies = [], grants = [],
     sessions = [\<lparr>a_session_id = 20, a_user_id = 1, a_server_id = 7, a_proxy_node_ip = Inet ''10.1.1.1'' 32,
                   a_start_time = 5, a_status = ''active''\<rparr>,
                 \<lparr>a_session_id = 21, a_user_id = 1, a_server_id = 7, a_proxy_node_ip = Inet ''10.1.1.2'' 32,
                   a_start_time = 6, a_status = ''active''\<rparr>],
     outages = []\<rparr>"

lemma demo_sessions_ok [simp]: "schema_ok demo_sessions" "outages demo_sessions = []"
  by (simp_all add: demo_sessions_def schema_ok_def)

lemma demo_node: "ParseIP ''10.1.1.1'' = v4_in_v6 @ [CHR 0x0A, CHR 0x01, CHR 0x01, CHR 0x01]"
  "demo_inet ''10.1.1.1'' = Some (Inet ''10.1.1.1'' 32)"
  "IP_String (ParseIP ''10.1.1.1'') = ''10.1.1.1''"
proof -
  have "dotted [CHR 0x0A, CHR 0x01, CHR 0x01, CHR 0x01] = ''10.1.1.1''"
    by code_simp
  then show "ParseIP ''10.1.1.1'' = v4_in_v6 @ [CHR 0x0A, CHR 0x01, CHR 0x01, CHR 0x01]"
    "IP_String (ParseIP ''10.1.1.1'') = ''10.1.1.1''"
    using ParseIP_dotted [of "CHR 0x0A" "CHR 0x01" "CHR 0x01" "CHR 0x01"] IP_String_v4 by metis+
  then show "demo_inet ''10.1.1.1'' = Some (Inet ''10.1.1.1'' 32)"
    by (simp add: demo_inet_def nil_IP_def)
qed

theorem session_lifecycle_witness:
  "\<exists>d1 d2 rs. Register demo_inet 9 22 1 7 (ParseIP ''10.1.1.1'') demo_sessions = (Inr (), d1)
    \<and> GetActiveByProxyNode demo_inet ''10.1.1.1'' d1 = (Inr rs, d1) \<and> 22 \<in> sr_SessionID ` set rs
    \<and> Terminate 22 ''terminated-kill'' d1 = (Inr (), d2)
    \<and> fst (GetActiveByProxyNode demo_inet ''10.1.1.1'' d2) = fst (GetActiveByProxyNode demo_inet ''10.1.1.1'' demo_sessions)
    \<and> ''terminated-kill'' = a_status (last (sessions d2))"
  by (rule session_lifecycle [where node = "Inet ''10.1.1.1'' 32"])
    (simp_all add: demo_node(2,3), simp_all add: demo_sessions_def)

theorem cleanup_exact_witness:
  "\<exists>d'. CleanupOrphanedSessions demo_inet ''10.1.1.1'' demo_sessions = (Inr (), d') \<and> schema_ok d'
    \<and> GetActiveByProxyNode demo_inet ''10.1.1.1'' d' = (Inr [], d')
    \<and> (\<forall>other. demo_inet other \<noteq> Some (Inet ''10.1.1.1'' 32) \<longrightarrow>
         fst (GetActiveByProxyNode demo_inet other d') = fst (GetActiveByProxyNode demo_inet other demo_sessions))"
  by (rule cleanup_exact) (simp_all add: demo_node)

theorem ListAllActive_exact_witness:
  "\<exists>rs. ListAllActive demo_sessions = (Inr rs, demo_sessions)
    \<and> sorted_wrt (\<lambda>r r'. sr_StartTime r' \<le> sr_StartTime r) rs
    \<and> mset rs = mset (map (\<lambda>a. session_record a (user_name demo_sessions (a_user_id a)) (host_name demo_sessions (a_server_id a)))
        (filter (\<lambda>a. a_status a = ''active'') (sessions demo_sessions)))"
  by (rule ListAllActive_exact) simp_all

text \<open>The node address is lost on every list: the lists read the column with a cast that appends
  the netmask, which \<^verbatim>\<open>net.ParseIP\<close> rejects, so every record carries the nil address.\<close>

theorem listed_node_ip_is_nil:
  assumes "Inr rs \<in> {fst (ListAllActive d), fst (GetActiveByProxyNode inet_in ip d), fst (ListSessionsByServer srv d)}"
    and "r \<in> set rs"
  shows "sr_ProxyNodeIP r = nil_IP"
proof -
  have rec: "sr_ProxyNodeIP (session_record a n h) = nil_IP" for a n h
    by (simp add: session_record_def ParseIP_slash pg_text_has_slash)
  have nf: "x \<in> set (newest_first (joined e as)) \<Longrightarrow> sr_ProxyNodeIP x = nil_IP" for x e as
    by (auto simp: newest_first_def joined_def rec)
  show ?thesis using assms
    by (auto simp: ListAllActive_def GetActiveByProxyNode_def ListSessionsByServer_def query_def run_stmt_def rec
        split: list.splits if_splits option.splits dest!: nf in_set_takeD)
qed

theorem listed_node_ip_is_nil_witness:
  "sr_ProxyNodeIP (session_record (hd (sessions demo_sessions)) [] []) = nil_IP"
  by (rule listed_node_ip_is_nil
      [where d = demo_sessions and inet_in = demo_inet and ip = "''10.1.1.1''" and srv = 7
         and rs = "[session_record (hd (sessions demo_sessions)) [] []]"])
    (simp_all add: GetActiveByProxyNode_def demo_node(2) query_up, simp add: demo_sessions_def)

end
