(* ===== verification/Zttp_Rpc.thy ===== *)
theory Zttp_Rpc
  imports Zttp_Prelude
begin

text \<open>
  The generated code of the kill switch service, \<^verbatim>\<open>internal/killswitch/proto\<close>: the messages with their
  getters, the client stubs, the handlers and the service descriptor.

  The gRPC library is a parameter: \<open>Invoke\<close> of a connection, at the types of the two methods, and on the server
  side the decoded request and the interceptor that it hands to a handler. What the state \<open>'s\<close> is does not
  matter to the generated code.
\<close>

subsection \<open>Messages\<close>

record TerminateRequest =
  tq_SessionId :: string
  tq_Reason :: string

record TerminateResponse =
  tr_Success :: bool
  tr_ErrorMessage :: string
  tr_ElapsedMs :: int

record SessionInfo =
  si_SessionId :: string
  si_UserId :: string
  si_ServerId :: string
  si_ProxyNodeIp :: string
  si_StartTime :: int

type_synonym ListRequest = unit

record ListResponse =
  ls_Sessions :: "SessionInfo list"

text \<open>A message is reached through a pointer; the getters of a nil pointer return zero values.\<close>

definition getter :: "('m \<Rightarrow> 'f) \<Rightarrow> 'f \<Rightarrow> 'm option \<Rightarrow> 'f" where
  "getter field zero x = (case x of Some m \<Rightarrow> field m | None \<Rightarrow> zero)"

abbreviation "GetSessionId \<equiv> getter tq_SessionId []"
abbreviation "GetReason \<equiv> getter tq_Reason []"
abbreviation "GetSuccess \<equiv> getter tr_Success False"
abbreviation "GetErrorMessage \<equiv> getter tr_ErrorMessage []"
abbreviation "GetElapsedMs \<equiv> getter tr_ElapsedMs 0"
abbreviation "GetSessions \<equiv> getter ls_Sessions []"

subsection \<open>The service\<close>

text \<open>An operation on the server's state that answers or fails.\<close>

type_synonym ('q, 'r, 's) rpc = "'q \<Rightarrow> 's \<Rightarrow> (string + 'r) \<times> 's"

record 's KillSwitchServiceServer =
  ks_TerminateSession :: "(TerminateRequest, TerminateResponse, 's) rpc"
  ks_ListActiveSessions :: "(ListRequest, ListResponse, 's) rpc"

definition service_name :: string where
  "service_name = ''killswitch.KillSwitchService''"

definition TerminateSession_FullMethodName :: string where
  "TerminateSession_FullMethodName = ''/killswitch.KillSwitchService/TerminateSession''"

definition ListActiveSessions_FullMethodName :: string where
  "ListActiveSessions_FullMethodName = ''/killswitch.KillSwitchService/ListActiveSessions''"

definition UnimplementedKillSwitchServiceServer :: "(string \<Rightarrow> string) \<Rightarrow> 's KillSwitchServiceServer" where
  "UnimplementedKillSwitchServiceServer unimplemented =
     \<lparr>ks_TerminateSession = (\<lambda>_ s. (Inl (unimplemented ''method TerminateSession not implemented''), s)),
      ks_ListActiveSessions = (\<lambda>_ s. (Inl (unimplemented ''method ListActiveSessions not implemented''), s))\<rparr>"

text \<open>A handler with the result of decoding the request; an interceptor is given the request, the method's
  name and the call it wraps.\<close>

type_synonym ('q, 'r, 's) interceptor = "'q \<Rightarrow> string \<Rightarrow> ('q, 'r, 's) rpc \<Rightarrow> 's \<Rightarrow> (string + 'r) \<times> 's"
type_synonym ('q, 'r, 's) handler =
  "'s KillSwitchServiceServer \<Rightarrow> string + 'q \<Rightarrow> ('q, 'r, 's) interceptor option \<Rightarrow> 's \<Rightarrow> (string + 'r) \<times> 's"

definition TerminateSession_Handler :: "(TerminateRequest, TerminateResponse, 's) handler" where
  "TerminateSession_Handler srv dec interceptor s =
     (case dec of
        Inl e \<Rightarrow> (Inl e, s)
      | Inr q \<Rightarrow>
          (case interceptor of
             None \<Rightarrow> ks_TerminateSession srv q s
           | Some i \<Rightarrow> i q TerminateSession_FullMethodName (ks_TerminateSession srv) s))"

definition ListActiveSessions_Handler :: "(ListRequest, ListResponse, 's) handler" where
  "ListActiveSessions_Handler srv dec interceptor s =
     (case dec of
        Inl e \<Rightarrow> (Inl e, s)
      | Inr q \<Rightarrow>
          (case interceptor of
             None \<Rightarrow> ks_ListActiveSessions srv q s
           | Some i \<Rightarrow> i q ListActiveSessions_FullMethodName (ks_ListActiveSessions srv) s))"

datatype 's method_handler =
  TerminateMethod "(TerminateRequest, TerminateResponse, 's) handler"
| ListMethod "(ListRequest, ListResponse, 's) handler"

definition ServiceDesc_Methods :: "(string \<times> 's method_handler) list" where
  "ServiceDesc_Methods = [(''TerminateSession'', TerminateMethod TerminateSession_Handler),
     (''ListActiveSessions'', ListMethod ListActiveSessions_Handler)]"

subsection \<open>The client\<close>

record 's ClientConn =
  cc_Terminate :: "string \<Rightarrow> (TerminateRequest, TerminateResponse, 's) rpc"
  cc_List :: "string \<Rightarrow> (ListRequest, ListResponse, 's) rpc"

definition stub_TerminateSession :: "'s ClientConn \<Rightarrow> (TerminateRequest, TerminateResponse, 's) rpc" where
  "stub_TerminateSession cc q s = (case cc_Terminate cc TerminateSession_FullMethodName q s of
     (Inl e, s') \<Rightarrow> (Inl e, s') | (Inr out, s') \<Rightarrow> (Inr out, s'))"

definition stub_ListActiveSessions :: "'s ClientConn \<Rightarrow> (ListRequest, ListResponse, 's) rpc" where
  "stub_ListActiveSessions cc q s = (case cc_List cc ListActiveSessions_FullMethodName q s of
     (Inl e, s') \<Rightarrow> (Inl e, s') | (Inr out, s') \<Rightarrow> (Inr out, s'))"

subsection \<open>Calls\<close>

text \<open>A connection that reaches a server on which \<open>srv\<close> was registered, without interceptors, as gRPC documents it:
  the call of \<^verbatim>\<open>/service/method\<close> runs the handler that the descriptor lists under the method's name
  on the request that was sent.\<close>

definition delivers :: "'s ClientConn \<Rightarrow> 's KillSwitchServiceServer \<Rightarrow> bool" where
  "delivers cc srv \<longleftrightarrow>
     (\<forall>m h q s. map_of ServiceDesc_Methods m = Some (TerminateMethod h) \<longrightarrow>
        cc_Terminate cc (''/'' @ service_name @ ''/'' @ m) q s = h srv (Inr q) None s)
     \<and> (\<forall>m h q s. map_of ServiceDesc_Methods m = Some (ListMethod h) \<longrightarrow>
        cc_List cc (''/'' @ service_name @ ''/'' @ m) q s = h srv (Inr q) None s)"

text \<open>The stubs call the operations of the service: the names in the stubs, in the descriptor and in the full
  names fit together.\<close>

lemma stubs_call_service:
  assumes "delivers cc srv"
  shows "stub_TerminateSession cc q s = ks_TerminateSession srv q s" "stub_ListActiveSessions cc q' s = ks_ListActiveSessions srv q' s"
proof -
  have "cc_Terminate cc TerminateSession_FullMethodName q s = TerminateSession_Handler srv (Inr q) None s"
    using assms [unfolded delivers_def, THEN conjunct1, rule_format, of "''TerminateSession''" TerminateSession_Handler]
    by (simp add: ServiceDesc_Methods_def service_name_def TerminateSession_FullMethodName_def)
  then show "stub_TerminateSession cc q s = ks_TerminateSession srv q s"
    by (simp add: stub_TerminateSession_def TerminateSession_Handler_def split: sum.split prod.split)
  have "cc_List cc ListActiveSessions_FullMethodName q' s = ListActiveSessions_Handler srv (Inr q') None s"
    using assms [unfolded delivers_def, THEN conjunct2, rule_format, of "''ListActiveSessions''" ListActiveSessions_Handler]
    by (simp add: ServiceDesc_Methods_def service_name_def ListActiveSessions_FullMethodName_def)
  then show "stub_ListActiveSessions cc q' s = ks_ListActiveSessions srv q' s"
    by (simp add: stub_ListActiveSessions_def ListActiveSessions_Handler_def split: sum.split prod.split)
qed

text \<open>Such connections exist: the one that looks the method up.\<close>

definition direct_conn :: "'s KillSwitchServiceServer \<Rightarrow> 's ClientConn" where
  "direct_conn srv =
     \<lparr>cc_Terminate = (\<lambda>m q s. case map_of ServiceDesc_Methods (drop (length service_name + 2) m) of
          Some (TerminateMethod h) \<Rightarrow> h srv (Inr q) None s | _ \<Rightarrow> (Inl ''unknown method'', s)),
      cc_List = (\<lambda>m q s. case map_of ServiceDesc_Methods (drop (length service_name + 2) m) of
          Some (ListMethod h) \<Rightarrow> h srv (Inr q) None s | _ \<Rightarrow> (Inl ''unknown method'', s))\<rparr>"

lemma direct_conn_delivers: "delivers (direct_conn srv) srv"
  by (simp add: delivers_def direct_conn_def del: append.simps(2))

end
