(* ===== verification/Zttp_KillSwitch.thy ===== *)
theory Zttp_KillSwitch
  imports Zttp_Session Zttp_Rpc
begin

text \<open>
  The kill switch: \<^verbatim>\<open>internal/killswitch/manager.go\<close>, \<^verbatim>\<open>server.go\<close>, \<^verbatim>\<open>client.go\<close> and the HTTP
  endpoint of \<^verbatim>\<open>cmd/proxy/handlers.go\<close>.

  The two closures of a session handle are functions on the state \<open>'w\<close> of the node they run on.
  The UUID package is a parameter (\<open>uuid_parse\<close>, \<open>uuid_string\<close>), as are PostgreSQL's input of
  UUIDs (\<open>uuid_in\<close>) and \<^verbatim>\<open>grpc.Dial\<close>: \<open>dial addr\<close> is an error or a connection through which the
  generated stubs call.
\<close>

subsection \<open>The connection manager\<close>

record 'w SessionHandle =
  h_Cancel :: "'w \<Rightarrow> 'w"
  h_CloseConns :: "'w \<Rightarrow> 'w"

record 'w ConnectionManager =
  cm_sessions :: "uuid \<rightharpoonup> 'w SessionHandle"

definition NewConnectionManager :: "'w ConnectionManager" where
  "NewConnectionManager = \<lparr>cm_sessions = (\<lambda>_. None)\<rparr>"

definition cm_Register :: "uuid \<Rightarrow> 'w SessionHandle \<Rightarrow> 'w ConnectionManager \<Rightarrow> 'w ConnectionManager" where
  "cm_Register sessionID handle cm = cm\<lparr>cm_sessions := (cm_sessions cm)(sessionID \<mapsto> handle)\<rparr>"

definition cm_Deregister :: "uuid \<Rightarrow> 'w ConnectionManager \<Rightarrow> 'w ConnectionManager" where
  "cm_Deregister sessionID cm = cm\<lparr>cm_sessions := (cm_sessions cm)(sessionID := None)\<rparr>"

text \<open>\<open>elapsed\<close> is the time measured around the two closures.\<close>

definition cm_Terminate ::
  "(uuid \<Rightarrow> string) \<Rightarrow> int \<Rightarrow> uuid \<Rightarrow> string \<Rightarrow> 'w ConnectionManager \<times> 'w \<Rightarrow> (string + int) \<times> 'w ConnectionManager \<times> 'w" where
  "cm_Terminate uuid_string elapsed sessionID reason = (\<lambda>(cm, w).
     case cm_sessions cm sessionID of
       None \<Rightarrow> (Inl (''session '' @ uuid_string sessionID @ '' not found on this node''), cm, w)
     | Some handle \<Rightarrow>
         (let w1 = h_Cancel handle w; w2 = h_CloseConns handle w1
          in (Inr elapsed, cm_Deregister sessionID cm, w2)))"

interpretation conns: keyed_store cm_sessions cm_Register cm_Deregister
  by unfold_locales (simp_all add: cm_Register_def cm_Deregister_def)

declare conns.lookup_put [store_simps] conns.lookup_del [store_simps]

subsection \<open>The gRPC service\<close>

definition TerminateSession ::
  "(string \<Rightarrow> uuid option) \<Rightarrow> (uuid \<Rightarrow> string) \<Rightarrow> int \<Rightarrow> string \<Rightarrow> string \<Rightarrow> 'w ConnectionManager \<times> 'w \<times> db \<Rightarrow>
   TerminateResponse \<times> 'w ConnectionManager \<times> 'w \<times> db" where
  "TerminateSession uuid_parse uuid_string elapsed SessionId Reason = (\<lambda>(cm, w, d).
     case uuid_parse SessionId of
       None \<Rightarrow> (\<lparr>tr_Success = False, tr_ErrorMessage = ''invalid session_id'', tr_ElapsedMs = 0\<rparr>, cm, w, d)
     | Some sessionID \<Rightarrow>
         (case cm_Terminate uuid_string elapsed sessionID Reason (cm, w) of
            (Inl err, cm', w') \<Rightarrow>
              (\<lparr>tr_Success = False, tr_ErrorMessage = err, tr_ElapsedMs = 0\<rparr>, cm', w', d)
          | (Inr ms, cm', w') \<Rightarrow>
              (\<lparr>tr_Success = True, tr_ErrorMessage = [], tr_ElapsedMs = ms\<rparr>, cm', w',
               snd (Terminate sessionID StatusTerminatedKill d))))"

text \<open>\<open>env\<close> is the value of \<^verbatim>\<open>PROXY_NODE_IP\<close>, empty when unset.\<close>

definition ListActiveSessions ::
  "(string \<Rightarrow> inet option) \<Rightarrow> (uuid \<Rightarrow> string) \<Rightarrow> string \<Rightarrow> SessionInfo list sql" where
  "ListActiveSessions inet_in uuid_string env d =
     (let myIP = (if env = [] then ''127.0.0.1'' else env)
      in case GetActiveByProxyNode inet_in myIP d of
           (Inl e, d') \<Rightarrow> (Inl e, d')
         | (Inr rs, d') \<Rightarrow> (Inr (map (\<lambda>r. \<lparr>si_SessionId = uuid_string (sr_SessionID r),
               si_UserId = uuid_string (sr_UserID r), si_ServerId = uuid_string (sr_ServerID r),
               si_ProxyNodeIp = IP_String (sr_ProxyNodeIP r), si_StartTime = sr_StartTime r div second\<rparr>) rs), d'))"

text \<open>The service that the node registers; \<open>err\<close> is the text of a database error.\<close>

definition KillSwitchServer ::
  "(string \<Rightarrow> uuid option) \<Rightarrow> (uuid \<Rightarrow> string) \<Rightarrow> (string \<Rightarrow> inet option) \<Rightarrow> (sql_error \<Rightarrow> string) \<Rightarrow> int \<Rightarrow> string \<Rightarrow>
   ('w ConnectionManager \<times> 'w \<times> db) KillSwitchServiceServer" where
  "KillSwitchServer uuid_parse uuid_string inet_in err elapsed env =
     \<lparr>ks_TerminateSession = (\<lambda>req s.
        (let (resp, s') = TerminateSession uuid_parse uuid_string elapsed (tq_SessionId req) (tq_Reason req) s in (Inr resp, s'))),
      ks_ListActiveSessions = (\<lambda>_ (cm, w, d).
        (case ListActiveSessions inet_in uuid_string env d of
           (Inl e, d') \<Rightarrow> (Inl (err e), cm, w, d')
         | (Inr ss, d') \<Rightarrow> (Inr \<lparr>ls_Sessions = ss\<rparr>, cm, w, d')))\<rparr>"

subsection \<open>The client and the HTTP endpoint\<close>

definition client_TerminateSession ::
  "(string \<Rightarrow> string option) \<Rightarrow> (string \<Rightarrow> string + 's ClientConn) \<Rightarrow> string \<Rightarrow>
   string \<Rightarrow> string \<Rightarrow> string \<Rightarrow> 's \<Rightarrow> (string + unit) \<times> 's" where
  "client_TerminateSession loadCA dial caFile proxyNodeIP sessionID reason s =
     (let addr = proxyNodeIP @ '':9090'' in
      if caFile = [] then (Inl ''caFile is required for KillSwitchClient'', s)
      else case loadCA caFile of
          Some e \<Rightarrow> (Inl (''grpc client tls: '' @ e), s)
        | None \<Rightarrow>
            (case dial addr of
               Inl e \<Rightarrow> (Inl (''grpc dial '' @ addr @ '': '' @ e), s)
             | Inr conn \<Rightarrow>
                 (case stub_TerminateSession conn \<lparr>tq_SessionId = sessionID, tq_Reason = reason\<rparr> s of
                    (Inl e, s') \<Rightarrow> (Inl (''grpc call: '' @ e), s')
                  | (Inr resp, s') \<Rightarrow>
                      (if \<not> tr_Success resp then Inl (''termination failed: '' @ tr_ErrorMessage resp) else Inr (), s'))))"

record http_response =
  hr_status :: nat
  hr_body :: string

definition http_Error :: "string \<Rightarrow> nat \<Rightarrow> http_response" where
  "http_Error msg code = \<lparr>hr_status = code, hr_body = msg @ [CHR 0x0A]\<rparr>"

definition select_node :: "(string \<Rightarrow> uuid option) \<Rightarrow> string \<Rightarrow> string sql" where
  "select_node uuid_in sessionID = query (\<lambda>d. case uuid_in sessionID of
     None \<Rightarrow> Inl BadInput
   | Some sid \<Rightarrow>
       (case filter (\<lambda>a. a_session_id a = sid \<and> a_status a = ''active'') (sessions d) of
          [] \<Rightarrow> Inl ErrNoRows | a # _ \<Rightarrow> Inr (pg_text (a_proxy_node_ip a))))"

definition killSwitchHandler ::
  "(string \<Rightarrow> uuid option) \<Rightarrow> (string \<Rightarrow> string \<Rightarrow> string \<Rightarrow> 'c \<times> 'w \<times> db \<Rightarrow> (string + unit) \<times> 'c \<times> 'w \<times> db) \<Rightarrow> string \<Rightarrow>
   'c \<times> 'w \<times> db \<Rightarrow> http_response \<times> 'c \<times> 'w \<times> db" where
  "killSwitchHandler uuid_in kill sessionID = (\<lambda>(cm, w, d).
     if sessionID = [] then (http_Error ''missing session ID'' 400, cm, w, d)
     else case select_node uuid_in sessionID d of
         (Inl ErrNoRows, d') \<Rightarrow> (http_Error ''Session not found or already terminated'' 404, cm, w, d')
       | (Inl e, d') \<Rightarrow> (http_Error ''Database error'' 500, cm, w, d')
       | (Inr proxyNodeIP, d') \<Rightarrow>
           (case kill proxyNodeIP sessionID ''admin-kill'' (cm, w, d') of
              (Inl e, s) \<Rightarrow> (http_Error (''Kill switch failed: '' @ e) 500, s)
            | (Inr (), s) \<Rightarrow> (\<lparr>hr_status = 200,
                hr_body = ''{'' @ [CHR 0x22] @ ''session_id'' @ [CHR 0x22] @ '':'' @ [CHR 0x22] @ sessionID @ [CHR 0x22] @ '',''
                  @ [CHR 0x22] @ ''status'' @ [CHR 0x22] @ '':'' @ [CHR 0x22] @ ''terminated'' @ [CHR 0x22] @ ''}'' @ [CHR 0x0A]\<rparr>, s)))"

subsection \<open>Properties\<close>

text \<open>The status of a session, if it has a row.\<close>

definition status_of :: "db \<Rightarrow> uuid \<Rightarrow> string option" where
  "status_of d sid = map_option a_status (find (\<lambda>a. a_session_id a = sid) (sessions d))"

lemma find_map_status:
  "map_option a_status (find (\<lambda>a. a_session_id a = k) (map (\<lambda>a. if a_session_id a = sid then a\<lparr>a_status := st\<rparr> else a) as))
   = (if k = sid then map_option (\<lambda>_. st) (find (\<lambda>a. a_session_id a = sid) as)
      else map_option a_status (find (\<lambda>a. a_session_id a = k) as))"
  by (induction as) auto

lemma status_of_Terminate:
  assumes "outages d = []" "st \<in> session_statuses"
  shows "status_of (snd (Terminate sid st d)) k =
    (if k = sid then map_option (\<lambda>_. st) (status_of d sid) else status_of d k)"
  using assms find_map_status [of k sid st "sessions d"]
  by (auto simp: Terminate_def run_stmt_up set_status_def status_of_def option.map_comp o_def)

text \<open>The kill switch does all of its work, in order, on the session it names and on nothing else:
  the context is cancelled, then the connection closed, the handle is forgotten, the row gets the
  kill status, every other handle and row stays, and a second kill finds nothing and changes
  nothing.\<close>

theorem TerminateSession_kills:
  assumes "uuid_parse s = Some sid" "cm_sessions cm sid = Some h" "outages d = []" "sid \<in> a_session_id ` set (sessions d)"
  shows "\<exists>cm' d'. TerminateSession uuid_parse uuid_string ms s reason (cm, w, d) =
      (\<lparr>tr_Success = True, tr_ErrorMessage = [], tr_ElapsedMs = ms\<rparr>, cm', h_CloseConns h (h_Cancel h w), d')
    \<and> cm_sessions cm' = (cm_sessions cm)(sid := None)
    \<and> status_of d' = (status_of d)(sid \<mapsto> ''terminated-kill'')
    \<and> TerminateSession uuid_parse uuid_string ms s reason (cm', w', d') =
      (\<lparr>tr_Success = False, tr_ErrorMessage = ''session '' @ uuid_string sid @ '' not found on this node'', tr_ElapsedMs = 0\<rparr>, cm', w', d')"
proof -
  let ?cm = "cm_Deregister sid cm" and ?d = "snd (Terminate sid ''terminated-kill'' d)"
  have first: "TerminateSession uuid_parse uuid_string ms s reason (cm, w, d) =
      (\<lparr>tr_Success = True, tr_ErrorMessage = [], tr_ElapsedMs = ms\<rparr>, ?cm, h_CloseConns h (h_Cancel h w), ?d)"
    using assms(1,2) by (simp add: TerminateSession_def cm_Terminate_def status_defs)
  have gone: "cm_sessions ?cm = (cm_sessions cm)(sid := None)" by (simp add: cm_Deregister_def)
  have "find (\<lambda>a. a_session_id a = sid) (sessions d) \<noteq> None"
    using assms(4) by (auto simp: find_None_iff)
  then have "status_of d sid \<noteq> None" by (simp add: status_of_def)
  then have "status_of ?d = (status_of d)(sid \<mapsto> ''terminated-kill'')"
    using assms(3) by (auto simp: status_of_Terminate)
  moreover have "TerminateSession uuid_parse uuid_string ms s reason (?cm, w', ?d) =
      (\<lparr>tr_Success = False, tr_ErrorMessage = ''session '' @ uuid_string sid @ '' not found on this node'', tr_ElapsedMs = 0\<rparr>, ?cm, w', ?d)"
    using assms(1) gone by (simp add: TerminateSession_def cm_Terminate_def)
  ultimately show ?thesis using first gone by blast
qed

definition demo_handle :: "string list SessionHandle" where
  "demo_handle = \<lparr>h_Cancel = (\<lambda>w. w @ [''cancel'']), h_CloseConns = (\<lambda>w. w @ [''close''])\<rparr>"

theorem TerminateSession_kills_witness:
  "\<exists>cm' d'. TerminateSession (\<lambda>_. Some 20) (\<lambda>_. ''20'') 3 ''20'' ''admin-kill''
        (cm_Register 20 demo_handle NewConnectionManager, [], demo_sessions) =
      (\<lparr>tr_Success = True, tr_ErrorMessage = [], tr_ElapsedMs = 3\<rparr>, cm', h_CloseConns demo_handle (h_Cancel demo_handle []), d')
    \<and> cm_sessions cm' = (cm_sessions (cm_Register 20 demo_handle NewConnectionManager))(20 := None)
    \<and> status_of d' = (status_of demo_sessions)(20 \<mapsto> ''terminated-kill'')
    \<and> TerminateSession (\<lambda>_. Some 20) (\<lambda>_. ''20'') 3 ''20'' ''admin-kill'' (cm', [], d') =
      (\<lparr>tr_Success = False, tr_ErrorMessage = ''session '' @ (\<lambda>_. ''20'') 20 @ '' not found on this node'', tr_ElapsedMs = 0\<rparr>, cm', [], d')"
  by (rule TerminateSession_kills) (simp_all add: cm_Register_def, simp add: demo_sessions_def)

text \<open>A kill over the network is exact: called with the address of a node, the client returns without error
  just when that node had the session, and then the node has cancelled the session's context, closed its
  connection, forgotten its handle and marked its row; otherwise nothing has changed and the error names the session.\<close>

theorem remote_kill_exact:
  assumes "caFile \<noteq> []" "loadCA caFile = None" "dial (node @ '':9090'') = Inr cc"
    and "delivers cc (KillSwitchServer uuid_parse uuid_string inet_in err ms env)" "uuid_parse s = Some sid"
  shows "client_TerminateSession loadCA dial caFile node s reason (cm, w, d) =
    (case cm_sessions cm sid of
       None \<Rightarrow> (Inl (''termination failed: session '' @ uuid_string sid @ '' not found on this node''), cm, w, d)
     | Some h \<Rightarrow> (Inr (), cm_Deregister sid cm, h_CloseConns h (h_Cancel h w), snd (Terminate sid ''terminated-kill'' d)))"
  using assms(1-3,5)
  by (simp add: client_TerminateSession_def stubs_call_service [OF assms(4)] KillSwitchServer_def TerminateSession_def cm_Terminate_def
      StatusTerminatedKill_def Let_def split: option.split)

theorem remote_kill_exact_witness:
  "client_TerminateSession (\<lambda>_. None) (\<lambda>_. Inr (direct_conn (KillSwitchServer (\<lambda>_. Some 20) (\<lambda>_. ''20'') demo_inet (\<lambda>_. []) 3 [])))
      ''ca.pem'' ''10.1.1.1'' ''20'' ''admin-kill'' (cm_Register 20 demo_handle NewConnectionManager, [], demo_sessions) =
    (Inr (), cm_Deregister 20 (cm_Register 20 demo_handle NewConnectionManager), [''cancel'', ''close''],
     snd (Terminate 20 ''terminated-kill'' demo_sessions))"
  by (subst remote_kill_exact [where node = "''10.1.1.1''" and sid = 20, OF _ _ refl direct_conn_delivers refl])
    (simp_all add: cm_Register_def demo_handle_def)

text \<open>The HTTP endpoint cannot reach a node: the address it routes to always carries a netmask, so
  its host part is not an IP address, and whenever calls to such an address fail the answer to a
  kill request for an active session is an error.\<close>

theorem kill_endpoint_misroutes:
  assumes "\<forall>addr host port cc. SplitHostPort addr = Some (host, port) \<longrightarrow> CHR ''/'' \<in> set host \<longrightarrow> dial addr = Inr cc \<longrightarrow>
      (\<forall>m q s. \<exists>e s'. cc_Terminate cc m q s = (Inl e, s'))"
    and "outages d = []" "uuid_in s = Some sid" "s \<noteq> []" "status_of d sid = Some ''active''"
    and "\<forall>a \<in> set (sessions d). set (inet_addr (a_proxy_node_ip a)) \<inter> {CHR '':'', CHR ''['', CHR '']''} = {}"
  shows "hr_status (fst (killSwitchHandler uuid_in (client_TerminateSession loadCA dial caFile) s (cm, w, d))) = 500"
proof -
  obtain a where "find (\<lambda>a. a_session_id a = sid) (sessions d) = Some a" and act: "a_status a = ''active''"
    using assms(5) by (auto simp: status_of_def)
  then have a: "a \<in> set (sessions d)" "a_session_id a = sid" by (auto simp: find_Some_iff)
  have dialled: "\<exists>e. fst (client_TerminateSession loadCA dial caFile (pg_text (a_proxy_node_ip b)) s ''admin-kill'' t) = Inl e"
    if "b \<in> set (sessions d)" for b t
  proof -
    have "\<not> dec_digit CHR '':''" "\<not> dec_digit CHR ''[''" "\<not> dec_digit CHR '']''" by (simp_all add: dec_digit_def)
    then have "set (pg_text (a_proxy_node_ip b)) \<inter> {CHR '':'', CHR ''['', CHR '']''} = {}"
      using assms(6) that dec_nat_digit by (auto simp: pg_text_def)
    then have "SplitHostPort (pg_text (a_proxy_node_ip b) @ CHR '':'' # ''9090'') = Some (pg_text (a_proxy_node_ip b), ''9090'')"
      by (rule SplitHostPort_plain) simp
    then have fails: "\<exists>e t'. cc_Terminate cc m q t = (Inl e, t')" if "dial (pg_text (a_proxy_node_ip b) @ '':9090'') = Inr cc" for cc m q
      by (rule assms(1) [rule_format, OF _ pg_text_has_slash that])
    show ?thesis
    proof (cases "dial (pg_text (a_proxy_node_ip b) @ '':9090'')")
      case (Inr cc)
      obtain e t' where "cc_Terminate cc TerminateSession_FullMethodName \<lparr>tq_SessionId = s, tq_Reason = ''admin-kill''\<rparr> t = (Inl e, t')"
        using fails [OF Inr] by blast
      then show ?thesis using Inr by (simp add: client_TerminateSession_def stub_TerminateSession_def Let_def split: option.split)
    qed (simp add: client_TerminateSession_def Let_def split: option.split)
  qed
  have "filter (\<lambda>a. a_session_id a = sid \<and> a_status a = ''active'') (sessions d) \<noteq> []"
    using a act by (auto simp: filter_empty_conv)
  then obtain b bs where rows: "filter (\<lambda>a. a_session_id a = sid \<and> a_status a = ''active'') (sessions d) = b # bs"
    by (meson list.exhaust)
  have "b \<in> set (b # bs)" by simp
  then have "b \<in> set (sessions d)" unfolding rows [symmetric] by simp
  then obtain e t where "client_TerminateSession loadCA dial caFile (pg_text (a_proxy_node_ip b)) s ''admin-kill'' (cm, w, d) = (Inl e, t)"
    using dialled [of b "(cm, w, d)"] by (metis prod.collapse)
  then show ?thesis using assms(2,3,4) rows
    by (simp add: killSwitchHandler_def select_node_def query_up http_Error_def)
qed

definition unreachable_conn :: "'s ClientConn" where
  "unreachable_conn = \<lparr>cc_Terminate = (\<lambda>_ _ s. (Inl ''lookup: no such host'', s)), cc_List = (\<lambda>_ _ s. (Inl ''lookup: no such host'', s))\<rparr>"

theorem kill_endpoint_misroutes_witness:
  "hr_status (fst (killSwitchHandler (\<lambda>_. Some 20)
     (client_TerminateSession (\<lambda>_. None)
       (\<lambda>addr. Inr (if CHR ''/'' \<in> set addr then unreachable_conn
          else direct_conn (KillSwitchServer (\<lambda>_. Some 20) (\<lambda>_. ''20'') demo_inet (\<lambda>_. []) 3 []))) ''ca.pem'') ''20''
     (cm_Register 20 demo_handle NewConnectionManager, [], demo_sessions))) = 500"
proof (rule kill_endpoint_misroutes [where sid = 20])
  show "\<forall>addr host port cc. SplitHostPort addr = Some (host, port) \<longrightarrow> CHR ''/'' \<in> set host \<longrightarrow>
    Inr (if CHR ''/'' \<in> set addr then unreachable_conn
      else direct_conn (KillSwitchServer (\<lambda>_. Some 20) (\<lambda>_. ''20'') demo_inet (\<lambda>_. []) 3 [])) = Inr cc \<longrightarrow>
    (\<forall>m q s. \<exists>e s'. cc_Terminate cc m q s = (Inl e, s'))"
    by (auto simp: SplitHostPort_def unreachable_conn_def Let_def split: if_splits dest: in_set_takeD in_set_dropD)
qed (simp_all, simp_all add: demo_sessions_def status_of_def)

end
