(* ===== verification/Zttp_Audit.thy ===== *)
theory Zttp_Audit
  imports Zttp_Strings
begin

text \<open>
  Session recordings, the admin action log and the disk guard: \<^verbatim>\<open>internal/audit/writer.go\<close>,
  \<^verbatim>\<open>adminlog.go\<close> and \<^verbatim>\<open>diskguard.go\<close>.

  The audit partition is a map from path names to contents with a number of free bytes; a write
  stores the prefix that fits and reports an error when it is cut short, and opening a denied path
  fails. SHA-256 (\<open>sha256\<close>), the UUID text form (\<open>uuid_string\<close>) and the time formats are
  parameters. A writer of the package holds its file by name; a closed file rejects every
  operation, as \<^verbatim>\<open>os.File\<close> does.
\<close>

subsection \<open>Files\<close>

record fsys =
  files :: "string \<rightharpoonup> bytes"
  free_bytes :: nat
  denied :: "string \<Rightarrow> bool"

text \<open>\<^verbatim>\<open>filepath.Clean\<close> and \<^verbatim>\<open>filepath.Join\<close> of a directory and a file name.\<close>

fun clean_elems :: "bool \<Rightarrow> string list \<Rightarrow> string list \<Rightarrow> string list" where
  "clean_elems rooted stack [] = rev stack"
| "clean_elems rooted stack (e # es) =
     (if e = [] \<or> e = ''.'' then clean_elems rooted stack es
      else if e = ''..'' then
        (if stack \<noteq> [] \<and> hd stack \<noteq> ''..'' then clean_elems rooted (tl stack) es
         else if rooted then clean_elems rooted stack es
         else clean_elems rooted (e # stack) es)
      else clean_elems rooted (e # stack) es)"

definition path_Clean :: "string \<Rightarrow> string" where
  "path_Clean p =
     (let rooted = HasPrefix p ''/''; q = Join (clean_elems rooted [] (Split p (CHR ''/''))) ''/''
      in if rooted then CHR ''/'' # q else if q = [] then ''.'' else q)"

definition path_Join :: "string \<Rightarrow> string \<Rightarrow> string" where
  "path_Join dir name = (if dir = [] then path_Clean name else path_Clean (dir @ ''/'' @ name))"

definition fs_create :: "string \<Rightarrow> fsys \<Rightarrow> bool \<times> fsys" where
  "fs_create name fs =
     (if denied fs name then (False, fs)
      else (True, fs\<lparr>files := (files fs)(name \<mapsto> []),
        free_bytes := free_bytes fs + (case files fs name of Some old \<Rightarrow> length old | None \<Rightarrow> 0)\<rparr>))"

definition fs_open_append :: "string \<Rightarrow> fsys \<Rightarrow> bool \<times> fsys" where
  "fs_open_append name fs =
     (if denied fs name then (False, fs)
      else (True, fs\<lparr>files := (files fs)(name \<mapsto> (case files fs name of Some old \<Rightarrow> old | None \<Rightarrow> []))\<rparr>))"

definition fs_read :: "string \<Rightarrow> fsys \<Rightarrow> bytes option" where
  "fs_read name fs = (if denied fs name then None else files fs name)"

definition fs_write :: "string \<Rightarrow> bytes \<Rightarrow> fsys \<Rightarrow> bool \<times> fsys" where
  "fs_write name p fs =
     (case files fs name of
        None \<Rightarrow> (False, fs)
      | Some old \<Rightarrow>
          (let q = take (free_bytes fs) p
           in (length q = length p,
               fs\<lparr>files := (files fs)(name \<mapsto> old @ q), free_bytes := free_bytes fs - length q\<rparr>)))"

subsection \<open>JSON strings\<close>

text \<open>\<^verbatim>\<open>json.Marshal\<close> of a string of ASCII characters.\<close>

definition json_char :: "char \<Rightarrow> string" where
  "json_char c = (let n = (of_char c :: nat) in
     if n = 0x22 then [CHR 0x5C, CHR 0x22]
     else if n = 0x5C then [CHR 0x5C, CHR 0x5C]
     else if n = 10 then [CHR 0x5C, CHR ''n'']
     else if n = 13 then [CHR 0x5C, CHR ''r'']
     else if n = 9 then [CHR 0x5C, CHR ''t'']
     else if n < 0x20 \<or> n = 0x3C \<or> n = 0x3E \<or> n = 0x26
       then CHR 0x5C # ''u00'' @ [hex_digit (n div 16), hex_digit (n mod 16)]
     else [c])"

definition json_string :: "string \<Rightarrow> string" where
  "json_string s = [CHR 0x22] @ concat (map json_char s) @ [CHR 0x22]"

text \<open>A map from strings to strings, given in the order of its keys, as the encoder emits it.\<close>

definition json_map :: "(string \<times> string) list \<Rightarrow> string" where
  "json_map kvs = ''{'' @ Join (map (\<lambda>(k, v). json_string k @ '':'' @ json_string v) kvs) '','' @ ''}''"

subsection \<open>Recordings\<close>

record ttyrecHeader =
  th_Sec :: "32 word"
  th_USec :: "32 word"
  th_Len :: "32 word"

text \<open>\<^verbatim>\<open>binary.Write\<close> in little-endian order.\<close>

definition enc_header :: "ttyrecHeader \<Rightarrow> bytes" where
  "enc_header h = le32 (th_Sec h) @ le32 (th_USec h) @ le32 (th_Len h)"

record Writer =
  w_file :: string
  w_closed :: bool
  w_sessionID :: uuid
  w_userID :: uuid

definition frame_header :: "instant \<Rightarrow> bytes \<Rightarrow> ttyrecHeader" where
  "frame_header now data =
     \<lparr>th_Sec = word_of_int (now div second), th_USec = word_of_int (now mod second div 1000),
      th_Len = word_of_nat (length data)\<rparr>"

definition writeFrame :: "instant \<Rightarrow> bytes \<Rightarrow> Writer \<Rightarrow> fsys \<Rightarrow> fsys" where
  "writeFrame now data w fs =
     (if w_closed w then fs
      else (let (_, fs1) = fs_write (w_file w) (enc_header (frame_header now data)) fs;
                (_, fs2) = fs_write (w_file w) data fs1
            in fs2))"

definition attribution :: "(uuid \<Rightarrow> string) \<Rightarrow> (instant \<Rightarrow> string) \<Rightarrow> instant \<Rightarrow> uuid \<Rightarrow> uuid \<Rightarrow> bytes" where
  "attribution uuid_string rfc3339nano now sessionID userID =
     json_map [(''created_at'', rfc3339nano now), (''format'', ''ttyrec+zttp-v1''),
       (''zttp_session_id'', uuid_string sessionID), (''zttp_user_id'', uuid_string userID)]"

definition writeAttributionHeader ::
  "(uuid \<Rightarrow> string) \<Rightarrow> (instant \<Rightarrow> string) \<Rightarrow> instant \<Rightarrow> uuid \<Rightarrow> uuid \<Rightarrow> Writer \<Rightarrow> fsys \<Rightarrow> fsys" where
  "writeAttributionHeader uuid_string rfc3339nano now sessionID userID =
     writeFrame now (attribution uuid_string rfc3339nano now sessionID userID)"

definition ttyrec_name :: "(uuid \<Rightarrow> string) \<Rightarrow> string \<Rightarrow> uuid \<Rightarrow> string" where
  "ttyrec_name uuid_string logDir sessionID = path_Join logDir (uuid_string sessionID @ ''.ttyrec'')"

definition NewWriter ::
  "(uuid \<Rightarrow> string) \<Rightarrow> (instant \<Rightarrow> string) \<Rightarrow> instant \<Rightarrow> string \<Rightarrow> uuid \<Rightarrow> uuid \<Rightarrow> fsys \<Rightarrow> Writer option \<times> fsys" where
  "NewWriter uuid_string rfc3339nano now logDir sessionID userID fs =
     (let filename = ttyrec_name uuid_string logDir sessionID; (ok, fs1) = fs_create filename fs
      in if \<not> ok then (None, fs1)
         else (let w = \<lparr>w_file = filename, w_closed = False, w_sessionID = sessionID, w_userID = userID\<rparr>
               in (Some w, writeAttributionHeader uuid_string rfc3339nano now sessionID userID w fs1)))"

text \<open>\<^verbatim>\<open>Write\<close> always reports that everything was written.\<close>

definition audit_Write :: "instant \<Rightarrow> bytes \<Rightarrow> Writer \<Rightarrow> fsys \<Rightarrow> nat \<times> fsys" where
  "audit_Write now p w fs = (length p, writeFrame now p w fs)"

datatype audit_error = SyncFailed | OpenForHash | ChecksumWrite

text \<open>\<open>synced\<close> tells whether the device accepts the flush; syncing a closed file fails.\<close>

definition Finalize :: "(bytes \<Rightarrow> bytes) \<Rightarrow> bool \<Rightarrow> Writer \<Rightarrow> fsys \<Rightarrow> (audit_error + unit) \<times> Writer \<times> fsys" where
  "Finalize sha256 synced w fs =
     (let w' = w\<lparr>w_closed := True\<rparr> in
      if w_closed w \<or> \<not> synced then (Inl SyncFailed, w', fs)
      else case fs_read (w_file w) fs of
          None \<Rightarrow> (Inl OpenForHash, w', fs)
        | Some content \<Rightarrow>
            (let checksumFile = w_file w @ ''.sha256''; (ok, fs1) = fs_create checksumFile fs
             in if \<not> ok then (Inl ChecksumWrite, w', fs1)
                else (let (full, fs2) = fs_write checksumFile (hex_encode (sha256 content) @ [CHR 0x0A]) fs1
                      in if full then (Inr (), w', fs2) else (Inl ChecksumWrite, w', fs2))))"

subsection \<open>Reading a recording\<close>

text \<open>One round of the reading loops of \<^verbatim>\<open>streamTextLog\<close> and \<^verbatim>\<open>playTTYRec\<close>: the header and the data
  of the next frame, or \<open>None\<close> when either is cut short.\<close>

definition read_ttyrec :: "bytes \<Rightarrow> ((32 word \<times> 32 word \<times> bytes) \<times> bytes) option" where
  "read_ttyrec bs =
     (if length bs < 12 then None
      else (let hdr = take 12 bs; rest = drop 12 bs;
                sec = le32_value (take 4 hdr); usec = le32_value (take 4 (drop 4 hdr));
                len = unat (le32_value (drop 8 hdr))
            in if length rest < len then None
               else Some ((sec, usec, take len rest), drop len rest)))"

definition ttyrec_frames :: "bytes \<Rightarrow> (32 word \<times> 32 word \<times> bytes) list" where
  "ttyrec_frames bs = dec_all read_ttyrec (length bs) bs"

definition enc_frame :: "32 word \<times> 32 word \<times> bytes \<Rightarrow> bytes" where
  "enc_frame = (\<lambda>(s, u, data). enc_header \<lparr>th_Sec = s, th_USec = u, th_Len = word_of_nat (length data)\<rparr> @ data)"

definition frame_ok :: "32 word \<times> 32 word \<times> bytes \<Rightarrow> bool" where
  "frame_ok f \<longleftrightarrow> length (snd (snd f)) < 2 ^ 32"

subsection \<open>The admin log\<close>

record AdminLogger =
  al_file :: string
  al_open :: bool
  al_adminUser :: string

definition NewAdminLogger :: "string \<Rightarrow> string \<Rightarrow> fsys \<Rightarrow> AdminLogger option \<times> fsys" where
  "NewAdminLogger logDir adminUsername fs =
     (let path = path_Join logDir ''admin-actions.log''; (ok, fs1) = fs_open_append path fs
      in if ok then (Some \<lparr>al_file = path, al_open = True, al_adminUser = adminUsername\<rparr>, fs1) else (None, fs1))"

definition Log_line :: "(instant \<Rightarrow> string) \<Rightarrow> instant \<Rightarrow> string \<Rightarrow> string \<Rightarrow> string" where
  "Log_line rfc3339 now event detail =
     pad_right 24 (rfc3339 now) @ ''  '' @ pad_right 18 event @ ''  '' @ detail @ [CHR 0x0A]"

definition Log :: "(instant \<Rightarrow> string) \<Rightarrow> instant \<Rightarrow> string \<Rightarrow> string \<Rightarrow> AdminLogger \<Rightarrow> fsys \<Rightarrow> fsys" where
  "Log rfc3339 now event detail l fs =
     (if al_open l then snd (fs_write (al_file l) (Log_line rfc3339 now event detail) fs) else fs)"

definition al_Close :: "AdminLogger \<Rightarrow> AdminLogger" where
  "al_Close l = l\<lparr>al_open := False\<rparr>"

subsection \<open>The disk guard\<close>

record statfs =
  Blocks :: "64 word"
  Bavail :: "64 word"
  Bsize :: "64 word"

record DiskGuard =
  dg_maxUsagePct :: "64 word"
  dg_reject :: bool

definition NewDiskGuard :: "int \<Rightarrow> DiskGuard" where
  "NewDiskGuard maxUsagePct = \<lparr>dg_maxUsagePct = word_of_int maxUsagePct, dg_reject = False\<rparr>"

definition ShouldRejectNewConnections :: "DiskGuard \<Rightarrow> bool" where
  "ShouldRejectNewConnections g = dg_reject g"

definition usagePercent :: "statfs \<Rightarrow> 64 word" where
  "usagePercent st =
     (let total = Blocks st * Bsize st; avail = Bavail st * Bsize st; used = total - avail
      in if total = 0 then 0 else (used * 100) div total)"

text \<open>One tick of \<^verbatim>\<open>monitor\<close>; \<open>None\<close> is a failing \<^verbatim>\<open>statfs\<close>.\<close>

definition monitor :: "statfs option \<Rightarrow> DiskGuard \<Rightarrow> DiskGuard" where
  "monitor st g =
     (case st of
        None \<Rightarrow> g
      | Some s \<Rightarrow>
          (if dg_maxUsagePct g \<le> usagePercent s then g\<lparr>dg_reject := True\<rparr> else g\<lparr>dg_reject := False\<rparr>))"

subsection \<open>Lemmas\<close>

lemma length_enc_header [simp]: "length (enc_header h) = 12"
  by (simp add: enc_header_def)

interpretation ttyrec: frame_codec enc_frame read_ttyrec frame_ok
proof
  fix f rest assume "frame_ok f"
  obtain s u data where f: "f = (s, u, data)" by (metis surj_pair)
  then have "unat (word_of_nat (length data) :: 32 word) = length data"
    using \<open>frame_ok f\<close> by (simp add: frame_ok_def unat_of_nat32)
  then show "read_ttyrec (enc_frame f @ rest) = Some (f, rest)"
    by (simp add: f enc_frame_def read_ttyrec_def enc_header_def Let_def)
next
  show "read_ttyrec [] = None" by (simp add: read_ttyrec_def)
  show "read_ttyrec bs = Some (f, rest) \<Longrightarrow> length rest < length bs" for bs f rest
    by (auto simp: read_ttyrec_def Let_def split: if_splits)
qed

lemma fs_write_room:
  "files fs name = Some old \<Longrightarrow> length p \<le> free_bytes fs \<Longrightarrow>
   fs_write name p fs = (True, fs\<lparr>files := (files fs)(name \<mapsto> old @ p), free_bytes := free_bytes fs - length p\<rparr>)"
  by (simp add: fs_write_def)

lemma fs_write_full: "files fs name = Some old \<Longrightarrow> free_bytes fs = 0 \<Longrightarrow> snd (fs_write name p fs) = fs"
  by (cases fs) (auto simp: fs_write_def Let_def)

definition frame_at :: "instant \<times> bytes \<Rightarrow> 32 word \<times> 32 word \<times> bytes" where
  "frame_at x = (th_Sec (frame_header (fst x) (snd x)), th_USec (frame_header (fst x) (snd x)), snd x)"

lemma enc_frame_at: "enc_frame (frame_at (now, data)) = enc_header (frame_header now data) @ data"
  by (simp add: enc_frame_def frame_at_def frame_header_def)

lemma writeFrame_room:
  assumes "\<not> w_closed w" "files fs (w_file w) = Some old" "12 + length data \<le> free_bytes fs"
  shows "writeFrame now data w fs =
    fs\<lparr>files := (files fs)(w_file w \<mapsto> old @ enc_frame (frame_at (now, data))),
       free_bytes := free_bytes fs - (12 + length data)\<rparr>"
  using assms by (simp add: writeFrame_def fs_write_room enc_frame_at)

fun audit_writes :: "(instant \<times> bytes) list \<Rightarrow> Writer \<Rightarrow> fsys \<Rightarrow> fsys" where
  "audit_writes [] w fs = fs"
| "audit_writes ((now, p) # ps) w fs = audit_writes ps w (snd (audit_Write now p w fs))"

lemma audit_writes_room:
  assumes "\<not> w_closed w" "files fs (w_file w) = Some old"
    and "sum_list (map (\<lambda>x. 12 + length (snd x)) ps) \<le> free_bytes fs"
  shows "files (audit_writes ps w fs) = (files fs)(w_file w \<mapsto> old @ concat (map (enc_frame \<circ> frame_at) ps))
    \<and> free_bytes (audit_writes ps w fs) = free_bytes fs - sum_list (map (\<lambda>x. 12 + length (snd x)) ps)
    \<and> denied (audit_writes ps w fs) = denied fs"
  using assms
proof (induction ps arbitrary: fs old)
  case (Cons x ps)
  obtain now p where x: "x = (now, p)" by fastforce
  have "writeFrame now p w fs =
    fs\<lparr>files := (files fs)(w_file w \<mapsto> old @ enc_frame (frame_at (now, p))), free_bytes := free_bytes fs - (12 + length p)\<rparr>"
    using Cons.prems x by (intro writeFrame_room) auto
  moreover have "(\<Sum>x\<leftarrow>ps. 12 + length (snd x)) \<le> free_bytes fs - (12 + length p)"
    using Cons.prems(3) x by simp
  ultimately show ?case
    using Cons.IH [of "writeFrame now p w fs" "old @ enc_frame (frame_at (now, p))"] Cons.prems x
    by (auto simp: audit_Write_def fun_eq_iff)
qed auto

lemma frame_ok_at: "frame_ok (frame_at x) \<longleftrightarrow> length (snd x) < 2 ^ 32"
  by (simp add: frame_ok_def frame_at_def)

lemma NewWriter_room:
  assumes "\<not> denied fs (ttyrec_name uuid_string logDir sid)"
    and "12 + length (attribution uuid_string nano t0 sid uid) \<le> free_bytes fs"
  shows "\<exists>w fs1. NewWriter uuid_string nano t0 logDir sid uid fs = (Some w, fs1) \<and> \<not> w_closed w
    \<and> w_file w = ttyrec_name uuid_string logDir sid
    \<and> files fs1 = (files fs)(w_file w \<mapsto> enc_frame (frame_at (t0, attribution uuid_string nano t0 sid uid)))
    \<and> free_bytes fs - (12 + length (attribution uuid_string nano t0 sid uid)) \<le> free_bytes fs1 \<and> denied fs1 = denied fs"
proof -
  define name where "name = ttyrec_name uuid_string logDir sid"
  define w where "w = \<lparr>w_file = name, w_closed = False, w_sessionID = sid, w_userID = uid\<rparr>"
  let ?a = "attribution uuid_string nano t0 sid uid"
  obtain fs0 where c: "fs_create name fs = (True, fs0)" "files fs0 = (files fs)(name \<mapsto> [])"
    "free_bytes fs \<le> free_bytes fs0" "denied fs0 = denied fs"
    using assms(1) by (simp add: fs_create_def name_def)
  have "writeFrame t0 ?a w fs0 =
    fs0\<lparr>files := (files fs0)(w_file w \<mapsto> [] @ enc_frame (frame_at (t0, ?a))), free_bytes := free_bytes fs0 - (12 + length ?a)\<rparr>"
    by (rule writeFrame_room) (use c assms(2) in \<open>simp_all add: w_def\<close>)
  moreover have "NewWriter uuid_string nano t0 logDir sid uid fs = (Some w, writeFrame t0 ?a w fs0)"
    using c(1) by (simp add: NewWriter_def name_def [symmetric] w_def writeAttributionHeader_def Let_def)
  ultimately show ?thesis using c by (simp add: w_def name_def diff_le_mono)
qed

subsection \<open>Properties\<close>

text \<open>C26. A recording is complete and can be read back: with room on the partition, the file of a
  session holds its attribution frame and then every chunk shown to the user, in order and with its
  time stamp, as a sequence that the reader of the audit viewer decodes exactly; finalizing stores
  the hexadecimal SHA-256 of exactly these bytes beside it.\<close>

theorem recording_roundtrip:
  assumes "\<not> denied fs (ttyrec_name uuid_string logDir sid)" "\<not> denied fs (ttyrec_name uuid_string logDir sid @ ''.sha256'')"
    and "sum_list (map (\<lambda>x. 12 + length (snd x)) ((t0, attribution uuid_string nano t0 sid uid) # ps))
         + 2 * length (sha256 (concat (map (enc_frame \<circ> frame_at) ((t0, attribution uuid_string nano t0 sid uid) # ps)))) + 1 \<le> free_bytes fs"
    and "\<forall>x \<in> set ((t0, attribution uuid_string nano t0 sid uid) # ps). length (snd x) < 2 ^ 32"
  shows "\<exists>w fs1 w' fs2 content.
      NewWriter uuid_string nano t0 logDir sid uid fs = (Some w, fs1)
    \<and> Finalize sha256 True w (audit_writes ps w fs1) = (Inr (), w', fs2)
    \<and> files fs2 (ttyrec_name uuid_string logDir sid) = Some content
    \<and> ttyrec_frames content = map frame_at ((t0, attribution uuid_string nano t0 sid uid) # ps)
    \<and> files fs2 (ttyrec_name uuid_string logDir sid @ ''.sha256'') = Some (hex_encode (sha256 content) @ [CHR 0x0A])"
proof -
  let ?a = "attribution uuid_string nano t0 sid uid" and ?name = "ttyrec_name uuid_string logDir sid"
  define fms where "fms = map frame_at ((t0, ?a) # ps)"
  define content where "content = concat (map enc_frame fms)"
  let ?sum = "sum_list (map (\<lambda>x. 12 + length (snd x)) ps)"
  have room: "12 + length ?a + ?sum + 2 * length (sha256 content) + 1 \<le> free_bytes fs"
    using assms(3) by (simp add: content_def fms_def o_def)
  obtain w fs1 where new: "NewWriter uuid_string nano t0 logDir sid uid fs = (Some w, fs1)" "\<not> w_closed w" "w_file w = ?name"
    "files fs1 = (files fs)(w_file w \<mapsto> enc_frame (frame_at (t0, ?a)))"
    "free_bytes fs - (12 + length ?a) \<le> free_bytes fs1" "denied fs1 = denied fs"
    using NewWriter_room [OF assms(1), of nano t0 uid] room by auto
  define fs2 where "fs2 = audit_writes ps w fs1"
  have f2: "files fs2 = (files fs)(?name \<mapsto> content)" "free_bytes fs2 = free_bytes fs1 - ?sum" "denied fs2 = denied fs"
    using audit_writes_room [of w fs1 "enc_frame (frame_at (t0, ?a))" ps] new room
    by (auto simp: fs2_def content_def fms_def o_def)
  let ?chk = "hex_encode (sha256 content) @ [CHR 0x0A]"
  define fs3 where "fs3 = snd (fs_create (?name @ ''.sha256'') fs2)"
  have f3: "fs_create (?name @ ''.sha256'') fs2 = (True, fs3)" "files fs3 = (files fs2)(?name @ ''.sha256'' \<mapsto> [])"
    "free_bytes fs2 \<le> free_bytes fs3"
    using assms(2) f2(3) by (simp_all add: fs_create_def fs3_def)
  have "length ?chk \<le> free_bytes fs3" using room new(5) f2(2) f3(3) by (simp add: length_hex_encode)
  then have wr: "fs_write (?name @ ''.sha256'') ?chk fs3 =
    (True, fs3\<lparr>files := (files fs3)(?name @ ''.sha256'' \<mapsto> [] @ ?chk), free_bytes := free_bytes fs3 - length ?chk\<rparr>)"
    by (intro fs_write_room) (simp_all add: f3)
  have read: "fs_read ?name fs2 = Some content" using assms(1) f2 by (simp add: fs_read_def)
  have "Finalize sha256 True w fs2 = (Inr (), w\<lparr>w_closed := True\<rparr>,
    fs3\<lparr>files := (files fs3)(?name @ ''.sha256'' \<mapsto> [] @ ?chk), free_bytes := free_bytes fs3 - length ?chk\<rparr>)"
    using new(2,3) read f3(1) wr by (simp add: Finalize_def Let_def)
  moreover have "ttyrec_frames content = fms"
    using ttyrec.roundtrip [of fms "[]"] ttyrec.dec_Nil assms(4)
    by (simp add: ttyrec_frames_def content_def fms_def frame_ok_at)
  ultimately show ?thesis using new(1) f2(1) f3(2) unfolding fs2_def fms_def by (auto simp: fun_upd_def)
qed

definition demo_fs :: fsys where
  "demo_fs = \<lparr>files = (\<lambda>_. None), free_bytes = 1000, denied = (\<lambda>_. False)\<rparr>"

theorem recording_roundtrip_witness:
  "\<exists>w fs1 w' fs2 content.
      NewWriter (\<lambda>_. ''u'') (\<lambda>_. ''t'') 0 ''/audit'' 5 6 demo_fs = (Some w, fs1)
    \<and> Finalize (\<lambda>_. ''digest'') True w (audit_writes [(1000000000, ''hello''), (2500000000, ''bye'')] w fs1) = (Inr (), w', fs2)
    \<and> files fs2 (ttyrec_name (\<lambda>_. ''u'') ''/audit'' 5) = Some content
    \<and> ttyrec_frames content = map frame_at ((0, attribution (\<lambda>_. ''u'') (\<lambda>_. ''t'') 0 5 6) # [(1000000000, ''hello''), (2500000000, ''bye'')])
    \<and> files fs2 (ttyrec_name (\<lambda>_. ''u'') ''/audit'' 5 @ ''.sha256'') = Some (hex_encode ((\<lambda>_. ''digest'') content) @ [CHR 0x0A])"
  by (rule recording_roundtrip)
    (simp_all add: demo_fs_def attribution_def json_map_def json_string_def json_char_def)

text \<open>A recording is finalized once: after the first \<^verbatim>\<open>Finalize\<close> the deferred second one fails
  and, like any late write, changes neither the recording nor its checksum.\<close>

theorem finalize_is_final:
  assumes "Finalize sha synced w fs = (res, w', fs')"
  shows "Finalize sha synced' w' fs' = (Inl SyncFailed, w', fs') \<and> snd (audit_Write now p w' fs') = fs'"
proof -
  have "w' = w\<lparr>w_closed := True\<rparr>"
    using assms by (auto simp: Finalize_def Let_def split: if_splits option.splits prod.splits)
  then show ?thesis by (simp add: Finalize_def audit_Write_def writeFrame_def)
qed

theorem finalize_is_final_witness:
  "Finalize (\<lambda>_. ''digest'') True \<lparr>w_file = ''f'', w_closed = True, w_sessionID = 5, w_userID = 6\<rparr> demo_fs
     = (Inl SyncFailed, \<lparr>w_file = ''f'', w_closed = True, w_sessionID = 5, w_userID = 6\<rparr>, demo_fs)
   \<and> snd (audit_Write 0 ''x'' \<lparr>w_file = ''f'', w_closed = True, w_sessionID = 5, w_userID = 6\<rparr> demo_fs) = demo_fs"
  by (rule finalize_is_final [where w = "\<lparr>w_file = ''f'', w_closed = False, w_sessionID = 5, w_userID = 6\<rparr>"
        and sha = "\<lambda>_. ''digest''" and fs = demo_fs and res = "Inl OpenForHash" and synced = True])
    (simp add: Finalize_def fs_read_def demo_fs_def)

text \<open>Recording fails open: on a full partition the writer still reports every chunk as written,
  while the file does not grow, so the session goes on unrecorded.\<close>

theorem full_disk_loses_frames:
  assumes "files fs (w_file w) = Some old" "free_bytes fs = 0"
  shows "audit_Write now p w fs = (length p, fs)"
  using assms fs_write_full [OF assms]
  by (simp add: audit_Write_def writeFrame_def case_prod_beta)

theorem full_disk_loses_frames_witness:
  "audit_Write 7 ''rm -rf'' \<lparr>w_file = ''f'', w_closed = False, w_sessionID = 5, w_userID = 6\<rparr>
     \<lparr>files = [''f'' \<mapsto> []], free_bytes = 0, denied = (\<lambda>_. False)\<rparr>
   = (length ''rm -rf'', \<lparr>files = [''f'' \<mapsto> []], free_bytes = 0, denied = (\<lambda>_. False)\<rparr>)"
  by (rule full_disk_loses_frames) simp_all

text \<open>C40. The disk guard decides exactly the percentage rule, without wrap-around, on every partition
  below 184 PB: connections are rejected iff the used share reaches the limit.\<close>

theorem disk_guard_exact:
  fixes st :: statfs
  defines "tot \<equiv> unat (Blocks st) * unat (Bsize st)" and "avl \<equiv> unat (Bavail st) * unat (Bsize st)"
  assumes small: "100 * tot < 2 ^ 64" and le: "avl \<le> tot" and pos: "0 < tot"
  shows "ShouldRejectNewConnections (monitor (Some st) g) \<longleftrightarrow> unat (dg_maxUsagePct g) * tot \<le> 100 * (tot - avl)"
proof -
  have lim: "tot < 2 ^ 64" "avl < 2 ^ 64" "(tot - avl) * 100 < 2 ^ 64" using small le by linarith+
  have t: "unat (Blocks st * Bsize st) = tot"
    using lim(1) by (simp add: tot_def unat_word_ariths(2))
  have a: "unat (Bavail st * Bsize st) = avl"
    using lim(2) by (simp add: avl_def unat_word_ariths(2))
  have u: "unat (Blocks st * Bsize st - Bavail st * Bsize st) = tot - avl"
    using t a le by (simp add: unat_sub word_le_nat_alt)
  have h: "unat ((Blocks st * Bsize st - Bavail st * Bsize st) * 100) = (tot - avl) * 100"
    using lim(3) u by (simp add: unat_word_ariths(2) del: left_diff_distrib_numeral)
  have "Blocks st * Bsize st \<noteq> 0" using t pos by auto
  then have "unat (usagePercent st) = (tot - avl) * 100 div tot"
    by (simp add: usagePercent_def Let_def unat_div h t del: left_diff_distrib_numeral)
  then have "dg_maxUsagePct g \<le> usagePercent st \<longleftrightarrow> unat (dg_maxUsagePct g) * tot \<le> (tot - avl) * 100"
    using pos by (simp add: word_le_nat_alt less_eq_div_iff_mult_less_eq)
  then show ?thesis by (simp add: ShouldRejectNewConnections_def monitor_def mult.commute)
qed

theorem disk_guard_exact_witness:
  "ShouldRejectNewConnections (monitor (Some \<lparr>Blocks = 1000, Bavail = 49, Bsize = 4096\<rparr>) (NewDiskGuard 95)) \<longleftrightarrow>
     unat (dg_maxUsagePct (NewDiskGuard 95)) * (unat (Blocks \<lparr>Blocks = 1000, Bavail = 49, Bsize = 4096\<rparr>) * unat (Bsize \<lparr>Blocks = 1000, Bavail = 49, Bsize = 4096\<rparr>))
     \<le> 100 * (unat (Blocks \<lparr>Blocks = 1000, Bavail = 49, Bsize = 4096\<rparr>) * unat (Bsize \<lparr>Blocks = 1000, Bavail = 49, Bsize = 4096\<rparr>)
         - unat (Bavail \<lparr>Blocks = 1000, Bavail = 49, Bsize = 4096\<rparr>) * unat (Bsize \<lparr>Blocks = 1000, Bavail = 49, Bsize = 4096\<rparr>))"
  by (rule disk_guard_exact) simp_all

end
