(* ===== verification/Zttp_Bridge.thy ===== *)
theory Zttp_Bridge
  imports Zttp_CmdFilter Zttp_RateLimit Zttp_KillSwitch Zttp_Audit
begin

text \<open>
  The SSH bridge of one session: \<^verbatim>\<open>internal/proxy/bridge.go\<close> and \<^verbatim>\<open>keepalive.go\<close>.

  The goroutines of a session run concurrently: the two copy loops, the keepalive loop, the main
  body that waits for them, and the kill switch of another connection. Each turn of one of them is an
  action; a run is any sequence of actions that are enabled in their turn, so every interleaving is
  covered. What comes from outside is part of the action: the bytes a read delivers, the result of
  a keepalive ping. A turn of a copy loop reads one chunk and writes it; chunks are at most the copy
  buffer long. Data that the SSH library still buffers when its connection is closed count as read
  before the close.

  The handle that the bridge registers acts on the \<open>net\<close> record of its session: the session
  context and the SSH connection.
\<close>

subsection \<open>Model\<close>

definition streamBufSize :: nat where "streamBufSize = 32 * 1024"
definition streamRateLimit :: int where "streamRateLimit = 15 * 1024 * 1024"
definition streamBurst :: int where "streamBurst = 32 * 1024"

record net =
  n_ctx_done :: bool
  n_ssh_open :: bool

type_synonym nets = "uuid \<Rightarrow> net"

definition session_handle :: "uuid \<Rightarrow> nets SessionHandle" where
  "session_handle sid = \<lparr>h_Cancel = (\<lambda>w. w(sid := (w sid)\<lparr>n_ctx_done := True\<rparr>)),
     h_CloseConns = (\<lambda>w. w(sid := (w sid)\<lparr>n_ssh_open := False\<rparr>))\<rparr>"

datatype goroutine = Running | Exited

datatype keepalive = KaRunning nat | KaStopped

datatype main_state = MainBlocked | MainDraining | MainDone "string + unit"

record 'l bridge =
  b_SessionID :: uuid
  b_nets :: nets
  b_filter :: commandFilterWriter
  b_client :: sink
  b_in_limiter :: 'l
  b_out_limiter :: 'l
  b_in :: goroutine
  b_out :: goroutine
  b_on_stderr :: bool \<comment> \<open>the merged reader has passed the end of stdout\<close>
  b_deadline :: bool
  b_writer :: Writer
  b_fs :: fsys
  b_db :: db
  b_manager :: "nets ConnectionManager"
  b_killing :: bool \<comment> \<open>the kill switch has yet to mark the row\<close>
  b_keepalive :: keepalive
  b_main :: main_state

record ssh_setup =
  ok_session :: bool
  ok_pty :: bool
  ok_stdin :: bool
  ok_stdout :: bool
  ok_stderr :: bool
  ok_shell :: bool

record BridgeConfig =
  bc_SessionID :: uuid
  bc_UserID :: uuid
  bc_ServerID :: uuid
  bc_ProxyNodeIP :: IP
  bc_AllowedCmds :: "string list option"
  bc_AuditWriter :: Writer

definition go_slice :: "'a list option \<Rightarrow> 'a list" where
  "go_slice x = (case x of Some xs \<Rightarrow> xs | None \<Rightarrow> [])"

text \<open>Steps 1 to 6 of \<^verbatim>\<open>Bridge\<close>: an error before the session is registered, or the goroutines
  started. \<open>ssh\<close> says which of the SSH calls succeed.\<close>

definition Bridge_start ::
  "(string \<Rightarrow> inet option) \<Rightarrow> (int \<Rightarrow> int \<Rightarrow> 'l) \<Rightarrow> ssh_setup \<Rightarrow> instant \<Rightarrow> BridgeConfig \<Rightarrow> sink \<Rightarrow> sink \<Rightarrow>
   nets \<Rightarrow> nets ConnectionManager \<Rightarrow> fsys \<Rightarrow> db \<Rightarrow> (string \<times> db) + 'l bridge" where
  "Bridge_start inet_in newLimiter ssh now cfg backendStdin client w cm fs d =
     (if \<not> ok_session ssh then Inl (''new ssh session'', d)
      else if \<not> ok_pty ssh then Inl (''request pty'', d)
      else if \<not> ok_stdin ssh then Inl (''stdin pipe'', d)
      else if \<not> ok_stdout ssh then Inl (''stdout pipe'', d)
      else if \<not> ok_stderr ssh then Inl (''stderr pipe'', d)
      else if \<not> ok_shell ssh then Inl (''start shell'', d)
      else case Register inet_in now (bc_SessionID cfg) (bc_UserID cfg) (bc_ServerID cfg) (bc_ProxyNodeIP cfg) d of
          (Inl e, d1) \<Rightarrow> Inl (''session register'', d1)
        | (Inr _, d1) \<Rightarrow> Inr \<lparr>
            b_SessionID = bc_SessionID cfg,
            b_nets = w(bc_SessionID cfg := \<lparr>n_ctx_done = False, n_ssh_open = True\<rparr>),
            b_filter = newCommandFilterWriter backendStdin client (go_slice (bc_AllowedCmds cfg)),
            b_client = client,
            b_in_limiter = newLimiter streamRateLimit streamBurst,
            b_out_limiter = newLimiter streamRateLimit streamBurst,
            b_in = Running, b_out = Running, b_on_stderr = False, b_deadline = False,
            b_writer = bc_AuditWriter cfg, b_fs = fs, b_db = d1,
            b_manager = cm_Register (bc_SessionID cfg) (session_handle (bc_SessionID cfg)) cm,
            b_killing = False, b_keepalive = KaRunning 0, b_main = MainBlocked\<rparr>)"

datatype bridge_action =
  ClientData bytes
| ClientEnd
| BackendData instant bytes
| BackendEnd
| Ping bool
| KeepaliveStop
| Kill string
| KillMark
| MainWake
| MainFinish

text \<open>Stdin forwarder, one chunk: rate-limited read, then the command filter. The filter reports
  violations on the client connection.\<close>

definition stdin_chunk ::
  "(rune \<Rightarrow> rune \<Rightarrow> bool) \<Rightarrow> ('l \<Rightarrow> nat \<Rightarrow> io_error option \<times> 'l) \<Rightarrow> bytes \<Rightarrow> 'l bridge \<Rightarrow> 'l bridge" where
  "stdin_chunk sf waitN p b =
     (let ((q, err), rl) = rateLimitedReader_Read waitN (\<lambda>_ r. ((p, None), r)) streamBufSize
            \<lparr>rl_inner = (), rl_limiter = b_in_limiter b\<rparr>;
          (f, n) = filter_Write sf ((b_filter b)\<lparr>cf_clientW := b_client b\<rparr>) q
      in b\<lparr>b_in_limiter := rl_limiter rl, b_filter := f, b_client := cf_clientW f,
           b_in := (if n = Some (length q) \<and> err = None then Running else Exited)\<rparr>)"

text \<open>Stdout forwarder, one chunk: the client first, then the recording; a failed write to the client
  ends the loop before the chunk is recorded.\<close>

definition stdout_chunk ::
  "('l \<Rightarrow> nat \<Rightarrow> io_error option \<times> 'l) \<Rightarrow> instant \<Rightarrow> bytes \<Rightarrow> 'l bridge \<Rightarrow> 'l bridge" where
  "stdout_chunk waitN now p b =
     (let ((n, err), rl) = rateLimitedWriter_Write waitN
            (\<lambda>q s. let (ok, s') = sk_write q s
                   in ((if ok then length q else 0, if ok then None else Some (IOError ''write'')), s'))
            p \<lparr>rl_inner = b_client b, rl_limiter = b_out_limiter b\<rparr>;
          b1 = b\<lparr>b_client := rl_inner rl, b_out_limiter := rl_limiter rl\<rparr>
      in if err \<noteq> None \<or> n \<noteq> length p then b1\<lparr>b_out := Exited\<rparr>
         else b1\<lparr>b_fs := snd (audit_Write now p (b_writer b1) (b_fs b1))\<rparr>)"

definition ssh_open :: "'l bridge \<Rightarrow> bool" where
  "ssh_open b = n_ssh_open (b_nets b (b_SessionID b))"

definition ctx_done :: "'l bridge \<Rightarrow> bool" where
  "ctx_done b = n_ctx_done (b_nets b (b_SessionID b))"

definition close_ssh :: "'l bridge \<Rightarrow> 'l bridge" where
  "close_ssh b = b\<lparr>b_nets := (b_nets b)(b_SessionID b := (b_nets b (b_SessionID b))\<lparr>n_ssh_open := False\<rparr>)\<rparr>"

definition maxMiss :: nat where "maxMiss = 3"

text \<open>One tick of \<^verbatim>\<open>runKeepalive\<close>.\<close>

definition keepalive_tick :: "bool \<Rightarrow> nat \<Rightarrow> 'l bridge \<Rightarrow> 'l bridge" where
  "keepalive_tick pong missedPings b =
     (if \<not> pong then
        (if maxMiss \<le> missedPings + 1 then
           close_ssh (b\<lparr>b_db := snd (Terminate (b_SessionID b) ''terminated-timeout'' (b_db b)),
                        b_keepalive := KaStopped\<rparr>)
         else b\<lparr>b_keepalive := KaRunning (missedPings + 1)\<rparr>)
      else b\<lparr>b_keepalive := KaRunning 0\<rparr>)"

text \<open>The end of \<^verbatim>\<open>Bridge\<close> with its deferred calls.\<close>

definition bridge_finish :: "(bytes \<Rightarrow> bytes) \<Rightarrow> 'l bridge \<Rightarrow> 'l bridge" where
  "bridge_finish sha b =
     (let (_, w, fs) = Finalize sha True (b_writer b) (b_fs b);
          res = (if ctx_done b then Inl ''Access revoked by administrator'' else Inr ())
      in b\<lparr>b_deadline := False, b_writer := w, b_fs := fs,
           b_manager := cm_Deregister (b_SessionID b) (b_manager b),
           b_db := snd (Terminate (b_SessionID b) ''terminated'' (b_db b)),
           b_main := MainDone res\<rparr>)"

fun bridge_step ::
  "(rune \<Rightarrow> rune \<Rightarrow> bool) \<Rightarrow> ('l \<Rightarrow> nat \<Rightarrow> io_error option \<times> 'l) \<Rightarrow> (bytes \<Rightarrow> bytes) \<Rightarrow> bridge_action \<Rightarrow>
   'l bridge \<Rightarrow> 'l bridge option" where
  "bridge_step sf waitN sha (ClientData p) b =
     (if b_in b = Running \<and> \<not> b_deadline b \<and> 0 < length p \<and> length p \<le> streamBufSize
      then Some (stdin_chunk sf waitN p b) else None)"
| "bridge_step sf waitN sha ClientEnd b = (if b_in b = Running then Some (b\<lparr>b_in := Exited\<rparr>) else None)"
| "bridge_step sf waitN sha (BackendData now p) b =
     (if b_out b = Running \<and> ssh_open b \<and> 0 < length p \<and> length p \<le> streamBufSize
      then Some (stdout_chunk waitN now p b) else None)"
| "bridge_step sf waitN sha BackendEnd b =
     (if b_out b = Running
      then Some (if b_on_stderr b then b\<lparr>b_out := Exited\<rparr> else b\<lparr>b_on_stderr := True\<rparr>) else None)"
| "bridge_step sf waitN sha (Ping pong) b =
     (case b_keepalive b of
        KaRunning n \<Rightarrow> (if pong \<and> \<not> ssh_open b then None else Some (keepalive_tick pong n b))
      | KaStopped \<Rightarrow> None)"
| "bridge_step sf waitN sha KeepaliveStop b =
     (if ctx_done b \<and> b_keepalive b \<noteq> KaStopped then Some (b\<lparr>b_keepalive := KaStopped\<rparr>) else None)"
| "bridge_step sf waitN sha (Kill reason) b =
     (case cm_Terminate (\<lambda>_. []) 0 (b_SessionID b) reason (b_manager b, b_nets b) of
        (Inl _, _) \<Rightarrow> None
      | (Inr _, cm, w) \<Rightarrow> Some (b\<lparr>b_manager := cm, b_nets := w, b_killing := True\<rparr>))"
| "bridge_step sf waitN sha KillMark b =
     (if b_killing b
      then Some (b\<lparr>b_killing := False, b_db := snd (Terminate (b_SessionID b) StatusTerminatedKill (b_db b))\<rparr>)
      else None)"
| "bridge_step sf waitN sha MainWake b =
     (if b_main b = MainBlocked \<and> (b_in b = Exited \<or> b_out b = Exited)
      then Some (b\<lparr>b_deadline := True, b_main := MainDraining\<rparr>) else None)"
| "bridge_step sf waitN sha MainFinish b =
     (if b_main b = MainDraining \<and> b_in b = Exited \<and> b_out b = Exited
      then Some (bridge_finish sha b) else None)"

subsection \<open>The invariant\<close>

definition session_status :: "'l bridge \<Rightarrow> string option" where
  "session_status b = status_of (b_db b) (b_SessionID b)"

definition bridge_inv :: "'l bridge \<Rightarrow> bool" where
  "bridge_inv b \<longleftrightarrow>
     outages (b_db b) = [] \<and> schema_ok (b_db b) \<and> session_status b \<noteq> None
     \<and> cm_sessions (b_manager b) (b_SessionID b) \<in> {None, Some (session_handle (b_SessionID b))}
     \<and> (\<forall>n. b_keepalive b = KaRunning n \<longrightarrow> n < maxMiss)
     \<and> (\<forall>r. b_main b = MainDone r \<longrightarrow> b_in b = Exited \<and> b_out b = Exited \<and> w_closed (b_writer b)
          \<and> cm_sessions (b_manager b) (b_SessionID b) = None \<and> session_status b \<noteq> Some ''active'')
     \<and> (b_main b = MainDraining \<longrightarrow> b_in b = Exited \<or> b_out b = Exited)"

lemma status_Terminate_db:
  "outages d = [] \<Longrightarrow> st \<in> session_statuses \<Longrightarrow> status_of d sid \<noteq> None \<Longrightarrow>
   status_of (snd (Terminate sid st d)) sid = Some st"
  by (auto simp: status_of_Terminate)

lemma Kill_step:
  "bridge_step sf waitN sha (Kill reason) b = Some b' \<Longrightarrow>
   cm_sessions (b_manager b) (b_SessionID b) = Some (session_handle (b_SessionID b)) \<Longrightarrow>
   b' = b\<lparr>b_manager := cm_Deregister (b_SessionID b) (b_manager b),
          b_nets := (b_nets b)(b_SessionID b := (b_nets b (b_SessionID b))\<lparr>n_ctx_done := True, n_ssh_open := False\<rparr>),
          b_killing := True\<rparr>"
  by (auto simp: cm_Terminate_def session_handle_def Let_def split: option.splits)

lemma Kill_registered:
  "bridge_step sf waitN sha (Kill reason) b = Some b' \<Longrightarrow> cm_sessions (b_manager b) (b_SessionID b) \<noteq> None"
  by (auto simp: cm_Terminate_def split: option.splits)

lemma stdin_chunk_fields:
  "b_SessionID (stdin_chunk sf waitN p b) = b_SessionID b" "b_db (stdin_chunk sf waitN p b) = b_db b"
  "b_manager (stdin_chunk sf waitN p b) = b_manager b" "b_keepalive (stdin_chunk sf waitN p b) = b_keepalive b"
  "b_main (stdin_chunk sf waitN p b) = b_main b" "b_out (stdin_chunk sf waitN p b) = b_out b"
  "b_writer (stdin_chunk sf waitN p b) = b_writer b" "b_fs (stdin_chunk sf waitN p b) = b_fs b"
  "b_nets (stdin_chunk sf waitN p b) = b_nets b" "b_out_limiter (stdin_chunk sf waitN p b) = b_out_limiter b"
  by (simp_all add: stdin_chunk_def Let_def case_prod_beta)

lemma stdout_chunk_fields:
  "b_SessionID (stdout_chunk waitN now p b) = b_SessionID b" "b_db (stdout_chunk waitN now p b) = b_db b"
  "b_manager (stdout_chunk waitN now p b) = b_manager b" "b_keepalive (stdout_chunk waitN now p b) = b_keepalive b"
  "b_main (stdout_chunk waitN now p b) = b_main b" "b_in (stdout_chunk waitN now p b) = b_in b"
  "b_writer (stdout_chunk waitN now p b) = b_writer b" "b_filter (stdout_chunk waitN now p b) = b_filter b"
  "b_nets (stdout_chunk waitN now p b) = b_nets b" "b_in_limiter (stdout_chunk waitN now p b) = b_in_limiter b"
  by (simp_all add: stdout_chunk_def Let_def case_prod_beta)

declare stdin_chunk_fields [simp, frame_simps] stdout_chunk_fields [simp, frame_simps]

lemma Finalize_closes: "w_closed (fst (snd (Finalize sha synced w fs)))"
  by (auto simp: Finalize_def Let_def split: option.split prod.split)

lemma bridge_inv_Terminate:
  assumes "bridge_inv b" "st \<in> session_statuses" "st \<noteq> ''active''"
  shows "bridge_inv (b\<lparr>b_db := snd (Terminate (b_SessionID b) st (b_db b))\<rparr>)"
  using assms status_Terminate_db [of "b_db b" st "b_SessionID b"] up_Terminate schema_ok_Terminate
  unfolding bridge_inv_def session_status_def by (auto simp del: not_None_eq)

lemma bridge_inv_step:
  assumes inv: "bridge_inv b" and st: "bridge_step sf waitN sha a b = Some b'"
  shows "bridge_inv b'"
proof (cases a)
  case (ClientData p)
  then show ?thesis using assms
    by (cases "b_main b") (auto simp: bridge_inv_def session_status_def split: if_splits)
next
  case (BackendData now p)
  then show ?thesis using assms
    by (cases "b_main b") (auto simp: bridge_inv_def session_status_def split: if_splits)
next
  case (Ping pong)
  then obtain n where n: "b_keepalive b = KaRunning n" and b': "b' = keepalive_tick pong n b"
    using st by (auto split: keepalive.splits if_splits)
  let ?d = "b\<lparr>b_db := snd (Terminate (b_SessionID b) ''terminated-timeout'' (b_db b))\<rparr>"
  have "bridge_inv ?d" by (rule bridge_inv_Terminate [OF inv]) simp_all
  then show ?thesis using inv n unfolding b' keepalive_tick_def
    by (auto simp: bridge_inv_def session_status_def close_ssh_def maxMiss_def)
next
  case (Kill reason)
  then have "cm_sessions (b_manager b) (b_SessionID b) = Some (session_handle (b_SessionID b))"
    using inv st Kill_registered [of sf waitN sha reason b b'] unfolding bridge_inv_def by (auto simp del: bridge_step.simps)
  then show ?thesis using inv Kill_step [of sf waitN sha reason b b'] st Kill
    by (auto simp: bridge_inv_def session_status_def cm_Deregister_def simp del: bridge_step.simps)
next
  case KillMark
  then show ?thesis
    using st bridge_inv_Terminate [OF inv, of StatusTerminatedKill]
    by (auto simp: status_defs bridge_inv_def session_status_def split: if_splits)
next
  case MainFinish
  then have b': "b' = bridge_finish sha b" "b_in b = Exited" "b_out b = Exited"
    using st by (auto split: if_splits)
  have "bridge_inv (b\<lparr>b_db := snd (Terminate (b_SessionID b) ''terminated'' (b_db b))\<rparr>)"
    by (rule bridge_inv_Terminate [OF inv]) simp_all
  moreover have "session_status (bridge_finish sha b) = Some ''terminated''"
    using inv status_Terminate_db [of "b_db b" "''terminated''" "b_SessionID b"]
    by (simp add: bridge_inv_def session_status_def bridge_finish_def Let_def case_prod_beta del: not_None_eq)
  ultimately show ?thesis using b' Finalize_closes [of sha True "b_writer b" "b_fs b"]
    by (simp add: bridge_inv_def session_status_def bridge_finish_def Let_def case_prod_beta cm_Deregister_def)
qed (use assms in \<open>auto simp: bridge_inv_def session_status_def split: if_splits\<close>)

interpretation session_bridge: guarded_machine "bridge_step sf waitN sha" bridge_inv
  for sf and waitN :: "'l \<Rightarrow> nat \<Rightarrow> io_error option \<times> 'l" and sha
  by unfold_locales (rule bridge_inv_step)

subsection \<open>Traces\<close>

fun client_bytes :: "bridge_action list \<Rightarrow> bytes" where
  "client_bytes [] = []"
| "client_bytes (ClientData p # as) = p @ client_bytes as"
| "client_bytes (_ # as) = client_bytes as"

fun backend_chunks :: "bridge_action list \<Rightarrow> (instant \<times> bytes) list" where
  "backend_chunks [] = []"
| "backend_chunks (BackendData now p # as) = (now, p) # backend_chunks as"
| "backend_chunks (_ # as) = backend_chunks as"

lemma client_bytes_snoc: "client_bytes (as @ [a]) = client_bytes as @ client_bytes [a]"
  by (induction as rule: client_bytes.induct) simp_all

lemma backend_chunks_snoc: "backend_chunks (as @ [a]) = backend_chunks as @ backend_chunks [a]"
  by (induction as rule: backend_chunks.induct) simp_all

definition record_size :: "(instant \<times> bytes) list \<Rightarrow> nat" where
  "record_size ps = sum_list (map (\<lambda>x. 12 + length (snd x)) ps)"

text \<open>What has happened to the target and to the recording after the actions \<open>as\<close>, as long as the
  sinks accept data and the partition had \<open>room\<close> bytes.\<close>

definition trace_inv ::
  "(rune \<Rightarrow> rune \<Rightarrow> bool) \<Rightarrow> ('l \<Rightarrow> int) \<Rightarrow> string list \<Rightarrow> bytes \<Rightarrow> string \<Rightarrow> bytes \<Rightarrow> nat \<Rightarrow>
   bridge_action list \<Rightarrow> 'l bridge \<Rightarrow> bool" where
  "trace_inv sf burst_of cmds t0 name c0 room as b \<longleftrightarrow>
     bridge_inv b \<and> good_sink (cf_target (b_filter b)) \<and> good_sink (b_client b)
     \<and> burst_of (b_in_limiter b) = streamBurst \<and> burst_of (b_out_limiter b) = streamBurst
     \<and> cf_allowedCmds (b_filter b) = cmds \<and> cf_buf (b_filter b) = typed_line [] (client_bytes as)
     \<and> sk_data (cf_target (b_filter b)) = t0 @ filter_out sf cmds [] (client_bytes as)
     \<and> w_file (b_writer b) = name
     \<and> (record_size (backend_chunks as) \<le> room \<longrightarrow>
          files (b_fs b) name = Some (c0 @ concat (map (enc_frame \<circ> frame_at) (backend_chunks as)))
          \<and> (b_out b = Running \<longrightarrow> room - record_size (backend_chunks as) \<le> free_bytes (b_fs b)))
     \<and> (b_out b = Running \<longrightarrow> \<not> w_closed (b_writer b))"

lemma stdin_chunk_good:
  assumes w: "waits waitN burst_of" and "burst_of (b_in_limiter b) = streamBurst" "length p \<le> streamBufSize" "p \<noteq> []"
    and good: "good_sink (cf_target (b_filter b))" "good_sink (b_client b)"
  shows "\<exists>f l. stdin_chunk sf waitN p b = b\<lparr>b_in_limiter := l, b_filter := f, b_client := cf_clientW f, b_in := Running\<rparr>
    \<and> burst_of l = streamBurst \<and> good_sink (cf_target f) \<and> good_sink (cf_clientW f)
    \<and> cf_allowedCmds f = cf_allowedCmds (b_filter b) \<and> cf_buf f = typed_line (cf_buf (b_filter b)) p
    \<and> sk_data (cf_target f) = sk_data (cf_target (b_filter b)) @ filter_out sf (cf_allowedCmds (b_filter b)) (cf_buf (b_filter b)) p"
proof -
  let ?rl = "\<lparr>rl_inner = (), rl_limiter = b_in_limiter b\<rparr>"
  let ?rd = "\<lambda>_ r. ((p, None), r)" and ?f = "(b_filter b)\<lparr>cf_clientW := b_client b\<rparr>"
  have le: "int (length p) \<le> burst_of (rl_limiter ?rl)"
    using assms(2,3) by (simp add: streamBurst_def streamBufSize_def)
  note t = rateLimitedReader_transparent [OF w, of ?rd streamBufSize ?rl, simplified fst_conv, OF le]
  obtain f where f: "filter_loop sf ?f p = (f, True)" "cf_buf f = typed_line (cf_buf ?f) p"
    "cf_allowedCmds f = cf_allowedCmds ?f"
    "sk_data (cf_target f) = sk_data (cf_target ?f) @ filter_out sf (cf_allowedCmds ?f) (cf_buf ?f) p"
    "good_sink (cf_target f)" "good_sink (cf_clientW f)"
    using filter_loop_good [of ?f sf p] good by auto
  then have "filter_Write sf ?f p = (f, Some (length p))" by (simp add: filter_Write_def)
  then have "stdin_chunk sf waitN p b = b\<lparr>b_in_limiter := rl_limiter (snd (rateLimitedReader_Read waitN ?rd streamBufSize ?rl)),
      b_filter := f, b_client := cf_clientW f, b_in := Running\<rparr>"
    using t(1) by (simp add: stdin_chunk_def Let_def case_prod_beta)
  then show ?thesis using t(3) f assms(2) by auto
qed

lemma stdout_chunk_good:
  assumes w: "waits waitN burst_of" and "burst_of (b_out_limiter b) = streamBurst" "length p \<le> streamBufSize"
    and good: "good_sink (b_client b)"
  shows "\<exists>s l. stdout_chunk waitN now p b = b\<lparr>b_client := s, b_out_limiter := l, b_fs := writeFrame now p (b_writer b) (b_fs b)\<rparr>
    \<and> burst_of l = streamBurst \<and> good_sink s \<and> sk_data s = sk_data (b_client b) @ p"
proof -
  let ?rl = "\<lparr>rl_inner = b_client b, rl_limiter = b_out_limiter b\<rparr>"
  let ?wr = "\<lambda>q s. let (ok, s') = sk_write q s
    in ((if ok then length q else 0, if ok then None else Some (IOError ''write'')), s')"
  have le: "int (length p) \<le> burst_of (rl_limiter ?rl)"
    using assms(2,3) by (simp add: streamBurst_def streamBufSize_def)
  note t = rateLimitedWriter_transparent [OF w le, of ?wr]
  obtain s where s: "sk_write p (b_client b) = (True, s)" "good_sink s" "sk_data s = sk_data (b_client b) @ p"
    using good that by (cases "sk_fails (b_client b)") (auto simp: sk_write_def good_sink_def)
  have "stdout_chunk waitN now p b = b\<lparr>b_client := s,
      b_out_limiter := rl_limiter (snd (rateLimitedWriter_Write waitN ?wr p ?rl)),
      b_fs := writeFrame now p (b_writer b) (b_fs b)\<rparr>"
    using t s by (simp add: stdout_chunk_def Let_def case_prod_beta audit_Write_def)
  then show ?thesis using t(3) s assms(2) by auto
qed

lemma Finalize_keeps: "files (snd (snd (Finalize sha synced w fs))) (w_file w) = files fs (w_file w)"
  by (auto simp: Finalize_def Let_def fs_create_def fs_write_def split: option.split prod.split)

lemma record_size_snoc: "record_size (ps @ [x]) = record_size ps + 12 + length (snd x)"
  by (simp add: record_size_def)

text \<open>As long as the recording fits, a chunk of output is recorded whole.\<close>

lemma trace_records:
  assumes tr: "trace_inv sf burst_of cmds t0 name c0 room as b" and run: "b_out b = Running"
    and fits: "record_size (backend_chunks (as @ [BackendData now p])) \<le> room"
  shows "writeFrame now p (b_writer b) (b_fs b) = (b_fs b)\<lparr>
      files := (files (b_fs b))(name \<mapsto> c0 @ concat (map (enc_frame \<circ> frame_at) (backend_chunks (as @ [BackendData now p])))),
      free_bytes := free_bytes (b_fs b) - (12 + length p)\<rparr>"
proof -
  have "record_size (backend_chunks as) + 12 + length p \<le> room"
    using fits by (simp add: backend_chunks_snoc record_size_snoc)
  moreover from this have "room - record_size (backend_chunks as) \<le> free_bytes (b_fs b)"
    using tr run by (simp add: trace_inv_def)
  ultimately have "12 + length p \<le> free_bytes (b_fs b)" "record_size (backend_chunks as) \<le> room" by linarith+
  then show ?thesis
    using writeFrame_room [of "b_writer b" "b_fs b" "c0 @ concat (map (enc_frame \<circ> frame_at) (backend_chunks as))" p now]
      tr run by (simp add: trace_inv_def backend_chunks_snoc)
qed

lemma trace_inv_step:
  assumes w: "waits waitN burst_of" and tr: "trace_inv sf burst_of cmds t0 name c0 room as b"
    and st: "bridge_step sf waitN sha a b = Some b'"
  shows "trace_inv sf burst_of cmds t0 name c0 room (as @ [a]) b'"
proof -
  have inv: "bridge_inv b'" using bridge_inv_step [OF _ st] tr by (simp add: trace_inv_def)
  have other: "trace_inv sf burst_of cmds t0 name c0 room (as @ [a]) b'"
    if "client_bytes [a] = []" "backend_chunks [a] = []" "b_filter b' = b_filter b" "b_client b' = b_client b"
      "b_in_limiter b' = b_in_limiter b" "b_out_limiter b' = b_out_limiter b" "b_writer b' = b_writer b"
      "b_fs b' = b_fs b" "b_out b' = Running \<Longrightarrow> b_out b = Running"
    using tr inv that unfolding trace_inv_def client_bytes_snoc backend_chunks_snoc by simp
  show ?thesis
  proof (cases a)
    case (ClientData p)
    then have p: "length p \<le> streamBufSize" "p \<noteq> []" and b': "b' = stdin_chunk sf waitN p b"
      using st by (auto split: if_splits)
    obtain f l where "b' = b\<lparr>b_in_limiter := l, b_filter := f, b_client := cf_clientW f, b_in := Running\<rparr>"
      "burst_of l = streamBurst" "good_sink (cf_target f)" "good_sink (cf_clientW f)"
      "cf_allowedCmds f = cf_allowedCmds (b_filter b)" "cf_buf f = typed_line (cf_buf (b_filter b)) p"
      "sk_data (cf_target f) = sk_data (cf_target (b_filter b)) @ filter_out sf (cf_allowedCmds (b_filter b)) (cf_buf (b_filter b)) p"
      using stdin_chunk_good [OF w, of b p sf] p tr unfolding b' trace_inv_def by auto
    then show ?thesis using tr inv ClientData
      by (simp add: trace_inv_def client_bytes_snoc backend_chunks_snoc typed_line_append filter_out_append)
  next
    case (BackendData now p)
    then have p: "length p \<le> streamBufSize" "b_out b = Running" and b': "b' = stdout_chunk waitN now p b"
      using st by (auto split: if_splits)
    obtain s l where b'': "b' = b\<lparr>b_client := s, b_out_limiter := l, b_fs := writeFrame now p (b_writer b) (b_fs b)\<rparr>"
      and sl: "burst_of l = streamBurst" "good_sink s"
      using stdout_chunk_good [OF w, of b p now] p tr unfolding b' trace_inv_def by auto
    have "writeFrame now p (b_writer b) (b_fs b) = (b_fs b)\<lparr>
        files := (files (b_fs b))(name \<mapsto> c0 @ concat (map (enc_frame \<circ> frame_at) (backend_chunks (as @ [a])))),
        free_bytes := free_bytes (b_fs b) - (12 + length p)\<rparr>"
      if "record_size (backend_chunks (as @ [a])) \<le> room"
      using trace_records [OF tr p(2)] that unfolding BackendData by blast
    then show ?thesis using tr inv BackendData sl p(2) unfolding b''
      by (auto simp: trace_inv_def client_bytes_snoc backend_chunks_snoc record_size_snoc)
  next
    case MainFinish
    then have b': "b' = bridge_finish sha b" and out: "b_out b = Exited" using st by (auto split: if_splits)
    have "w_file (fst (snd (Finalize sha True (b_writer b) (b_fs b)))) = w_file (b_writer b)"
      by (auto simp: Finalize_def Let_def split: option.split prod.split)
    then show ?thesis using tr inv out Finalize_keeps [of sha True "b_writer b" "b_fs b"] MainFinish unfolding b'
      by (simp add: trace_inv_def client_bytes_snoc backend_chunks_snoc bridge_finish_def Let_def case_prod_beta)
  next
    case (Kill reason)
    then show ?thesis using st by (intro other) (auto split: sum.splits prod.splits)
  next
    case (Ping pong)
    then show ?thesis using st
      by (intro other) (auto simp: keepalive_tick_def close_ssh_def split: keepalive.splits if_splits)
  qed (use st in \<open>intro other; auto split: if_splits\<close>)+
qed

lemma backend_chunk_small:
  "run_opt (bridge_step sf waitN sha) as b = Some b' \<Longrightarrow> x \<in> set (backend_chunks as) \<Longrightarrow> length (snd x) \<le> streamBufSize"
proof (induction as arbitrary: b)
  case (Cons a as)
  then obtain b1 where st: "bridge_step sf waitN sha a b = Some b1" and run: "run_opt (bridge_step sf waitN sha) as b1 = Some b'"
    by (auto split: option.splits)
  show ?case
  proof (cases "x \<in> set (backend_chunks as)")
    case False
    then obtain now p where "a = BackendData now p" "x = (now, p)" using Cons.prems(2) by (cases a) auto
    then show ?thesis using st by (auto split: if_splits)
  qed (rule Cons.IH [OF run])
qed simp

lemma trace_inv_run:
  assumes "waits waitN burst_of" "trace_inv sf burst_of cmds t0 name c0 room [] b"
  shows "run_opt (bridge_step sf waitN sha) as b = Some b' \<Longrightarrow> trace_inv sf burst_of cmds t0 name c0 room as b'"
proof (induction as arbitrary: b' rule: rev_induct)
  case Nil
  then show ?case using assms(2) by simp
next
  case (snoc a as)
  then obtain b1 where "run_opt (bridge_step sf waitN sha) as b = Some b1" "bridge_step sf waitN sha a b1 = Some b'"
    by (auto simp: run_opt_snoc bind_eq_Some_conv)
  then show ?case using snoc.IH trace_inv_step [OF assms(1)] by blast
qed

lemma Bridge_start_trace:
  assumes "Bridge_start inet_in newLimiter ssh now cfg stdin client w cm fs d = Inr b"
    and "schema_ok d" "outages d = []" "good_sink stdin" "good_sink client" "burst_of (newLimiter streamRateLimit streamBurst) = streamBurst"
    and "\<not> w_closed (bc_AuditWriter cfg)" "files fs (w_file (bc_AuditWriter cfg)) = Some c0"
  shows "trace_inv sf burst_of (go_slice (bc_AllowedCmds cfg)) (sk_data stdin) (w_file (bc_AuditWriter cfg)) c0 (free_bytes fs) [] b"
proof -
  obtain d1 where reg: "Register inet_in now (bc_SessionID cfg) (bc_UserID cfg) (bc_ServerID cfg) (bc_ProxyNodeIP cfg) d = (Inr (), d1)"
    using assms(1) by (auto simp: Bridge_start_def split: if_splits sum.splits prod.splits)
  then have "schema_ok d1" "outages d1 = []"
    using schema_ok_Register [OF assms(2)] up_Register [OF assms(3)] by (metis snd_conv)+
  moreover have "status_of d1 (bc_SessionID cfg) \<noteq> None"
    using reg assms(3) by (auto simp: Register_def run_stmt_up status_of_def find_None_iff split: option.splits if_splits)
  ultimately show ?thesis using assms reg
    by (auto simp: Bridge_start_def trace_inv_def bridge_inv_def session_status_def newCommandFilterWriter_def
        cm_Register_def record_size_def typed_line_def maxMiss_def split: if_splits)
qed

lemma Bridge_start_row:
  assumes "Bridge_start inet_in newLimiter ssh now cfg stdin client w cm fs d = Inr b"
  shows "cf_allowedCmds (b_filter b) = go_slice (bc_AllowedCmds cfg)"
    and "\<exists>a \<in> set (sessions (b_db b)). a_session_id a = bc_SessionID cfg \<and> a_user_id a = bc_UserID cfg
      \<and> a_server_id a = bc_ServerID cfg \<and> a_status a = ''active''"
  using assms
  by (auto simp: Bridge_start_def Register_def run_stmt_def newCommandFilterWriter_def
      split: if_splits sum.splits prod.splits list.splits option.splits)

subsection \<open>After a kill\<close>

definition revoked :: "string + unit" where
  "revoked = Inl ''Access revoked by administrator''"

definition killed_inv :: "'l bridge \<Rightarrow> bool" where
  "killed_inv b \<longleftrightarrow> bridge_inv b \<and> ctx_done b \<and> \<not> ssh_open b
     \<and> cm_sessions (b_manager b) (b_SessionID b) = None \<and> (\<forall>r. b_main b = MainDone r \<longrightarrow> r = revoked)"

lemma killed_inv_step:
  assumes "killed_inv b" "bridge_step sf waitN sha a b = Some b'"
  shows "killed_inv b'"
proof -
  have inv: "bridge_inv b'" using assms bridge_inv_step unfolding killed_inv_def by blast
  show ?thesis
  proof (cases a)
    case (Kill reason)
    then show ?thesis using assms Kill_registered [of sf waitN sha reason b b'] by (simp add: killed_inv_def del: bridge_step.simps)
  next
    case (Ping pong)
    then show ?thesis using assms inv
      by (auto simp: killed_inv_def keepalive_tick_def close_ssh_def ctx_done_def ssh_open_def
          split: keepalive.splits if_splits)
  next
    case MainFinish
    then show ?thesis using assms inv
      by (auto simp: killed_inv_def bridge_finish_def ctx_done_def ssh_open_def revoked_def cm_Deregister_def
          Let_def case_prod_beta split: if_splits)
  qed (use assms inv in \<open>auto simp: killed_inv_def ctx_done_def ssh_open_def split: if_splits\<close>)
qed

interpretation killed_bridge: guarded_machine "bridge_step sf waitN sha" killed_inv
  for sf and waitN :: "'l \<Rightarrow> nat \<Rightarrow> io_error option \<times> 'l" and sha
  by unfold_locales (rule killed_inv_step)

lemma Kill_killed_inv:
  assumes "bridge_inv b" "bridge_step sf waitN sha (Kill reason) b = Some b'"
  shows "killed_inv b'"
proof -
  have reg: "cm_sessions (b_manager b) (b_SessionID b) = Some (session_handle (b_SessionID b))"
    using assms(1) Kill_registered [OF assms(2)] by (auto simp: bridge_inv_def)
  note b' = Kill_step [OF assms(2) reg]
  have "b_main b \<noteq> MainDone r" for r using assms(1) reg by (auto simp: bridge_inv_def)
  then show ?thesis using bridge_inv_step [OF assms] b'
    by (auto simp: killed_inv_def ctx_done_def ssh_open_def cm_Deregister_def)
qed

text \<open>What is left to do for the goroutines of a session that is to end: at most five turns.\<close>

definition drain :: "'l bridge \<Rightarrow> bridge_action list" where
  "drain b = (if b_main b \<in> {MainBlocked, MainDraining} then
     (if b_out b = Running then (if b_on_stderr b then [BackendEnd] else [BackendEnd, BackendEnd]) else [])
     @ (if b_main b = MainBlocked then [MainWake] else [])
     @ (if b_in b = Running then [ClientEnd] else []) @ [MainFinish] else [])"

lemma drain_runs:
  "\<exists>b'. run_opt (bridge_step sf waitN sha) (drain b) b = Some b'
     \<and> (\<exists>r. b_main b' = MainDone r) \<and> length (drain b) \<le> 5
     \<and> set (drain b) \<subseteq> {BackendEnd, MainWake, ClientEnd, MainFinish}"
proof -
  have fin: "b_main (bridge_finish sha x) = MainDone (if ctx_done x then Inl ''Access revoked by administrator'' else Inr ())" for x :: "'a bridge"
    by (simp add: bridge_finish_def Let_def case_prod_beta)
  show ?thesis
    by (cases "b_main b"; cases "b_out b"; cases "b_in b"; cases "b_on_stderr b") (simp_all add: drain_def fin)
qed

subsection \<open>Properties\<close>

text \<open>An example session: one user, one server, a recording with room.\<close>

definition demo_wait :: "int \<Rightarrow> nat \<Rightarrow> io_error option \<times> int" where
  "demo_wait l n = (if int n \<le> l then None else Some EOF, l)"

definition demo_writer :: Writer where
  "demo_writer = \<lparr>w_file = ''/audit/22.ttyrec'', w_closed = False, w_sessionID = 22, w_userID = 1\<rparr>"

definition demo_audit :: fsys where
  "demo_audit = \<lparr>files = [''/audit/22.ttyrec'' \<mapsto> []], free_bytes = 1000, denied = (\<lambda>_. False)\<rparr>"

definition demo_cfg :: BridgeConfig where
  "demo_cfg = \<lparr>bc_SessionID = 22, bc_UserID = 1, bc_ServerID = 7, bc_ProxyNodeIP = ParseIP ''10.1.1.1'',
     bc_AllowedCmds = Some [''ls''], bc_AuditWriter = demo_writer\<rparr>"

definition demo_ssh :: ssh_setup where
  "demo_ssh = \<lparr>ok_session = True, ok_pty = True, ok_stdin = True, ok_stdout = True, ok_stderr = True, ok_shell = True\<rparr>"

definition empty_sink :: sink where
  "empty_sink = \<lparr>sk_data = [], sk_fails = []\<rparr>"

definition demo_start :: "(string \<times> db) + int bridge" where
  "demo_start = Bridge_start demo_inet (\<lambda>r b. b) demo_ssh 9 demo_cfg empty_sink empty_sink
     (\<lambda>_. \<lparr>n_ctx_done = False, n_ssh_open = False\<rparr>) NewConnectionManager demo_audit demo_sessions"

definition demo_bridge :: "int bridge" where
  "demo_bridge = projr demo_start"

lemma demo_waits: "waits demo_wait (\<lambda>l. l)"
  by (simp add: waits_def demo_wait_def)

lemma demo_keys:
  "22 \<notin> a_session_id ` set (sessions demo_sessions)" "1 \<in> u_id ` set (users demo_sessions)"
  "7 \<in> s_id ` set (servers demo_sessions)"
  by (simp_all add: demo_sessions_def)

lemmas demo_start_simps = demo_bridge_def demo_start_def Bridge_start_def demo_ssh_def demo_cfg_def
  Register_def run_stmt_up demo_node(2,3) demo_keys

lemma demo_started: "demo_start = Inr demo_bridge"
  by (simp add: demo_start_simps)

lemma demo_fields:
  "b_in demo_bridge = Running" "b_out demo_bridge = Running" "b_deadline demo_bridge = False" "ssh_open demo_bridge"
  "b_main demo_bridge = MainBlocked" "b_keepalive demo_bridge = KaRunning 0" "b_SessionID demo_bridge = 22"
  "cm_sessions (b_manager demo_bridge) 22 = Some (session_handle 22)" "b_on_stderr demo_bridge = False"
  by (simp_all add: demo_start_simps ssh_open_def cm_Register_def)

lemma empty_sink_good [simp]: "good_sink empty_sink" "sk_data empty_sink = []"
  by (simp_all add: empty_sink_def good_sink_def)

lemma demo_inv: "bridge_inv demo_bridge"
  using Bridge_start_trace [OF demo_started [unfolded demo_start_def], of "\<lambda>l. l" "[]" "\<lambda>_ _. False"]
  by (simp add: demo_cfg_def demo_writer_def demo_audit_def trace_inv_def)

lemma demo_run:
  "\<exists>b'. run_opt (bridge_step (\<lambda>_ _. False) demo_wait (\<lambda>_. [])) [ClientData ''ls'', BackendData 0 ''x'', Ping True] demo_bridge = Some b'"
  using demo_fields by (simp add: streamBufSize_def ssh_open_def)





text \<open>A kill takes effect in every interleaving: from then on the target can send nothing more to
  the client, whatever the goroutines did in between at most five of their own turns end the
  session, which reports that access was revoked, and the session is not listed as active.\<close>

theorem kill_ends_session:
  assumes "bridge_inv b" "bridge_step sf waitN sha (Kill reason) b = Some b1"
    and "run_opt (bridge_step sf waitN sha) as b1 = Some b2"
  shows "backend_chunks as = []
    \<and> (\<exists>bs b3. length bs \<le> 5 \<and> set bs \<subseteq> {BackendEnd, MainWake, ClientEnd, MainFinish}
        \<and> run_opt (bridge_step sf waitN sha) bs b2 = Some b3
        \<and> b_main b3 = MainDone revoked \<and> session_status b3 \<noteq> Some ''active'')"
proof -
  have k1: "killed_inv b1" by (rule Kill_killed_inv [OF assms(1,2)])
  have silent: "killed_inv c \<Longrightarrow> run_opt (bridge_step sf waitN sha) cs c = Some c' \<Longrightarrow> backend_chunks cs = []" for cs c c'
  proof (induction cs arbitrary: c)
    case (Cons a cs)
    then obtain c1 where st: "bridge_step sf waitN sha a c = Some c1" and run: "run_opt (bridge_step sf waitN sha) cs c1 = Some c'"
      by (auto split: option.splits)
    have "backend_chunks cs = []" using Cons.IH [OF killed_inv_step [OF Cons.prems(1) st] run] .
    moreover have "backend_chunks [a] = []"
      using st Cons.prems(1) by (cases a) (auto simp: killed_inv_def split: if_splits)
    ultimately show ?case by (cases a) simp_all
  qed simp
  have k2: "killed_inv b2" using killed_bridge.inv_run_opt [OF assms(3) k1] .
  obtain b3 r where run: "run_opt (bridge_step sf waitN sha) (drain b2) b2 = Some b3" and fin: "b_main b3 = MainDone r"
    and small: "length (drain b2) \<le> 5" "set (drain b2) \<subseteq> {BackendEnd, MainWake, ClientEnd, MainFinish}"
    using drain_runs [of sf waitN sha b2] by blast
  have "killed_inv b3" using killed_bridge.inv_run_opt [OF run k2] .
  then have "b_main b3 = MainDone revoked \<and> session_status b3 \<noteq> Some ''active''"
    using fin by (auto simp: killed_inv_def bridge_inv_def)
  then show ?thesis using silent [OF k1 assms(3)] run small by blast
qed

lemma demo_kill:
  "\<exists>b1. bridge_step (\<lambda>_ _. False) demo_wait (\<lambda>_. []) (Kill ''admin-kill'') demo_bridge = Some b1"
  using demo_fields by (simp add: cm_Terminate_def Let_def)

theorem kill_ends_session_witness:
  "\<exists>b1 b2. bridge_step (\<lambda>_ _. False) demo_wait (\<lambda>_. []) (Kill ''admin-kill'') demo_bridge = Some b1
    \<and> run_opt (bridge_step (\<lambda>_ _. False) demo_wait (\<lambda>_. [])) [KillMark] b1 = Some b2
    \<and> backend_chunks [KillMark] = []
    \<and> (\<exists>bs b3. length bs \<le> 5 \<and> set bs \<subseteq> {BackendEnd, MainWake, ClientEnd, MainFinish}
        \<and> run_opt (bridge_step (\<lambda>_ _. False) demo_wait (\<lambda>_. [])) bs b2 = Some b3
        \<and> b_main b3 = MainDone revoked \<and> session_status b3 \<noteq> Some ''active'')"
proof -
  obtain b1 where k: "bridge_step (\<lambda>_ _. False) demo_wait (\<lambda>_. []) (Kill ''admin-kill'') demo_bridge = Some b1"
    using demo_kill by blast
  then have "b_killing b1" using Kill_step [OF k] demo_fields by simp
  then obtain b2 where m: "run_opt (bridge_step (\<lambda>_ _. False) demo_wait (\<lambda>_. [])) [KillMark] b1 = Some b2" by simp
  show ?thesis using kill_ends_session [OF demo_inv k m] k m by blast
qed

lemma status_KillMark:
  "bridge_inv b \<Longrightarrow> bridge_step sf waitN sha KillMark b = Some b' \<Longrightarrow> session_status b' = Some ''terminated-kill''"
  using status_Terminate_db [of "b_db b" "''terminated-kill''" "b_SessionID b"]
  by (auto simp: session_status_def bridge_inv_def status_defs split: if_splits simp del: not_None_eq)

lemma drain_keeps_killing:
  "run_opt (bridge_step sf waitN sha) as b = Some b' \<Longrightarrow> set as \<subseteq> {BackendEnd, MainWake, ClientEnd, MainFinish} \<Longrightarrow>
   b_killing b' = b_killing b"
proof (induction as arbitrary: b)
  case (Cons a as)
  then obtain b1 where "bridge_step sf waitN sha a b = Some b1" "run_opt (bridge_step sf waitN sha) as b1 = Some b'"
    by (auto split: option.splits)
  moreover from this have "b_killing b1 = b_killing b"
    using Cons.prems(2) by (auto simp: bridge_finish_def Let_def case_prod_beta split: if_splits)
  ultimately show ?case using Cons by auto
qed simp

text \<open>The last action of a drained session sets the status.\<close>

lemma drain_status:
  assumes "bridge_inv b" "b_main b \<in> {MainBlocked, MainDraining}" "run_opt (bridge_step sf waitN sha) (drain b) b = Some b'"
  shows "session_status b' = Some ''terminated''"
proof -
  obtain bs where bs: "drain b = bs @ [MainFinish]" using assms(2) unfolding drain_def by (metis append_assoc)
  then obtain b1 where run: "run_opt (bridge_step sf waitN sha) bs b = Some b1" and fin: "bridge_step sf waitN sha MainFinish b1 = Some b'"
    using assms(3) by (auto simp: run_opt_snoc bind_eq_Some_conv)
  have "bridge_inv b1" using session_bridge.inv_run_opt [OF run assms(1)] .
  then show ?thesis
    using fin status_Terminate_db [of "b_db b1" "''terminated''" "b_SessionID b1"]
    by (auto simp: session_status_def bridge_inv_def bridge_finish_def Let_def case_prod_beta split: if_splits simp del: not_None_eq)
qed

text \<open>The final status of a killed session is a race: both its row is left as an ordinary
  termination, when the teardown comes after the kill switch has marked it, and as a kill, when it
  comes before.\<close>

theorem kill_status_race:
  assumes "bridge_inv b" "cm_sessions (b_manager b) (b_SessionID b) \<noteq> None"
  shows "(\<exists>as b'. run_opt (bridge_step sf waitN sha) as b = Some b' \<and> Kill reason \<in> set as \<and> KillMark \<in> set as
      \<and> b_main b' = MainDone revoked \<and> session_status b' = Some ''terminated'')
    \<and> (\<exists>as b'. run_opt (bridge_step sf waitN sha) as b = Some b' \<and> Kill reason \<in> set as \<and> KillMark \<in> set as
      \<and> b_main b' = MainDone revoked \<and> session_status b' = Some ''terminated-kill'')"
proof -
  obtain b1 where k: "bridge_step sf waitN sha (Kill reason) b = Some b1"
    using assms(2) by (auto simp: cm_Terminate_def Let_def)
  have reg: "cm_sessions (b_manager b) (b_SessionID b) = Some (session_handle (b_SessionID b))"
    using assms by (auto simp: bridge_inv_def)
  have live: "b_main b \<in> {MainBlocked, MainDraining}" using assms by (cases "b_main b") (auto simp: bridge_inv_def)
  have k1: "killed_inv b1" and kb: "b_killing b1" "b_main b1 = b_main b"
    using Kill_killed_inv [OF assms(1) k] Kill_step [OF k reg] by simp_all
  obtain b2 where m: "bridge_step sf waitN sha KillMark b1 = Some b2" and m': "b_main b2 = b_main b" using kb by simp
  have k2: "killed_inv b2" using killed_inv_step [OF k1 m] .
  obtain b3 r where d: "run_opt (bridge_step sf waitN sha) (drain b2) b2 = Some b3" "b_main b3 = MainDone r"
    using drain_runs [of sf waitN sha b2] by blast
  have "killed_inv b3" using killed_bridge.inv_run_opt [OF d(1) k2] .
  then have "b_main b3 = MainDone revoked" using d(2) by (simp add: killed_inv_def)
  moreover have "session_status b3 = Some ''terminated''"
    using drain_status [OF _ _ d(1)] k2 live m' by (simp add: killed_inv_def)
  moreover have "run_opt (bridge_step sf waitN sha) (Kill reason # KillMark # drain b2) b = Some b3"
    using k m d(1) by (simp del: bridge_step.simps)
  ultimately have lost: "\<exists>as b'. run_opt (bridge_step sf waitN sha) as b = Some b' \<and> Kill reason \<in> set as \<and> KillMark \<in> set as
      \<and> b_main b' = MainDone revoked \<and> session_status b' = Some ''terminated''"
    by (intro exI [of _ "Kill reason # KillMark # drain b2"] exI [of _ b3]) simp
  obtain c3 r' where e: "run_opt (bridge_step sf waitN sha) (drain b1) b1 = Some c3" "b_main c3 = MainDone r'"
    "set (drain b1) \<subseteq> {BackendEnd, MainWake, ClientEnd, MainFinish}"
    using drain_runs [of sf waitN sha b1] by blast
  have k3: "killed_inv c3" using killed_bridge.inv_run_opt [OF e(1) k1] .
  then have c3: "b_main c3 = MainDone revoked" "b_killing c3"
    using e(2) drain_keeps_killing [OF e(1,3)] kb by (simp_all add: killed_inv_def)
  then obtain c4 where n: "bridge_step sf waitN sha KillMark c3 = Some c4" "b_main c4 = MainDone revoked" by simp
  have "session_status c4 = Some ''terminated-kill''"
    using status_KillMark [OF _ n(1)] k3 by (simp add: killed_inv_def)
  moreover have "run_opt (bridge_step sf waitN sha) (Kill reason # drain b1 @ [KillMark]) b = Some c4"
    using k e(1) n(1) by (simp add: run_opt_snoc del: bridge_step.simps)
  ultimately have "\<exists>as b'. run_opt (bridge_step sf waitN sha) as b = Some b' \<and> Kill reason \<in> set as \<and> KillMark \<in> set as
      \<and> b_main b' = MainDone revoked \<and> session_status b' = Some ''terminated-kill''"
    using n(2) by (intro exI [of _ "Kill reason # drain b1 @ [KillMark]"] exI [of _ c4]) simp
  with lost show ?thesis by blast
qed

theorem kill_status_race_witness:
  "(\<exists>as b'. run_opt (bridge_step (\<lambda>_ _. False) demo_wait (\<lambda>_. [])) as demo_bridge = Some b' \<and> Kill ''admin-kill'' \<in> set as \<and> KillMark \<in> set as
      \<and> b_main b' = MainDone revoked \<and> session_status b' = Some ''terminated'')
    \<and> (\<exists>as b'. run_opt (bridge_step (\<lambda>_ _. False) demo_wait (\<lambda>_. [])) as demo_bridge = Some b' \<and> Kill ''admin-kill'' \<in> set as \<and> KillMark \<in> set as
      \<and> b_main b' = MainDone revoked \<and> session_status b' = Some ''terminated-kill'')"
  by (rule kill_status_race [OF demo_inv]) (simp add: demo_fields)

text \<open>Teardown is complete in every interleaving: once the main body has returned, both copy loops
  are over, the recording is closed, the kill switch no longer knows the session, its row is not
  active, and the schema constraints hold.\<close>

theorem teardown_complete:
  assumes "bridge_inv b" "reaches (bridge_step sf waitN sha) b b'" "b_main b' = MainDone r"
  shows "b_in b' = Exited \<and> b_out b' = Exited \<and> w_closed (b_writer b')
    \<and> cm_sessions (b_manager b') (b_SessionID b') = None \<and> session_status b' \<notin> {None, Some ''active''}
    \<and> schema_ok (b_db b')"
  using session_bridge.inv_reaches [OF assms(2,1)] assms(3) by (simp add: bridge_inv_def)

theorem teardown_complete_witness:
  "\<exists>b' r. reaches (bridge_step (\<lambda>_ _. False) demo_wait (\<lambda>_. [])) demo_bridge b' \<and> b_main b' = MainDone r
    \<and> b_in b' = Exited \<and> b_out b' = Exited \<and> w_closed (b_writer b')
    \<and> cm_sessions (b_manager b') (b_SessionID b') = None \<and> session_status b' \<notin> {None, Some ''active''}
    \<and> schema_ok (b_db b')"
proof -
  obtain b' r where b': "run_opt (bridge_step (\<lambda>_ _. False) demo_wait (\<lambda>_. [])) (drain demo_bridge) demo_bridge = Some b'" "b_main b' = MainDone r"
    using drain_runs [of "\<lambda>_ _. False" demo_wait "\<lambda>_. []" demo_bridge] by blast
  have r: "reaches (bridge_step (\<lambda>_ _. False) demo_wait (\<lambda>_. [])) demo_bridge b'"
    unfolding reaches_iff_run using b'(1) by (rule exI)
  show ?thesis
    by (rule exI [of _ b'], rule exI [of _ r]) (use r b'(2) teardown_complete [OF demo_inv r b'(2)] in simp)
qed

lemma three_misses:
  assumes "bridge_inv b" "b_keepalive b = KaRunning n"
  shows "\<exists>b'. run_opt (bridge_step sf waitN sha) (replicate (maxMiss - n) (Ping False)) b = Some b'
    \<and> session_status b' = Some ''terminated-timeout'' \<and> b_main b' = b_main b"
  using assms
proof (induction "maxMiss - n" arbitrary: b n)
  case 0
  then show ?case by (simp add: bridge_inv_def)
next
  case (Suc k)
  let ?b = "keepalive_tick False n b"
  have st: "bridge_step sf waitN sha (Ping False) b = Some ?b" using Suc.prems(2) by simp
  have inv: "bridge_inv ?b" using bridge_inv_step [OF Suc.prems(1) st] .
  have k: "k = maxMiss - (n + 1)" using Suc.hyps(2) by simp
  note IH = Suc.hyps(1) [OF k]
  show ?case
  proof (cases k)
    case 0
    then have n: "maxMiss - n = 1" "maxMiss \<le> n + 1" using Suc.hyps(2) by simp_all
    have "session_status ?b = Some ''terminated-timeout''"
      using n(2) Suc.prems(1) status_Terminate_db [of "b_db b" "''terminated-timeout''" "b_SessionID b"]
      by (simp add: keepalive_tick_def close_ssh_def session_status_def bridge_inv_def del: not_None_eq)
    then show ?thesis using st n by (simp add: keepalive_tick_def close_ssh_def del: bridge_step.simps)
  next
    case (Suc j)
    then have n: "maxMiss - n = Suc (maxMiss - (n + 1))" "\<not> maxMiss \<le> n + 1" using k by linarith+
    then have t: "?b = b\<lparr>b_keepalive := KaRunning (n + 1)\<rparr>" by (simp add: keepalive_tick_def)
    obtain b' where "run_opt (bridge_step sf waitN sha) (replicate (maxMiss - (n + 1)) (Ping False)) ?b = Some b'"
      "session_status b' = Some ''terminated-timeout''" "b_main b' = b_main ?b"
      using IH [of ?b] inv t by auto
    then show ?thesis using st n(1) t by (auto simp del: bridge_step.simps)
  qed
qed

text \<open>The keepalive loop outlives the session: after any ordinary exit it still runs, and when the
  idle backend connection dies later, three missed pings rewrite the final status of the session as
  a timeout.\<close>

theorem exit_later_becomes_timeout:
  assumes "bridge_inv b" "b_main b = MainDone (Inr ())" "b_keepalive b = KaRunning n"
  shows "\<exists>b'. run_opt (bridge_step sf waitN sha) (replicate (maxMiss - n) (Ping False)) b = Some b'
    \<and> session_status b' = Some ''terminated-timeout'' \<and> b_main b' = MainDone (Inr ())"
  using three_misses [OF assms(1,3), of sf waitN sha] assms(2) by simp

lemma demo_exit:
  "\<exists>b. run_opt (bridge_step (\<lambda>_ _. False) demo_wait (\<lambda>_. [])) [BackendEnd, BackendEnd, MainWake, ClientEnd, MainFinish] demo_bridge = Some b
    \<and> b_main b = MainDone (Inr ()) \<and> b_keepalive b = KaRunning 0"
proof -
  have "\<not> ctx_done demo_bridge" by (simp add: demo_start_simps ctx_done_def)
  then show ?thesis using demo_fields by (simp add: bridge_finish_def Let_def case_prod_beta ctx_done_def)
qed

theorem exit_later_becomes_timeout_witness:
  "\<exists>b b'. run_opt (bridge_step (\<lambda>_ _. False) demo_wait (\<lambda>_. [])) [BackendEnd, BackendEnd, MainWake, ClientEnd, MainFinish] demo_bridge = Some b
    \<and> run_opt (bridge_step (\<lambda>_ _. False) demo_wait (\<lambda>_. [])) (replicate (maxMiss - 0) (Ping False)) b = Some b'
    \<and> session_status b' = Some ''terminated-timeout'' \<and> b_main b' = MainDone (Inr ())"
proof -
  obtain b where b: "run_opt (bridge_step (\<lambda>_ _. False) demo_wait (\<lambda>_. [])) [BackendEnd, BackendEnd, MainWake, ClientEnd, MainFinish] demo_bridge = Some b"
    "b_main b = MainDone (Inr ())" "b_keepalive b = KaRunning 0"
    using demo_exit by blast
  have inv: "bridge_inv b" by (rule session_bridge.inv_run_opt [OF b(1) demo_inv])
  show ?thesis using exit_later_becomes_timeout [OF inv b(2,3), of "\<lambda>_ _. False" demo_wait "\<lambda>_. []"] b(1) by blast
qed

end
