(* ===== verification/Zttp_Wire.thy ===== *)
theory Zttp_Wire
  imports Zttp_IO Zttp_CmdFilter
begin

text \<open>
  The protocol between the command line client and the proxy: \<^verbatim>\<open>internal/cli/transport/transport.go\<close>
  on one side, \<^verbatim>\<open>readConnectRequest\<close>, \<^verbatim>\<open>deny\<close> and \<^verbatim>\<open>ackReady\<close> of
  \<^verbatim>\<open>internal/proxy/accept.go\<close> on the other. The JSON codec is a pair of parameters: \<open>json_enc\<close>
  and \<open>json_dec\<close>.
\<close>

record ConnectRequest =
  cr_Username :: string
  cr_Password :: string
  cr_Target :: string
  cr_TermWidth :: int
  cr_TermHeight :: int

subsection \<open>The client side\<close>

definition PutUint32 :: "nat \<Rightarrow> bytes" where
  "PutUint32 n = be32 (word_of_nat n)"

definition SendConnectRequest :: "(ConnectRequest \<Rightarrow> bytes) \<Rightarrow> ConnectRequest \<Rightarrow> sink \<Rightarrow> bool \<times> sink" where
  "SendConnectRequest json_enc req s =
     (let data = json_enc req; (ok, s1) = sk_write (PutUint32 (length data)) s
      in if \<not> ok then (False, s1) else sk_write data s1)"

datatype wait_error = ReadResponse | DeniedNoMessage | ReadErrorMessage | ProxyError string

definition WaitReady :: "rd list \<Rightarrow> (wait_error + unit) \<times> rd list" where
  "WaitReady xs =
     (let (st, ok, r) = read_full 1 xs in
      if \<not> ok then (Inl ReadResponse, r)
      else if hd st = CHR 0x00 then (Inr (), r)
      else (let (lenBuf, ok1, r1) = read_full 4 r in
        if \<not> ok1 then (Inl DeniedNoMessage, r1)
        else (let (msg, ok2, r2) = read_full (unat (be32_value lenBuf)) r1
              in if \<not> ok2 then (Inl ReadErrorMessage, r2) else (Inl (ProxyError msg), r2))))"

text \<open>\<^verbatim>\<open>byte(x >> 8), byte(x)\<close>: the low 16 bits of a Go \<^verbatim>\<open>int\<close>.\<close>

definition two_bytes :: "int \<Rightarrow> bytes" where
  "two_bytes x = [char_of (nat (x div 256 mod 256)), char_of (nat (x mod 256))]"

definition window_frame :: "int \<Rightarrow> int \<Rightarrow> bytes" where
  "window_frame width height = [CHR 0x02] @ two_bytes width @ two_bytes height"

definition SendWindowChange :: "int \<Rightarrow> int \<Rightarrow> sink \<Rightarrow> bool \<times> sink" where
  "SendWindowChange width height = sk_write (window_frame width height)"

subsection \<open>The proxy side\<close>

datatype request_error = ShortRead | PayloadTooLarge nat | BadJSON string

definition readConnectRequest ::
  "(bytes \<Rightarrow> string + ConnectRequest) \<Rightarrow> conn \<Rightarrow> (request_error + ConnectRequest) \<times> conn" where
  "readConnectRequest json_dec c =
     (let c0 = SetReadDeadline True c; (lenBuf, ok, r) = read_full 4 (c_in c0); c1 = c0\<lparr>c_in := r\<rparr> in
      if \<not> ok then (Inl ShortRead, c1)
      else (let msgLen = unat (be32_value lenBuf) in
        if 4096 < msgLen then (Inl (PayloadTooLarge msgLen), c1)
        else (let (data, ok1, r1) = read_full msgLen (c_in c1); c2 = c1\<lparr>c_in := r1\<rparr> in
          if \<not> ok1 then (Inl ShortRead, c2)
          else (let c3 = SetReadDeadline False c2
                in case json_dec data of Inl e \<Rightarrow> (Inl (BadJSON e), c3) | Inr req \<Rightarrow> (Inr req, c3)))))"

definition press_any_key :: string where
  "press_any_key = crlf @ crlf @ ''Press any key to continue...''"

definition deny :: "string \<Rightarrow> bool \<Rightarrow> conn \<Rightarrow> conn" where
  "deny reason isInteractiveHandoff c =
     (if isInteractiveHandoff then
        (let c1 = clearScreen c;
             c2 = conn_write (crlf @ [esc] @ ''[31mError:'' @ [esc] @ ''[0m '' @ reason @ press_any_key) c1
         in snd (readKey c2))
      else
        conn_close (conn_write reason (conn_write (PutUint32 (length reason)) (conn_write [CHR 0x01] c))))"

definition ackReady :: "bool \<Rightarrow> conn \<Rightarrow> conn" where
  "ackReady isInteractiveHandoff c =
     (if isInteractiveHandoff then clearScreen c else conn_write [CHR 0x00] c)"

text \<open>The resize of the target's terminal: rows come before columns in the SSH library's call. Nothing on the proxy calls it.\<close>

record WindowSize =
  ws_Width :: int
  ws_Height :: int

definition ApplyWindowChange :: "(int \<Rightarrow> int \<Rightarrow> string option) \<Rightarrow> WindowSize \<Rightarrow> string option" where
  "ApplyWindowChange windowChange ws = windowChange (ws_Height ws) (ws_Width ws)"

subsection \<open>Frames with a length prefix\<close>

definition enc_msg :: "bytes \<Rightarrow> bytes" where
  "enc_msg p = PutUint32 (length p) @ p"

definition dec_msg :: "bytes \<Rightarrow> (bytes \<times> bytes) option" where
  "dec_msg bs = (if length bs < 4 then None
     else (let n = unat (be32_value (take 4 bs)); rest = drop 4 bs
           in if length rest < n then None else Some (take n rest, drop n rest)))"

lemma length_PutUint32 [simp]: "length (PutUint32 n) = 4"
  by (simp add: PutUint32_def)

lemma PutUint32_value: "n < 2 ^ 32 \<Longrightarrow> unat (be32_value (PutUint32 n)) = n"
  by (simp add: PutUint32_def unat_of_nat32)

interpretation prefixed: frame_codec enc_msg dec_msg "\<lambda>p. length p < 2 ^ 32"
proof
  show "length p < 2 ^ 32 \<Longrightarrow> dec_msg (enc_msg p @ rest) = Some (p, rest)" for p rest
    using PutUint32_value [of "length p"] by (simp add: dec_msg_def enc_msg_def Let_def)
  show "dec_msg [] = None" by (simp add: dec_msg_def)
  show "dec_msg bs = Some (f, rest) \<Longrightarrow> length rest < length bs" for bs f rest
    by (auto simp: dec_msg_def Let_def split: if_splits)
qed

text \<open>Reading from a connection what was written as bytes.\<close>

lemma read_full_exact: "length bs = n \<Longrightarrow> read_full n (map RByte bs @ xs) = (bs, True, xs)"
  using read_full_bytes [of bs xs] by simp

lemma readConnectRequest_msg:
  assumes "length data \<le> 4096" "c_in c = map RByte (enc_msg data) @ rest"
  shows "readConnectRequest json_dec c =
    (case json_dec data of Inl e \<Rightarrow> Inl (BadJSON e) | Inr req \<Rightarrow> Inr req, c\<lparr>c_in := rest, c_deadline := False\<rparr>)"
proof -
  have v: "unat (be32_value (PutUint32 (length data))) = length data"
    by (rule PutUint32_value) (use assms(1) in simp)
  have r1: "read_full 4 (c_in c) = (PutUint32 (length data), True, map RByte data @ rest)"
    using assms(2) read_full_exact [of "PutUint32 (length data)" 4 "map RByte data @ rest"] by (simp add: enc_msg_def)
  show ?thesis using assms(1) r1 v
    by (simp add: readConnectRequest_def SetReadDeadline_def Let_def split: sum.split)
qed

subsection \<open>Properties\<close>

definition demo_conn :: "rd list \<Rightarrow> conn" where
  "demo_conn xs = \<lparr>c_in = xs, c_out = \<lparr>sk_data = [], sk_fails = []\<rparr>, c_deadline = False, c_closed = False\<rparr>"

definition demo_request :: ConnectRequest where
  "demo_request = \<lparr>cr_Username = ''jdoe'', cr_Password = ''pw'', cr_Target = ''dev-01'', cr_TermWidth = 80, cr_TermHeight = 24\<rparr>"

text \<open>C27. The request round trip: what the client sends, the proxy reads back as the same request, it
  consumes exactly the message and leaves no read deadline; a request whose payload exceeds 4096
  bytes is refused on its length alone, before any of it is read.\<close>

theorem connect_request_roundtrip:
  assumes "json_dec (json_enc req) = Inr req" "length (json_enc req) < 2 ^ 32" "good_sink s"
    and "SendConnectRequest json_enc req s = (ok, s')" "sk_data s = []"
    and "c_in c = map RByte (sk_data s') @ rest"
  shows "ok \<and> (if length (json_enc req) \<le> 4096
     then readConnectRequest json_dec c = (Inr req, c\<lparr>c_in := rest, c_deadline := False\<rparr>)
     else readConnectRequest json_dec c =
       (Inl (PayloadTooLarge (length (json_enc req))), c\<lparr>c_in := map RByte (json_enc req) @ rest, c_deadline := True\<rparr>))"
proof -
  have sent: "ok" "sk_data s' = enc_msg (json_enc req)"
    using assms(3-5) by (auto simp: SendConnectRequest_def enc_msg_def Let_def)
  show ?thesis
  proof (cases "length (json_enc req) \<le> 4096")
    case True
    then show ?thesis
      using sent readConnectRequest_msg [of "json_enc req" c rest json_dec] assms(1,6) by simp
  next
    case False
    have "read_full 4 (c_in c) = (PutUint32 (length (json_enc req)), True, map RByte (json_enc req) @ rest)"
      using assms(6) sent read_full_exact [of "PutUint32 (length (json_enc req))" 4] by (simp add: enc_msg_def)
    then show ?thesis using False sent PutUint32_value [OF assms(2)]
      by (simp add: readConnectRequest_def SetReadDeadline_def Let_def)
  qed
qed

theorem connect_request_roundtrip_witness:
  "\<exists>ok s'. SendConnectRequest (\<lambda>_. ''{}'') demo_request \<lparr>sk_data = [], sk_fails = []\<rparr> = (ok, s')
    \<and> ok \<and> (if length ((\<lambda>_. ''{}'') demo_request) \<le> 4096
     then readConnectRequest (\<lambda>_. Inr demo_request) (demo_conn (map RByte (sk_data s') @ [RTimeout])) =
       (Inr demo_request, (demo_conn (map RByte (sk_data s') @ [RTimeout]))\<lparr>c_in := [RTimeout], c_deadline := False\<rparr>)
     else readConnectRequest (\<lambda>_. Inr demo_request) (demo_conn (map RByte (sk_data s') @ [RTimeout])) =
       (Inl (PayloadTooLarge (length ((\<lambda>_. ''{}'') demo_request))),
        (demo_conn (map RByte (sk_data s') @ [RTimeout]))\<lparr>c_in := map RByte ((\<lambda>_. ''{}'') demo_request) @ [RTimeout], c_deadline := True\<rparr>))"
proof -
  obtain ok s' where s: "SendConnectRequest (\<lambda>_. ''{}'') demo_request \<lparr>sk_data = [], sk_fails = []\<rparr> = (ok, s')" by fastforce
  show ?thesis
    using connect_request_roundtrip [where json_enc = "\<lambda>_. ''{}''" and json_dec = "\<lambda>_. Inr demo_request" and rest = "[RTimeout]"
        and c = "demo_conn (map RByte (sk_data s') @ [RTimeout])", OF _ _ _ s] s
    by (intro exI [of _ ok] exI [of _ s']) (simp add: good_sink_def demo_conn_def)
qed

text \<open>A refusal reaches the client in full: after \<^verbatim>\<open>deny\<close> the client's \<^verbatim>\<open>WaitReady\<close> returns exactly
  the proxy's reason as an error and the connection is closed; after \<^verbatim>\<open>ackReady\<close> it returns no
  error.\<close>

theorem deny_reaches_client:
  assumes "length reason < 2 ^ 32" "good_sink (c_out c)" "sk_data (c_out c) = []" "\<not> c_closed c"
  shows "WaitReady (map RByte (sk_data (c_out (deny reason False c))) @ rest) = (Inl (ProxyError reason), rest)
    \<and> c_closed (deny reason False c)
    \<and> WaitReady (map RByte (sk_data (c_out (ackReady False c))) @ rest) = (Inr (), rest)"
proof -
  have "sk_data (c_out (deny reason False c)) = CHR 0x01 # PutUint32 (length reason) @ reason"
    using assms by (simp add: deny_def conn_close_def conn_write_good)
  moreover have "read_full 4 (map RByte (PutUint32 (length reason)) @ map RByte reason @ rest)
      = (PutUint32 (length reason), True, map RByte reason @ rest)"
    by (rule read_full_exact) simp
  moreover have "sk_data (c_out (ackReady False c)) = [CHR 0x00]"
    using assms by (simp add: ackReady_def conn_write_good)
  ultimately show ?thesis using PutUint32_value [OF assms(1)]
    by (simp add: WaitReady_def Let_def deny_def conn_close_def)
qed

theorem deny_reaches_client_witness:
  "WaitReady (map RByte (sk_data (c_out (deny ''no'' False (demo_conn [])))) @ []) = (Inl (ProxyError ''no''), [])
    \<and> c_closed (deny ''no'' False (demo_conn []))
    \<and> WaitReady (map RByte (sk_data (c_out (ackReady False (demo_conn [])))) @ []) = (Inr (), [])"
  by (rule deny_reaches_client) (simp_all add: demo_conn_def good_sink_def)

text \<open>A terminal resize is typed into the target: the five bytes of the client's resize message
  pass the command filter as keystrokes, whatever the policy.\<close>

theorem resize_is_typed_into_target:
  assumes "good_sink target" "good_sink clientW" "\<forall>b \<in> set (window_frame width height). \<not> is_enter b"
  shows "\<exists>f'. filter_Write sf (newCommandFilterWriter target clientW cmds) (window_frame width height) = (f', Some 5)
    \<and> sk_data (cf_target f') = sk_data target @ window_frame width height"
proof -
  let ?f = "newCommandFilterWriter target clientW cmds" and ?p = "window_frame width height"
  obtain f' where "filter_loop sf ?f ?p = (f', True)"
    "sk_data (cf_target f') = sk_data (cf_target ?f) @ filter_out sf (cf_allowedCmds ?f) (cf_buf ?f) ?p"
    using filter_loop_good [of ?f sf ?p] assms(1,2) by (auto simp: newCommandFilterWriter_def)
  moreover have "length ?p = 5" by (simp add: window_frame_def two_bytes_def)
  ultimately show ?thesis using filter_out_plain [OF assms(3)]
    by (simp add: filter_Write_def newCommandFilterWriter_def)
qed

theorem resize_is_typed_into_target_witness:
  "\<exists>f'. filter_Write (\<lambda>_ _. False) (newCommandFilterWriter \<lparr>sk_data = [], sk_fails = []\<rparr> \<lparr>sk_data = [], sk_fails = []\<rparr> [''ls''])
      (window_frame 120 40) = (f', Some 5)
    \<and> sk_data (cf_target f') = sk_data \<lparr>sk_data = [], sk_fails = []\<rparr> @ window_frame 120 40"
  by (rule resize_is_typed_into_target) (simp_all add: good_sink_def, code_simp)

end
