(* ===== verification/Zttp_Gateway.thy ===== *)
theory Zttp_Gateway
  imports Zttp_Rbac Zttp_IO "HOL-Library.Char_ord" "HOL-Library.List_Lexorder"
begin

text \<open>
  The server menu, \<^verbatim>\<open>internal/proxy/gateway_tui.go\<close>: the servers a user may choose from and the
  menu itself, a loop that draws, reads a key and moves a cursor. The loop ends because every round
  consumes input (\<open>readKey_progress\<close>). \<open>err_string\<close> is the text of a database error.
\<close>

subsection \<open>Model\<close>

definition ColorReset :: string where "ColorReset = [esc] @ ''[0m''"
definition ColorCyan :: string where "ColorCyan = [esc] @ ''[36m''"
definition ColorGreen :: string where "ColorGreen = [esc] @ ''[32m''"
definition ColorRed :: string where "ColorRed = [esc] @ ''[31m''"
definition ColorBold :: string where "ColorBold = [esc] @ ''[1m''"

text \<open>The box-drawing dash, U+2500.\<close>

definition rule_line :: "nat \<Rightarrow> string" where
  "rule_line n = concat (replicate n [CHR 0xE2, CHR 0x94, CHR 0x80])"

record gatewayServerOption =
  go_hostname :: string
  go_environment :: string

definition admin_console_name :: string where
  "admin_console_name = ''zttp-admin''"

definition accessible_rows :: "db \<Rightarrow> uuid \<Rightarrow> gatewayServerOption list" where
  "accessible_rows d userID = sort_key go_hostname
     [\<lparr>go_hostname = s_hostname s, go_environment = s_environment s\<rparr>.
      s \<leftarrow> servers d, u \<leftarrow> users d, p \<leftarrow> left_join (\<lambda>p. p_role p = u_role u) (policies d),
      g \<leftarrow> left_join (\<lambda>g. snd g = s_id s \<and> fst g = userID) (grants d),
      u_id u = userID \<and> sql_true (sql_or (Some (g \<noteq> None))
        (sql_and (Some (u_override u = False)) (env_any s p)))]"

definition queryAccessibleServers :: "uuid \<Rightarrow> string \<Rightarrow> gatewayServerOption list sql" where
  "queryAccessibleServers userID role d =
     (let opts = (if role = ''security-admin''
                  then [\<lparr>go_hostname = admin_console_name, go_environment = ''system''\<rparr>] else [])
      in case query (\<lambda>d. Inr (accessible_rows d userID)) d of
           (Inl e, d') \<Rightarrow> (Inl e, d')
         | (Inr rows, d') \<Rightarrow> (Inr (opts @ rows), d'))"

definition gateway_line :: "nat \<Rightarrow> nat \<times> gatewayServerOption \<Rightarrow> string" where
  "gateway_line index = (\<lambda>(i, opt).
     (let label = pad_right 15 (go_hostname opt) @ '' ('' @ go_environment opt @ '')'' in
      if i = index then ColorGreen @ ''> '' @ label @ ColorReset @ crlf else ''  '' @ label @ crlf)
     @ (if go_hostname opt = admin_console_name then ''  '' @ rule_line 40 @ crlf else []))"

definition drawGatewayMenu :: "gatewayServerOption list \<Rightarrow> nat \<Rightarrow> conn \<Rightarrow> conn" where
  "drawGatewayMenu opts index c = conn_write
     (ColorCyan @ ''=== ZTTP Server Gateway ==='' @ ColorReset @ crlf
      @ ''Select a server to connect to (UP/DOWN, ENTER to select):'' @ crlf @ crlf
      @ (if opts = [] then ''  No servers available for your role.'' @ crlf else [])
      @ concat (map (gateway_line index) (enumerate 0 opts)) @ crlf
      @ (if index = length opts then ColorRed @ ''> [ Logout ]'' @ ColorReset @ crlf
         else ''  [ Logout ]'' @ crlf)) (clearScreen c)"

definition drawGatewayError :: "string \<Rightarrow> conn \<Rightarrow> conn" where
  "drawGatewayError err c = conn_write
     (ColorRed @ ''Error loading servers: '' @ err @ ColorReset @ crlf @ crlf @ ''Press any key to exit...'')
     (clearScreen c)"

datatype gateway_exit = Selected string | KeyFailed | Aborted | ExitedGateway | Panicked

lemma c_in_drawGatewayMenu [simp]: "c_in (drawGatewayMenu opts index c) = c_in c"
  by (simp add: drawGatewayMenu_def clearScreen_def)

function gateway_loop :: "gatewayServerOption list \<Rightarrow> nat \<Rightarrow> conn \<Rightarrow> gateway_exit \<times> conn" where
  "gateway_loop opts index c =
     (case readKey (drawGatewayMenu opts index c) of
        (None, c1) \<Rightarrow> (KeyFailed, c1)
      | (Some key, c1) \<Rightarrow>
          (if key = KeyCtrlC \<or> key = KeyEsc then (Aborted, clearScreen c1)
           else if key = KeyUp then gateway_loop opts (if 0 < index then index - 1 else index) c1
           else if key = KeyDown then gateway_loop opts (if index < length opts then index + 1 else index) c1
           else if key = KeyEnter then
             (if index = length opts then (ExitedGateway, clearScreen c1)
              else if index < length opts then (Selected (go_hostname (opts ! index)), clearScreen c1)
              else (Panicked, clearScreen c1))
           else gateway_loop opts index c1))"
  by pat_completeness auto
termination
  by (relation "measure (\<lambda>(opts, index, c). length (c_in c))")
    (auto dest!: readKey_progress [OF sym])

declare gateway_loop.simps [simp del]

definition handleGatewayMenu ::
  "(sql_error \<Rightarrow> string) \<Rightarrow> uuid \<Rightarrow> string \<Rightarrow> conn \<Rightarrow> db \<Rightarrow> gateway_exit \<times> conn \<times> db" where
  "handleGatewayMenu err_string userID role c d =
     (case queryAccessibleServers userID role d of
        (Inl e, d') \<Rightarrow> (KeyFailed, snd (readKey (drawGatewayError (err_string e) c)), d')
      | (Inr opts, d') \<Rightarrow> (case gateway_loop opts 0 c of (x, c') \<Rightarrow> (x, c', d')))"

subsection \<open>Lemmas\<close>

text \<open>The cursor never leaves the menu, so a selection is always an entry of it.\<close>

lemma gateway_loop_result:
  "index \<le> length opts \<Longrightarrow> fst (gateway_loop opts index c) \<in> {KeyFailed, Aborted, ExitedGateway} \<union> Selected ` go_hostname ` set opts"
proof (induction opts index c rule: gateway_loop.induct)
  case (1 opts index c)
  obtain k c1 where rk: "readKey (drawGatewayMenu opts index c) = (k, c1)" by fastforce
  show ?case
  proof (cases k)
    case None
    then show ?thesis using rk by (simp add: gateway_loop.simps [of opts index c])
  next
    case (Some key)
    have IH: "(if 0 < index then index - 1 else index) \<le> length opts" "(if index < length opts then index + 1 else index) \<le> length opts"
      using 1(4) by auto
    note rk' = rk [unfolded Some, symmetric]
    show ?thesis
      using rk Some 1(4) IH 1(1) [OF rk' refl] 1(2) [OF rk' refl] 1(3) [OF rk' refl]
      by (auto simp: gateway_loop.simps [of opts index c])
  qed
qed

lemma left_join_grants:
  assumes "distinct (grants d)"
  shows "left_join (\<lambda>g. snd g = k \<and> fst g = uid) (grants d) = [if (uid, k) \<in> set (grants d) then Some (uid, k) else None]"
proof -
  have eq: "(\<lambda>g. snd g = k \<and> fst g = uid) = (\<lambda>g. g = (uid, k))" by auto
  have "filter (\<lambda>g. g = (uid, k)) (grants d) = (if (uid, k) \<in> set (grants d) then [(uid, k)] else [])"
    using filter_unique [of "\<lambda>g. g" "grants d" "(uid, k)"] assms by (auto simp: filter_empty_conv)
  then show ?thesis unfolding eq by (simp add: left_join_def)
qed

lemma set_pairs:
  "set (concat (map (\<lambda>s. concat (map (\<lambda>v. if Q s v then [r s] else []) us)) ss)) = r ` {s \<in> set ss. \<exists>v \<in> set us. Q s v}"
  by auto

lemma accessible_set:
  assumes "schema_ok d" "u \<in> set (users d)"
  shows "set (accessible_rows d (u_id u)) =
    (\<lambda>s. \<lparr>go_hostname = s_hostname s, go_environment = s_environment s\<rparr>) ` {s \<in> set (servers d). may_access d (u_id u) (u_role u) s}"
proof -
  let ?p = "\<lambda>v. find (\<lambda>p. p_role p = u_role v) (policies d)"
  have lj: "left_join (\<lambda>p. p_role p = u_role v) (policies d) = [?p v]" for v
    by (rule left_join_unique) (use assms(1) in \<open>simp add: schema_ok_def\<close>)
  have g: "distinct (grants d)" using assms(1) by (simp add: schema_ok_def)
  define gj where "gj s = (if (u_id u, s_id s) \<in> set (grants d) then Some (u_id u, s_id s) else None)" for s :: server_row
  have gj: "left_join (\<lambda>g. snd g = s_id s \<and> fst g = u_id u) (grants d) = [gj s]"
    "(gj s \<noteq> None) = ((u_id u, s_id s) \<in> set (grants d))" for s :: server_row
    by (simp_all add: left_join_grants [OF g] gj_def)
  have uniq: "v = u" if "v \<in> set (users d)" "u_id v = u_id u" for v
    using distinct_key_unique [of u_id "users d" v u] assms that by (simp add: schema_ok_def)
  have three: "sql_true (sql_or (Some a) (sql_and (Some b) x)) \<longleftrightarrow> coalesce (sql_or (Some a) (sql_and (Some b) x)) False" for a b x
    by (cases "sql_or (Some a) (sql_and (Some b) x)") (simp_all add: sql_true_def coalesce_def)
  have auth: "sql_true (sql_or (Some ((u_id u, s_id s) \<in> set (grants d))) (sql_and (Some (\<not> u_override u)) (env_any s (?p u))))
    \<longleftrightarrow> may_access d (u_id u) (u_role u) s" for s
    unfolding three using is_authorized_iff [OF assms, of s "u_role u"] .
  have "set (accessible_rows d (u_id u)) =
    (\<lambda>s. \<lparr>go_hostname = s_hostname s, go_environment = s_environment s\<rparr>) ` {s \<in> set (servers d).
       sql_true (sql_or (Some ((u_id u, s_id s) \<in> set (grants d))) (sql_and (Some (\<not> u_override u)) (env_any s (?p u))))}"
    (is "_ = _ ` {s \<in> _. ?ok s u}")
  proof -
    have one: "(\<exists>v \<in> set (users d). u_id v = u_id u \<and> ?ok s v) \<longleftrightarrow> ?ok s u" for s using uniq assms(2) by blast
    have "accessible_rows d (u_id u) = sort_key go_hostname
      [\<lparr>go_hostname = s_hostname s, go_environment = s_environment s\<rparr>. s \<leftarrow> servers d, v \<leftarrow> users d, u_id v = u_id u \<and> ?ok s v]"
      unfolding accessible_rows_def lj gj(1) by (simp add: gj(2) del: not_None_eq cong: conj_cong)
    then show ?thesis by (simp only: set_sort set_pairs one)
  qed
  then show ?thesis by (simp only: auth)
qed

subsection \<open>Properties\<close>

text \<open>C33. The menu offers exactly what the policy engine will accept: for a user whose role has not
  changed since login, a server's name is listed iff connecting to it is authorized, so the menu
  neither leads to a refusal nor hides a server.\<close>

theorem menu_matches_policy:
  assumes "schema_ok d" "outages d = []" "u \<in> set (users d)" "s \<in> set (servers d)" "s_hostname s \<noteq> admin_console_name"
  shows "\<exists>opts. queryAccessibleServers (u_id u) (u_role u) d = (Inr opts, d)
    \<and> (s_hostname s \<in> go_hostname ` set opts \<longleftrightarrow> (\<exists>acc. fst (Authorize (u_id u) (u_role u) (s_hostname s) d) = Inr acc))"
proof -
  define opts where "opts = (if u_role u = ''security-admin''
    then [\<lparr>go_hostname = admin_console_name, go_environment = ''system''\<rparr>] else []) @ accessible_rows d (u_id u)"
  have "queryAccessibleServers (u_id u) (u_role u) d = (Inr opts, d)"
    using assms(2) by (simp add: queryAccessibleServers_def query_up opts_def)
  moreover have "s_hostname s \<in> go_hostname ` set opts \<longleftrightarrow> s_hostname s \<in> go_hostname ` set (accessible_rows d (u_id u))"
    using assms(5) by (auto simp: opts_def)
  moreover have "s_hostname s \<in> go_hostname ` set (accessible_rows d (u_id u)) \<longleftrightarrow> may_access d (u_id u) (u_role u) s"
  proof -
    have "x = s" if "x \<in> set (servers d)" "s_hostname x = s_hostname s" for x
      using distinct_key_unique [of s_hostname "servers d" x s] assms(1,4) that by (simp add: schema_ok_def)
    then show ?thesis unfolding accessible_set [OF assms(1,3)] image_image using assms(4) by auto
  qed
  moreover have "(\<exists>acc. fst (Authorize (u_id u) (u_role u) (s_hostname s) d) = Inr acc) \<longleftrightarrow> may_access d (u_id u) (u_role u) s"
    using Authorize_known [OF assms(1,2,4,3)] by simp
  ultimately show ?thesis by blast
qed

theorem menu_matches_policy_witness:
  "\<exists>opts. queryAccessibleServers (u_id (hd (users demo_rbac))) (u_role (hd (users demo_rbac))) demo_rbac = (Inr opts, demo_rbac)
    \<and> (s_hostname (hd (servers demo_rbac)) \<in> go_hostname ` set opts \<longleftrightarrow>
      (\<exists>acc. fst (Authorize (u_id (hd (users demo_rbac))) (u_role (hd (users demo_rbac))) (s_hostname (hd (servers demo_rbac))) demo_rbac) = Inr acc))"
  by (rule menu_matches_policy [OF demo_rbac_ok]) (simp_all add: demo_rbac_def admin_console_name_def)

text \<open>C34. The menu never indexes out of range: for every input the loop ends, without a panic, with a key
  error, an abort, a logout or the name of a listed entry.\<close>

theorem menu_selects_listed_entry:
  "fst (gateway_loop opts 0 c) \<in> {KeyFailed, Aborted, ExitedGateway} \<union> Selected ` go_hostname ` set opts"
  by (rule gateway_loop_result) simp

end
