(* ===== verification/Zttp_Accept.thy ===== *)
theory Zttp_Accept
  imports Zttp_Auth Zttp_Rbac Zttp_Vault Zttp_Bridge Zttp_Wire Zttp_Gateway
begin

text \<open>
  The connection handler, \<^verbatim>\<open>internal/proxy/accept.go\<close>: the gates a connection passes before it
  reaches a console, the menu or a target, and the setup of a target session.

  \<open>handleConnection\<close> covers the handler up to the point where it hands over: it returns the
  refusal it sent or where the connection goes. \<open>gateway_round\<close> is one round of the menu loop.
  \<open>connectToTarget\<close> runs up to the start of the bridge (\<open>connect_granted\<close> is what follows its
  authorization) and \<open>connect_finish\<close> from the bridge's
  return; the bridge in between is the machine of \<^verbatim>\<open>bridge_step\<close>.

  Of SSH, \<open>host_key addr\<close> is the key the machine at an address presents and \<open>dial_ok\<close> tells
  whether the handshake is otherwise possible; the handshake calls the host key callback and fails
  when that returns an error.
\<close>

subsection \<open>Model\<close>

record ('l, 'v) server =
  sv_limiter :: "'l IPRateLimiter"
  sv_guard :: DiskGuard
  sv_db :: db
  sv_vault_client :: vault_client
  sv_vault :: 'v
  sv_heap :: heap
  sv_fs :: fsys
  sv_nets :: nets
  sv_manager :: "nets ConnectionManager"
  sv_ProxyNodeIP :: string
  sv_AuditLogDir :: string
  sv_VaultDevMode :: bool

datatype route =
  Refused
| ToAdminConsole User
| ToGateway User
| ToTarget User string

definition rate_denied :: string where
  "rate_denied = ''rate limit exceeded '' @ [CHR 0xE2, CHR 0x80, CHR 0x94] @ '' back off''"

definition load_denied :: string where
  "load_denied = ''system under heavy load '' @ [CHR 0xE2, CHR 0x80, CHR 0x94] @ '' connection rejected''"

definition rbac_denied :: string where
  "rbac_denied = ''access denied by RBAC policy''"

definition conn_ip :: "string \<Rightarrow> string" where
  "conn_ip remoteAddr = (case SplitHostPort remoteAddr of Some (ip, _) \<Rightarrow> ip | None \<Rightarrow> [])"

definition handleConnection ::
  "(int \<Rightarrow> int \<Rightarrow> 'l) \<Rightarrow> (instant \<Rightarrow> 'l \<Rightarrow> bool \<times> 'l) \<Rightarrow> (bytes \<Rightarrow> string + ConnectRequest) \<Rightarrow>
   (request_error \<Rightarrow> string) \<Rightarrow> (bytes \<Rightarrow> bytes \<Rightarrow> bool) \<Rightarrow> Config \<Rightarrow> instant \<Rightarrow> auth_clock \<Rightarrow> string \<Rightarrow> conn \<Rightarrow>
   ('l, 'v) server \<Rightarrow> route \<times> conn \<times> ('l, 'v) server" where
  "handleConnection mk lim json_dec req_err bcmp cfg now clk remoteAddr c sv =
     (let (allowed, l') = Allow mk lim (now, conn_ip remoteAddr) (sv_limiter sv); sv1 = sv\<lparr>sv_limiter := l'\<rparr> in
      if \<not> allowed then (Refused, deny rate_denied False c, sv1)
      else if ShouldRejectNewConnections (sv_guard sv1) then (Refused, deny load_denied False c, sv1)
      else case readConnectRequest json_dec c of
          (Inl e, c1) \<Rightarrow> (Refused, deny (''invalid protocol: '' @ req_err e) False c1, sv1)
        | (Inr req, c1) \<Rightarrow>
            (let out = Authenticate bcmp cfg clk (sv_db sv1) (cr_Username req) (cr_Password req);
                 sv2 = sv1\<lparr>sv_db := ao_db out\<rparr>
             in case ao_result out of
                  Inl e \<Rightarrow> (Refused, deny ''authentication failed'' False c1, sv2)
                | Inr user \<Rightarrow>
                    (if cr_Target req = admin_console_name then
                       (if usr_Role user = ''security-admin''
                        then (ToAdminConsole user, ackReady False c1, sv2)
                        else (Refused, deny rbac_denied False c1, sv2))
                     else if cr_Target req = ''zttp-gateway'' then (ToGateway user, ackReady False c1, sv2)
                     else (ToTarget user (cr_Target req), c1, sv2))))"

text \<open>One round of the menu loop: the menu, then the console or a target; a key error, an abort and a
  logout leave the loop.\<close>

datatype gateway_next = GatewayLeft | GatewayAdmin User | GatewayTarget User string

definition gateway_round ::
  "(sql_error \<Rightarrow> string) \<Rightarrow> User \<Rightarrow> conn \<Rightarrow> db \<Rightarrow> gateway_next \<times> conn \<times> db" where
  "gateway_round err_string user c d =
     (case handleGatewayMenu err_string (usr_ID user) (usr_Role user) c d of
        (Selected target, c1, d1) \<Rightarrow>
          (if target = admin_console_name then (GatewayAdmin user, c1, d1) else (GatewayTarget user target, c1, d1))
      | (_, c1, d1) \<Rightarrow> (GatewayLeft, c1, d1))"

record ('sg) ssh_world =
  host_key :: "string \<Rightarrow> bytes"
  dial_ok :: "string \<Rightarrow> string \<Rightarrow> 'sg option \<Rightarrow> bool"

definition ssh_Dial :: "'sg ssh_world \<Rightarrow> string \<Rightarrow> string \<Rightarrow> 'sg option \<Rightarrow> (string \<Rightarrow> bytes \<Rightarrow> string option) \<Rightarrow> bool" where
  "ssh_Dial net addr sshUser signer hostKeyCb \<longleftrightarrow>
     hostKeyCb addr (host_key net addr) = None \<and> dial_ok net addr sshUser signer"

text \<open>Steps 6 to 10 of \<^verbatim>\<open>connectToTarget\<close>, for the access that step 5 granted. What an attempt leaves:
  the error it ended with, or the started bridge with the signer whose \<^verbatim>\<open>Zero\<close> is deferred.\<close>

definition connect_granted ::
  "'v kv_getter \<Rightarrow> (bytes \<Rightarrow> string + 'sg) \<Rightarrow> (bytes \<Rightarrow> bytes) \<Rightarrow> 'sg ssh_world \<Rightarrow> (uuid \<Rightarrow> string) \<Rightarrow>
   (instant \<Rightarrow> string) \<Rightarrow> (string \<Rightarrow> inet option) \<Rightarrow> (int \<Rightarrow> int \<Rightarrow> 'b) \<Rightarrow> ssh_setup \<Rightarrow> sink \<Rightarrow> instant \<Rightarrow> uuid \<Rightarrow>
   User \<Rightarrow> AuthorizedAccess \<Rightarrow> bool \<Rightarrow> conn \<Rightarrow> ('l, 'v) server \<Rightarrow>
   (unit + 'sg EphemeralSigner \<times> 'b bridge) \<times> conn \<times> ('l, 'v) server" where
  "connect_granted kv_get parse_key sha net uuid_string nano inet_in newLimiter setup backendStdin now sessionID
     user acc interactive c sv1 =
     (case FetchPrivateKey kv_get parse_key (aa_VaultPath acc) (sv_vault sv1) (sv_vault_client sv1) (sv_heap sv1) of
        (Inl e, vc, h) \<Rightarrow>
          (Inl (), deny ''internal proxy error'' interactive c, sv1\<lparr>sv_vault_client := vc, sv_heap := h\<rparr>)
      | (Inr signer, vc, h) \<Rightarrow>
          (let sv2 = sv1\<lparr>sv_vault_client := vc, sv_heap := h\<rparr>;
               zero = (\<lambda>s. s\<lparr>sv_heap := snd (Zero signer (sv_heap s))\<rparr>)
           in case FetchHostFingerprint kv_get (aa_VaultPath acc) (sv_vault sv2) (sv_vault_client sv2) of
                (Inl e, vc2) \<Rightarrow>
                  (Inl (), deny ''internal proxy error'' interactive c, zero (sv2\<lparr>sv_vault_client := vc2\<rparr>))
              | (Inr fp, vc2) \<Rightarrow>
                  (let sv3 = sv2\<lparr>sv_vault_client := vc2\<rparr>;
                       addr = IP_String (aa_PrivateIP acc) @ '':22'' in
                   if \<not> ssh_Dial net addr (aa_SSHUser acc) (es_signer signer)
                          (StrictHostKeyCallback sha fp (sv_VaultDevMode sv3)) then
                     (Inl (), deny ''failed to connect to target server'' interactive c, zero sv3)
                   else
                     (let c1 = ackReady interactive c in
                      case NewWriter uuid_string nano now (sv_AuditLogDir sv3) sessionID (usr_ID user) (sv_fs sv3) of
                        (None, fs) \<Rightarrow>
                          (Inl (), if interactive then c1 else conn_close c1, zero (sv3\<lparr>sv_fs := fs\<rparr>))
                      | (Some w, fs) \<Rightarrow>
                          (case Bridge_start inet_in newLimiter setup now
                                \<lparr>bc_SessionID = sessionID, bc_UserID = usr_ID user, bc_ServerID = aa_ServerID acc,
                                 bc_ProxyNodeIP = ParseIP (sv_ProxyNodeIP sv3), bc_AllowedCmds = aa_AllowedCmds acc,
                                 bc_AuditWriter = w\<rparr>
                                backendStdin (c_out c1) (sv_nets sv3) (sv_manager sv3) fs (sv_db sv3) of
                             Inl (e, d2) \<Rightarrow>
                               (let (_, _, fs2) = Finalize sha True w fs in
                                (Inl (),
                                 if interactive then
                                   snd (readKey (conn_write (crlf @ [esc] @ ''[31mSession Error:'' @ [esc] @ ''[0m '' @ e @ press_any_key)
                                     (clearScreen c1)))
                                 else conn_close c1, zero (sv3\<lparr>sv_fs := fs2, sv_db := d2\<rparr>)))
                           | Inr b \<Rightarrow> (Inr (signer, b), c1, sv3\<lparr>sv_fs := fs, sv_db := b_db b\<rparr>))))))"

definition connectToTarget ::
  "'v kv_getter \<Rightarrow> (bytes \<Rightarrow> string + 'sg) \<Rightarrow> (bytes \<Rightarrow> bytes) \<Rightarrow> 'sg ssh_world \<Rightarrow> (uuid \<Rightarrow> string) \<Rightarrow>
   (instant \<Rightarrow> string) \<Rightarrow> (string \<Rightarrow> inet option) \<Rightarrow> (int \<Rightarrow> int \<Rightarrow> 'b) \<Rightarrow> ssh_setup \<Rightarrow> sink \<Rightarrow> instant \<Rightarrow> uuid \<Rightarrow>
   User \<Rightarrow> string \<Rightarrow> bool \<Rightarrow> conn \<Rightarrow> ('l, 'v) server \<Rightarrow>
   (unit + 'sg EphemeralSigner \<times> 'b bridge) \<times> conn \<times> ('l, 'v) server" where
  "connectToTarget kv_get parse_key sha net uuid_string nano inet_in newLimiter setup backendStdin now sessionID
     user target interactive c sv =
     (case Authorize (usr_ID user) (usr_Role user) target (sv_db sv) of
        (Inl e, d1) \<Rightarrow> (Inl (), deny rbac_denied interactive c, sv\<lparr>sv_db := d1\<rparr>)
      | (Inr acc, d1) \<Rightarrow>
          connect_granted kv_get parse_key sha net uuid_string nano inet_in newLimiter setup backendStdin now sessionID
            user acc interactive c (sv\<lparr>sv_db := d1\<rparr>))"

text \<open>After \<^verbatim>\<open>Bridge\<close> has returned \<open>res\<close>: the error message or the close, then the deferred calls.\<close>

definition connect_finish ::
  "(bytes \<Rightarrow> bytes) \<Rightarrow> string + unit \<Rightarrow> bool \<Rightarrow> 'sg EphemeralSigner \<Rightarrow> Writer \<Rightarrow> conn \<Rightarrow> ('l, 'v) server \<Rightarrow>
   conn \<times> ('l, 'v) server" where
  "connect_finish sha res interactive signer w c sv =
     (let c1 = (case res of
            Inl e \<Rightarrow> (if interactive then
                snd (readKey (conn_write (crlf @ [esc] @ ''[31mSession Error:'' @ [esc] @ ''[0m '' @ e @ press_any_key)
                  (clearScreen c)))
              else conn_close c)
          | Inr _ \<Rightarrow> (if interactive then c else conn_close c));
          (_, _, fs) = Finalize sha True w (sv_fs sv)
      in (c1, sv\<lparr>sv_fs := fs, sv_heap := snd (Zero signer (sv_heap sv))\<rparr>))"

subsection \<open>Gates\<close>

text \<open>A gate decides a query on the shared state: it says yes only when the query is permitted in that
  state, and whatever it writes keeps the invariant and what other gates read.\<close>

locale access_gate =
  fixes decide :: "'q \<Rightarrow> 's \<Rightarrow> ('e + 'a) \<times> 's"
    and permitted :: "'s \<Rightarrow> 'q \<Rightarrow> 'a \<Rightarrow> bool"
    and inv :: "'s \<Rightarrow> bool"
    and unchanged :: "'s \<Rightarrow> 's \<Rightarrow> bool"
  assumes sound: "inv s \<Longrightarrow> decide q s = (Inr a, s') \<Longrightarrow> permitted s q a"
    and frame: "inv s \<Longrightarrow> decide q s = (r, s') \<Longrightarrow> inv s' \<and> unchanged s s'"

locale gate_chain = first: access_gate decide1 permitted1 inv unchanged
    + second: access_gate decide2 permitted2 inv unchanged
  for decide1 :: "'q1 \<Rightarrow> 's \<Rightarrow> ('e1 + 'a1) \<times> 's" and permitted1
    and decide2 :: "'q2 \<Rightarrow> 's \<Rightarrow> ('e2 + 'a2) \<times> 's" and permitted2 and inv and unchanged +
  assumes stable: "unchanged s s' \<Longrightarrow> permitted2 s' q2 a2 \<Longrightarrow> permitted2 s q2 a2"
begin

text \<open>Passing both gates one after the other means both permissions held at the start.\<close>

lemma both_permitted:
  assumes "inv s" "decide1 q1 s = (Inr a1, s1)" "decide2 q2 s1 = (Inr a2, s2)"
  shows "permitted1 s q1 a1 \<and> permitted2 s q2 a2 \<and> inv s2"
proof -
  have "inv s1" "unchanged s s1" using first.frame [OF assms(1,2)] by auto
  moreover from this have "permitted2 s1 q2 a2" "inv s2"
    using second.sound [OF _ assms(3)] second.frame [OF _ assms(3)] by auto
  ultimately show ?thesis using first.sound [OF assms(1,2)] stable by blast
qed

end

definition auth_gate ::
  "(bytes \<Rightarrow> bytes \<Rightarrow> bool) \<Rightarrow> Config \<Rightarrow> auth_clock \<times> string \<times> string \<Rightarrow> db \<Rightarrow> (auth_error + User) \<times> db" where
  "auth_gate bcmp cfg = (\<lambda>(clk, name, pw) d. let out = Authenticate bcmp cfg clk d name pw in (ao_result out, ao_db out))"

definition auth_permitted :: "(bytes \<Rightarrow> bytes \<Rightarrow> bool) \<Rightarrow> db \<Rightarrow> auth_clock \<times> string \<times> string \<Rightarrow> User \<Rightarrow> bool" where
  "auth_permitted bcmp d = (\<lambda>(clk, name, pw) u. \<exists>r \<in> set (users d). u_username r = name
     \<and> \<not> locked_at (t_check clk) r \<and> bcmp (u_password_hash r) pw
     \<and> u = \<lparr>usr_ID = u_id r, usr_Username = name, usr_Role = u_role r\<rparr>)"

definition rbac_gate :: "uuid \<times> string \<times> string \<Rightarrow> db \<Rightarrow> (rbac_error + AuthorizedAccess) \<times> db" where
  "rbac_gate = (\<lambda>(uid, role, host). Authorize uid role host)"

definition rbac_permitted :: "db \<Rightarrow> uuid \<times> string \<times> string \<Rightarrow> AuthorizedAccess \<Rightarrow> bool" where
  "rbac_permitted d = (\<lambda>(uid, role, host) acc. \<exists>s \<in> set (servers d). s_hostname s = host
     \<and> uid \<in> u_id ` set (users d) \<and> may_access d uid role s \<and> acc = access_of d role s)"

text \<open>What authorization reads.\<close>

definition rbac_view :: "db \<Rightarrow> (uuid \<times> bool) list \<times> server_row list \<times> policy_row list \<times> (uuid \<times> uuid) list" where
  "rbac_view d = (map (\<lambda>u. (u_id u, u_override u)) (users d), servers d, policies d, grants d)"

definition same_rbac_view :: "db \<Rightarrow> db \<Rightarrow> bool" where
  "same_rbac_view d d' \<longleftrightarrow> rbac_view d' = rbac_view d"

lemma auth_frame_view: "auth_frame name d d' \<Longrightarrow> same_rbac_view d d'"
  unfolding auth_frame_def same_rbac_view_def rbac_view_def
  by (auto simp: same_identity_def list_all2_conv_all_nth list_eq_iff_nth_eq)

lemma Authorize_db: "snd (Authorize uid role host d) = d\<lparr>outages := outages (snd (Authorize uid role host d))\<rparr>"
proof -
  have "snd (Authorize uid role host d) = snd (select_access role host uid d)"
    by (auto simp: Authorize_def split: prod.split sum.split sql_error.split)
  then show ?thesis unfolding select_access_def by (metis query_db)
qed

lemma may_access_view:
  assumes "rbac_view d' = rbac_view d"
  shows "may_access d' uid role s = may_access d uid role s" "u_id ` set (users d') = u_id ` set (users d)"
proof -
  have "map (\<lambda>u. (u_id u, u_override u)) (users d') = map (\<lambda>u. (u_id u, u_override u)) (users d)"
    using assms by (simp add: rbac_view_def)
  then have eq: "(\<lambda>u. (u_id u, u_override u)) ` set (users d') = (\<lambda>u. (u_id u, u_override u)) ` set (users d)"
    by (drule_tac arg_cong [where f = set]) simp
  have free: "(\<exists>u \<in> set us. u_id u = uid \<and> \<not> u_override u) \<longleftrightarrow> (uid, False) \<in> (\<lambda>u. (u_id u, u_override u)) ` set us"
    for us :: "user_row list"
    by (auto simp: image_iff)
  have rest: "policies d' = policies d" "grants d' = grants d" using assms by (simp_all add: rbac_view_def)
  show "may_access d' uid role s = may_access d uid role s" unfolding may_access_def free eq rest ..
  have ids: "u_id ` set us = fst ` (\<lambda>u. (u_id u, u_override u)) ` set us" for us :: "user_row list"
    by (simp add: image_image)
  show "u_id ` set (users d') = u_id ` set (users d)" unfolding ids eq ..
qed

interpretation login_then_access: gate_chain "auth_gate bcmp cfg" "auth_permitted bcmp" rbac_gate rbac_permitted schema_ok same_rbac_view
  for bcmp cfg
proof
  show "schema_ok s \<Longrightarrow> auth_gate bcmp cfg q s = (Inr a, s') \<Longrightarrow> auth_permitted bcmp s q a" for s q a s'
    by (cases q) (auto simp: auth_gate_def auth_permitted_def Let_def dest: Authenticate_Inr)
  show "schema_ok s \<Longrightarrow> auth_gate bcmp cfg q s = (r, s') \<Longrightarrow> schema_ok s' \<and> same_rbac_view s s'" for s q r s'
    using auth_frame_Authenticate auth_frame_schema auth_frame_view
    by (cases q) (auto simp: auth_gate_def Let_def, (metis auth_frame_schema auth_frame_Authenticate)+)
  show "schema_ok s \<Longrightarrow> rbac_gate q s = (Inr a, s') \<Longrightarrow> rbac_permitted s q a" for s q a s'
    by (cases q) (auto simp: rbac_gate_def rbac_permitted_def dest!: Authorize_Inr)
  show "schema_ok s \<Longrightarrow> rbac_gate q s = (r, s') \<Longrightarrow> schema_ok s' \<and> same_rbac_view s s'" for s q r s'
  proof -
    assume s: "schema_ok s" "rbac_gate q s = (r, s')"
    obtain uid role host where q: "q = (uid, role, host)" by (metis surj_pair)
    then have "s' = s\<lparr>outages := outages s'\<rparr>"
      using s(2) Authorize_db [of uid role host s] by (simp add: rbac_gate_def)
    then show ?thesis using s(1) by (metis schema_ok_outages auth_frame_refl(1) auth_frame_view)
  qed
  show "same_rbac_view s s' \<Longrightarrow> rbac_permitted s' q2 a2 \<Longrightarrow> rbac_permitted s q2 a2" for s s' q2 a2
    using may_access_view [of s' s]
    by (cases q2) (auto simp: rbac_permitted_def same_rbac_view_def access_of_def policy_cmds_def rbac_view_def)
qed

subsection \<open>Properties\<close>

text \<open>C28. Nobody passes the handler unauthenticated: a connection is routed anywhere only when its
  address is within its rate limit, the disk guard admits it, it sent a well-formed request, and the
  request's credentials belong to an account that is not locked; the console is reached directly
  only in the admin role. The identity handed on carries that account's id and role.\<close>

theorem only_authenticated_pass:
  assumes "handleConnection mk lim json_dec req_err bcmp cfg now clk remoteAddr c sv = (rt, c', sv')" "rt \<noteq> Refused"
    and "schema_ok (sv_db sv)"
  shows "\<exists>req c1 user. fst (Allow mk lim (now, conn_ip remoteAddr) (sv_limiter sv))
    \<and> \<not> ShouldRejectNewConnections (sv_guard sv)
    \<and> readConnectRequest json_dec c = (Inr req, c1)
    \<and> auth_permitted bcmp (sv_db sv) (clk, cr_Username req, cr_Password req) user
    \<and> rt = (if cr_Target req = admin_console_name then ToAdminConsole user
            else if cr_Target req = ''zttp-gateway'' then ToGateway user else ToTarget user (cr_Target req))
    \<and> (rt = ToAdminConsole user \<longrightarrow> usr_Role user = ''security-admin'')"
proof -
  obtain l' where al: "Allow mk lim (now, conn_ip remoteAddr) (sv_limiter sv) = (True, l')"
    and dg: "\<not> ShouldRejectNewConnections (sv_guard sv)"
    using assms(1,2) by (cases "Allow mk lim (now, conn_ip remoteAddr) (sv_limiter sv)")
      (auto simp: handleConnection_def Let_def split: if_splits)
  obtain req c1 where rd: "readConnectRequest json_dec c = (Inr req, c1)"
    using assms(1,2) al dg by (cases "readConnectRequest json_dec c"; cases "fst (readConnectRequest json_dec c)")
      (auto simp: handleConnection_def Let_def)
  define out where "out = Authenticate bcmp cfg clk (sv_db sv) (cr_Username req) (cr_Password req)"
  obtain user where ok: "ao_result out = Inr user"
    using assms(1,2) al dg rd by (cases "ao_result out") (auto simp: handleConnection_def out_def Let_def)
  have "auth_permitted bcmp (sv_db sv) (clk, cr_Username req, cr_Password req) user"
    by (rule login_then_access.first.sound [OF assms(3), of bcmp cfg "(clk, cr_Username req, cr_Password req)" user "ao_db out"])
      (simp add: auth_gate_def out_def [symmetric] ok Let_def)
  then show ?thesis
    using assms(1,2) al dg rd ok
    by (auto simp: handleConnection_def out_def [symmetric] Let_def admin_console_name_def split: if_splits)
qed

definition demo_server :: "db \<Rightarrow> (unit, unit) server" where
  "demo_server d = \<lparr>sv_limiter = New_limiter 10, sv_guard = NewDiskGuard 95, sv_db = d,
     sv_vault_client = \<lparr>vc_cfg = demo_config, vc_token = ''t'', vc_api_token = [], vc_renews = False\<rparr>, sv_vault = (),
     sv_heap = [], sv_fs = demo_fs, sv_nets = (\<lambda>_. \<lparr>n_ctx_done = False, n_ssh_open = False\<rparr>),
     sv_manager = NewConnectionManager, sv_ProxyNodeIP = ''10.1.1.1'', sv_AuditLogDir = ''/audit'', sv_VaultDevMode = False\<rparr>"

definition demo_clk :: auth_clock where
  "demo_clk = \<lparr>t_check = 0, t_db = 0, t_after = 0\<rparr>"

definition demo_client :: conn where
  "demo_client = demo_conn (map RByte (enc_msg ''{}'') @ [])"

lemma demo_read: "readConnectRequest (\<lambda>_. Inr demo_request) demo_client = (Inr demo_request, demo_client\<lparr>c_in := [], c_deadline := False\<rparr>)"
  using readConnectRequest_msg [of "''{}''" demo_client "[]" "\<lambda>_. Inr demo_request"] by (simp add: demo_client_def demo_conn_def)

theorem only_authenticated_pass_witness:
  "\<exists>rt c' sv'. handleConnection (\<lambda>_ _. ()) (\<lambda>_ l. (True, l)) (\<lambda>_. Inr demo_request) (\<lambda>_. []) demo_cmp demo_config 0 demo_clk ''10.0.0.1:5000''
      demo_client (demo_server demo_db) = (rt, c', sv') \<and> rt \<noteq> Refused
    \<and> (\<exists>req c1 user. fst (Allow (\<lambda>_ _. ()) (\<lambda>_ l. (True, l)) (0, conn_ip ''10.0.0.1:5000'') (sv_limiter (demo_server demo_db)))
      \<and> \<not> ShouldRejectNewConnections (sv_guard (demo_server demo_db))
      \<and> readConnectRequest (\<lambda>_. Inr demo_request) demo_client = (Inr req, c1)
      \<and> auth_permitted demo_cmp (sv_db (demo_server demo_db)) (demo_clk, cr_Username req, cr_Password req) user
      \<and> rt = (if cr_Target req = admin_console_name then ToAdminConsole user
              else if cr_Target req = ''zttp-gateway'' then ToGateway user else ToTarget user (cr_Target req))
      \<and> (rt = ToAdminConsole user \<longrightarrow> usr_Role user = ''security-admin''))"
proof -
  have auth: "ao_result (Authenticate demo_cmp demo_config demo_clk demo_db ''jdoe'' ''pw'') = Inr \<lparr>usr_ID = 1, usr_Username = ''jdoe'', usr_Role = ''sre-tier1''\<rparr>"
    using auth_right [of demo_db demo_user demo_clk demo_cmp "''pw''" demo_config] by (simp add: locked_at_def)
  obtain rt c' sv' where h: "handleConnection (\<lambda>_ _. ()) (\<lambda>_ l. (True, l)) (\<lambda>_. Inr demo_request) (\<lambda>_. []) demo_cmp demo_config 0 demo_clk ''10.0.0.1:5000''
      demo_client (demo_server demo_db) = (rt, c', sv')" by (metis surj_pair)
  then have "rt \<noteq> Refused"
    using auth by (auto simp: handleConnection_def Allow_def demo_server_def ShouldRejectNewConnections_def NewDiskGuard_def
        demo_read Let_def) (auto simp: demo_request_def admin_console_name_def split: if_splits)
  then show ?thesis using only_authenticated_pass [OF h] h by (simp add: demo_server_def)
qed

text \<open>What an attempt that gets as far as the bridge has done.\<close>

lemma connect_granted_bridged:
  assumes "connect_granted kv_get parse_key sha net uuid_string nano inet_in newLimiter setup stdin now sid
      user acc interactive c sv = (Inr (signer, b), c', sv')"
  obtains w fs fp vc vc2 h where
    "NewWriter uuid_string nano now (sv_AuditLogDir sv) sid (usr_ID user) (sv_fs sv) = (Some w, fs)"
    "Bridge_start inet_in newLimiter setup now
       \<lparr>bc_SessionID = sid, bc_UserID = usr_ID user, bc_ServerID = aa_ServerID acc,
        bc_ProxyNodeIP = ParseIP (sv_ProxyNodeIP sv), bc_AllowedCmds = aa_AllowedCmds acc, bc_AuditWriter = w\<rparr>
       stdin (c_out c') (sv_nets sv) (sv_manager sv) fs (sv_db sv) = Inr b"
    "c' = ackReady interactive c" "sv' = sv\<lparr>sv_vault_client := vc2, sv_heap := h, sv_fs := fs, sv_db := b_db b\<rparr>"
    "FetchHostFingerprint kv_get (aa_VaultPath acc) (sv_vault sv) vc = (Inr fp, vc2)"
    "ssh_Dial net (IP_String (aa_PrivateIP acc) @ '':22'') (aa_SSHUser acc) (es_signer signer) (StrictHostKeyCallback sha fp (sv_VaultDevMode sv))"
proof -
  obtain pk vc h where pk: "FetchPrivateKey kv_get parse_key (aa_VaultPath acc) (sv_vault sv) (sv_vault_client sv) (sv_heap sv) = (pk, vc, h)"
    by (rule prod_cases3)
  obtain rf vc2 where fp: "FetchHostFingerprint kv_get (aa_VaultPath acc) (sv_vault sv) vc = (rf, vc2)" by (rule prod.exhaust)
  obtain ow fs where nw: "NewWriter uuid_string nano now (sv_AuditLogDir sv) sid (usr_ID user) (sv_fs sv) = (ow, fs)" by (rule prod.exhaust)
  obtain fpv w where r: "pk = Inr signer" "rf = Inr fpv" "ow = Some w"
    using assms pk fp nw by (auto simp: connect_granted_def Let_def split: sum.splits option.splits if_splits prod.splits)
  show thesis
    by (rule that [where h = h, OF nw [unfolded r(3)] _ _ _ fp [unfolded r(2)]])
      (use assms pk fp nw r in \<open>auto simp: connect_granted_def Let_def split: sum.splits if_splits prod.splits\<close>)
qed

text \<open>C5. A session is bridged only to a server the user may reach: when a connection attempt gets as
  far as the bridge, the policy or a grant opens that server to the user, the bridge runs under that
  role's command whitelist, the session is registered for that user and server, and outside dev mode
  the machine's host key has the fingerprint stored in Vault.\<close>

theorem bridged_only_if_authorized:
  assumes "connectToTarget kv_get parse_key sha net uuid_string nano inet_in newLimiter setup stdin now sid
      user target interactive c sv = (Inr (signer, b), c', sv')"
    and "schema_ok (sv_db sv)"
  shows "\<exists>s \<in> set (servers (sv_db sv)). s_hostname s = target \<and> may_access (sv_db sv) (usr_ID user) (usr_Role user) s
    \<and> cf_allowedCmds (b_filter b) = go_slice (policy_cmds (sv_db sv) (usr_Role user))
    \<and> (\<exists>a \<in> set (sessions (b_db b)). a_session_id a = sid \<and> a_user_id a = usr_ID user \<and> a_server_id a = s_id s \<and> a_status a = ''active'')
    \<and> (\<not> sv_VaultDevMode sv \<longrightarrow> (\<exists>vc. fst (FetchHostFingerprint kv_get (s_vault_path s) (sv_vault sv) vc) =
        Inr (computeFingerprint sha (host_key net (IP_String (ParseIP (pg_host (s_private_ip s))) @ '':22'')))))"
proof -
  obtain acc d1 where az: "Authorize (usr_ID user) (usr_Role user) target (sv_db sv) = (Inr acc, d1)"
    using assms(1) by (auto simp: connectToTarget_def split: sum.splits prod.splits)
  then obtain s where s: "s \<in> set (servers (sv_db sv))" "s_hostname s = target" "may_access (sv_db sv) (usr_ID user) (usr_Role user) s"
    and acc: "acc = access_of (sv_db sv) (usr_Role user) s"
    using Authorize_Inr [OF az assms(2)] by blast
  have "connect_granted kv_get parse_key sha net uuid_string nano inet_in newLimiter setup stdin now sid
      user acc interactive c (sv\<lparr>sv_db := d1\<rparr>) = (Inr (signer, b), c', sv')"
    using assms(1) by (simp add: connectToTarget_def az)
  then obtain w fs fp vc vc2 where br: "Bridge_start inet_in newLimiter setup now
       \<lparr>bc_SessionID = sid, bc_UserID = usr_ID user, bc_ServerID = aa_ServerID acc,
        bc_ProxyNodeIP = ParseIP (sv_ProxyNodeIP sv), bc_AllowedCmds = aa_AllowedCmds acc, bc_AuditWriter = w\<rparr>
       stdin (c_out c') (sv_nets sv) (sv_manager sv) fs d1 = Inr b"
    and fp: "FetchHostFingerprint kv_get (aa_VaultPath acc) (sv_vault sv) vc = (Inr fp, vc2)"
    and dial: "ssh_Dial net (IP_String (aa_PrivateIP acc) @ '':22'') (aa_SSHUser acc) (es_signer signer) (StrictHostKeyCallback sha fp (sv_VaultDevMode sv))"
    by (rule connect_granted_bridged) simp
  have cmds: "cf_allowedCmds (b_filter b) = go_slice (policy_cmds (sv_db sv) (usr_Role user))"
    and row: "\<exists>a \<in> set (sessions (b_db b)). a_session_id a = sid \<and> a_user_id a = usr_ID user \<and> a_server_id a = s_id s \<and> a_status a = ''active''"
    using Bridge_start_row [OF br] acc by (simp_all add: access_of_def)
  have "fp = computeFingerprint sha (host_key net (IP_String (aa_PrivateIP acc) @ '':22''))" if "\<not> sv_VaultDevMode sv"
    using dial that by (auto simp: ssh_Dial_def StrictHostKeyCallback_def Let_def split: if_splits)
  then have "\<not> sv_VaultDevMode sv \<longrightarrow> (\<exists>vc. fst (FetchHostFingerprint kv_get (s_vault_path s) (sv_vault sv) vc) =
        Inr (computeFingerprint sha (host_key net (IP_String (ParseIP (pg_host (s_private_ip s))) @ '':22''))))"
    using fp acc by (intro impI exI [of _ vc]) (simp add: access_of_def)
  with s cmds row show ?thesis by blast
qed

definition demo_kv :: "unit kv_getter" where
  "demo_kv v t k = Inr (Some [''private_key'' \<mapsto> KvString ''PEM'', ''fingerprint'' \<mapsto> KvString ''SHA256:''])"

definition demo_net :: "unit ssh_world" where
  "demo_net = \<lparr>host_key = (\<lambda>_. ''hostkey''), dial_ok = (\<lambda>_ _ _. True)\<rparr>"

lemma demo_authorized:
  "Authorize 1 ''sre-tier1'' ''dev-01'' demo_rbac = (Inr (access_of demo_rbac ''sre-tier1'' (hd (servers demo_rbac))), demo_rbac)"
  using Authorize_known [OF demo_rbac_ok, of "hd (servers demo_rbac)" "hd (users demo_rbac)" "''sre-tier1''"]
  by (simp add: demo_rbac_def may_access_def)

lemma demo_connects:
  "\<exists>signer b c' sv'. connectToTarget demo_kv (\<lambda>_. Inr ()) (\<lambda>_. []) demo_net (\<lambda>_. ''s'') (\<lambda>_. ''t'') (\<lambda>_. Some (Inet ''10.1.1.1'' 32))
      (\<lambda>r b. b) demo_ssh empty_sink 0 50 \<lparr>usr_ID = 1, usr_Username = ''jdoe'', usr_Role = ''sre-tier1''\<rparr> ''dev-01'' False
      demo_client (demo_server demo_rbac) = (Inr (signer, b), c', sv')"
  by (simp add: connectToTarget_def connect_granted_def demo_server_def demo_authorized FetchPrivateKey_def FetchHostFingerprint_def demo_kv_def
      ssh_Dial_def StrictHostKeyCallback_def computeFingerprint_def demo_net_def NewWriter_def fs_create_def demo_fs_def
      Bridge_start_def demo_ssh_def Register_def run_stmt_def access_of_def nth_append Let_def)
    (simp add: demo_rbac_def)

theorem bridged_only_if_authorized_witness:
  "\<exists>signer b c' sv'. connectToTarget demo_kv (\<lambda>_. Inr ()) (\<lambda>_. []) demo_net (\<lambda>_. ''s'') (\<lambda>_. ''t'') (\<lambda>_. Some (Inet ''10.1.1.1'' 32))
      (\<lambda>r b. b) demo_ssh empty_sink 0 50 \<lparr>usr_ID = 1, usr_Username = ''jdoe'', usr_Role = ''sre-tier1''\<rparr> ''dev-01'' False
      demo_client (demo_server demo_rbac) = (Inr (signer, b), c', sv')
    \<and> (\<exists>s \<in> set (servers (sv_db (demo_server demo_rbac))). s_hostname s = ''dev-01'' \<and> may_access (sv_db (demo_server demo_rbac)) 1 ''sre-tier1'' s
      \<and> cf_allowedCmds (b_filter b) = go_slice (policy_cmds (sv_db (demo_server demo_rbac)) ''sre-tier1'')
      \<and> (\<exists>a \<in> set (sessions (b_db b)). a_session_id a = 50 \<and> a_user_id a = 1 \<and> a_server_id a = s_id s \<and> a_status a = ''active'')
      \<and> (\<not> sv_VaultDevMode (demo_server demo_rbac) \<longrightarrow> (\<exists>vc. fst (FetchHostFingerprint demo_kv (s_vault_path s) (sv_vault (demo_server demo_rbac)) vc) =
          Inr (computeFingerprint (\<lambda>_. []) (host_key demo_net (IP_String (ParseIP (pg_host (s_private_ip s))) @ '':22''))))))"
proof -
  obtain signer b c' sv' where con: "connectToTarget demo_kv (\<lambda>_. Inr ()) (\<lambda>_. []) demo_net (\<lambda>_. ''s'') (\<lambda>_. ''t'') (\<lambda>_. Some (Inet ''10.1.1.1'' 32))
      (\<lambda>r b. b) demo_ssh empty_sink 0 50 \<lparr>usr_ID = 1, usr_Username = ''jdoe'', usr_Role = ''sre-tier1''\<rparr> ''dev-01'' False
      demo_client (demo_server demo_rbac) = (Inr (signer, b), c', sv')"
    using demo_connects by blast
  have "schema_ok (sv_db (demo_server demo_rbac))" using demo_rbac_ok by (simp add: demo_server_def)
  from bridged_only_if_authorized [OF con this] con show ?thesis by auto
qed

text \<open>What a private key fetch leaves on the heap: nothing, a wiped slice, or the slice a signer owns.\<close>

lemma FetchPrivateKey_heap:
  assumes "FetchPrivateKey kv_get parse_key path v vc h = (res, vc', h')"
  shows "case res of
     Inl e \<Rightarrow> h' = h \<or> (\<exists>key. h' = h @ [key, replicate (length key) (CHR 0x00)])
   | Inr sg \<Rightarrow> (\<exists>key. h' = h @ [key, key] \<and> es_rawBytes sg = Some (Suc (length h)))"
proof (cases "kv_get v (vc_token vc) (stripKVPrefix path)")
  case (Inr o')
  show ?thesis
  proof (cases "\<exists>data key. o' = Some data \<and> data ''private_key'' = Some (KvString key)")
    case True
    then obtain data key where "o' = Some data" "data ''private_key'' = Some (KvString key)" by blast
    then show ?thesis
      using assms Inr zeroBytes_last [of "h @ [key]" key]
      by (cases "parse_key key") (auto simp: FetchPrivateKey_def Let_def nth_append)
  next
    case False
    then show ?thesis using assms Inr
      by (auto simp: FetchPrivateKey_def Let_def split: option.splits kv_value.splits sum.splits)
  qed
qed (use assms in \<open>auto simp: FetchPrivateKey_def Let_def\<close>)

definition wiped :: "heap \<Rightarrow> heap \<Rightarrow> bool" where
  "wiped h h' \<longleftrightarrow> h' = h \<or> (\<exists>key. h' = h @ [key, replicate (length key) (CHR 0x00)])"

lemma Zero_wipes:
  "h' = h @ [key, key] \<Longrightarrow> es_rawBytes sg = Some (Suc (length h)) \<Longrightarrow> wiped h (snd (Zero sg h'))"
  using zeroBytes_last [of "h @ [key]" key] by (auto simp: Zero_def wiped_def)


lemma demo_connect_fails:
  "\<exists>c' sv'. connectToTarget demo_kv (\<lambda>_. Inr ()) (\<lambda>_. []) (demo_net\<lparr>dial_ok := (\<lambda>_ _ _. False)\<rparr>) (\<lambda>_. ''s'') (\<lambda>_. ''t'') (\<lambda>_. Some (Inet ''10.1.1.1'' 32))
      (\<lambda>r b. b :: int) demo_ssh empty_sink 0 50 \<lparr>usr_ID = 1, usr_Username = ''jdoe'', usr_Role = ''sre-tier1''\<rparr> ''dev-01'' False
      demo_client (demo_server demo_rbac) = (Inl (), c', sv') \<and> sv_heap sv' = [''PEM'', replicate 3 (CHR 0x00)]"
  by (simp add: connectToTarget_def connect_granted_def demo_server_def demo_authorized FetchPrivateKey_def FetchHostFingerprint_def demo_kv_def
      ssh_Dial_def Zero_def zeroBytes_def numeral_3_eq_3 Let_def)




text \<open>The menu opens the console without a role check: when the first listed server happens to be
  named like the console, Enter leads a user of any role into the admin console.\<close>

theorem gateway_admin_without_role:
  assumes "outages d = []" "usr_Role user \<noteq> ''security-admin''"
    and "accessible_rows d (usr_ID user) = opt # opts" "go_hostname opt = admin_console_name"
    and "c_in c = RByte (CHR 0x0D) # rest"
  shows "fst (gateway_round err_string user c d) = GatewayAdmin user"
proof -
  have "queryAccessibleServers (usr_ID user) (usr_Role user) d = (Inr (opt # opts), d)"
    using assms(1-3) by (simp add: queryAccessibleServers_def query_up)
  moreover have "\<exists>c1. readKey (drawGatewayMenu (opt # opts) 0 c) = (Some KeyEnter, c1)"
    using assms(5) by (simp add: readKey_def)
  then have "fst (gateway_loop (opt # opts) 0 c) = Selected admin_console_name"
    using assms(4) by (auto simp: gateway_loop.simps [of "opt # opts"])
  ultimately show ?thesis
    by (cases "gateway_loop (opt # opts) 0 c") (simp add: gateway_round_def handleGatewayMenu_def)
qed

theorem gateway_admin_without_role_witness:
  "fst (gateway_round (\<lambda>_. []) \<lparr>usr_ID = 1, usr_Username = ''jdoe'', usr_Role = ''sre-tier1''\<rparr> (demo_conn [RByte (CHR 0x0D)])
     (demo_rbac\<lparr>servers := [(hd (servers demo_rbac))\<lparr>s_hostname := ''zttp-admin''\<rparr>]\<rparr>))
   = GatewayAdmin \<lparr>usr_ID = 1, usr_Username = ''jdoe'', usr_Role = ''sre-tier1''\<rparr>"
  by (rule gateway_admin_without_role [where rest = "[]" and opts = "[]" and opt = "\<lparr>go_hostname = ''zttp-admin'', go_environment = ''dev''\<rparr>"])
    (simp_all add: demo_rbac_def accessible_rows_def left_join_def env_any_def sql_true_def admin_console_name_def demo_conn_def)

end
