(* ===== verification/Zttp_Screens.thy ===== *)
theory Zttp_Screens
  imports Zttp_Gateway Zttp_Session
begin

text \<open>
  The screens of the admin console, the \<^verbatim>\<open>draw...\<close> functions of
  \<^verbatim>\<open>internal/proxy/admin_tui.go\<close>, with the form records they draw. A screen is the bytes
  written to the connection; characters outside ASCII are spelled in UTF-8. Times are printed by
  the parameter \<open>minute_fmt\<close> (layout \<^verbatim>\<open>2006-01-02 15:04\<close>) and database errors by
  \<open>err_string\<close>.
\<close>

subsection \<open>Forms\<close>

record addUserForm =
  uf_username :: string
  uf_password :: string
  uf_confirm :: string
  uf_role :: string
  uf_focus :: nat

record addServerForm =
  sf_hostname :: string
  sf_ip :: string
  sf_environment :: string
  sf_sshUser :: string
  sf_focus :: nat

record addServerAutoForm =
  af_username :: string
  af_password :: string
  af_focus :: nat

record serverOption =
  so_id :: string
  so_hostname :: string
  so_environment :: string
  so_selected :: bool

definition empty_user_form :: addUserForm where
  "empty_user_form = \<lparr>uf_username = [], uf_password = [], uf_confirm = [], uf_role = [], uf_focus = 0\<rparr>"

definition empty_server_form :: addServerForm where
  "empty_server_form = \<lparr>sf_hostname = [], sf_ip = [], sf_environment = [], sf_sshUser = [], sf_focus = 0\<rparr>"

definition empty_auto_form :: addServerAutoForm where
  "empty_auto_form = \<lparr>af_username = [], af_password = [], af_focus = 0\<rparr>"

subsection \<open>Pieces\<close>

definition block_char :: string where "block_char = [CHR 0xE2, CHR 0x96, CHR 0x88]"
definition star_char :: string where "star_char = [CHR 0xE2, CHR 0x98, CHR 0x85]"
definition middle_dot :: string where "middle_dot = [CHR 0xC2, CHR 0xB7]"
definition arrow_char :: string where "arrow_char = [CHR 0xE2, CHR 0x86, CHR 0x92]"
definition em_dash :: string where "em_dash = [CHR 0xE2, CHR 0x80, CHR 0x94]"

text \<open>A heading, and a line that is highlighted when the cursor is on it.\<close>

definition heading :: "string \<Rightarrow> string" where
  "heading t = ColorCyan @ t @ ColorReset @ crlf"

definition choice_line :: "string \<Rightarrow> string \<Rightarrow> bool \<Rightarrow> string" where
  "choice_line color label here =
     (if here then color @ ''> '' @ label @ ColorReset @ crlf else ''  '' @ label @ crlf)"

definition choice_list :: "nat \<Rightarrow> string list \<Rightarrow> string" where
  "choice_list index opts = concat (map (\<lambda>(i, opt). choice_line ColorGreen opt (i = index)) (enumerate 0 opts))"

definition drawField :: "string \<Rightarrow> string \<Rightarrow> bool \<Rightarrow> bool \<Rightarrow> string" where
  "drawField label val hidden focused =
     (let displayVal = (if hidden then replicate (length val) (CHR ''*'') else val) in
      if focused then ColorGreen @ ''> '' @ pad_right 11 label @ '': '' @ displayVal @ block_char @ ColorReset @ crlf
      else ''  '' @ pad_right 11 label @ '': '' @ displayVal @ crlf)"

subsection \<open>Menus and forms\<close>

definition main_menu :: "string list" where
  "main_menu = [''Add User'', ''Add Server'', ''Manage Server Access'', ''View Users'', ''View Servers'',
     ''View Audit Logs'', ''[ Back ]'']"

definition drawMainMenu :: "string \<Rightarrow> nat \<Rightarrow> conn \<Rightarrow> conn" where
  "drawMainMenu adminUsername index = conn_write
     (heading ''=== ZTTP Admin Console ==='' @ ''Logged in as: '' @ adminUsername @ crlf @ crlf
      @ choice_list index main_menu)"

definition drawAddUserForm :: "addUserForm \<Rightarrow> conn \<Rightarrow> conn" where
  "drawAddUserForm form = conn_write
     (heading ''=== Create New User ==='' @ crlf
      @ drawField ''Username'' (uf_username form) False (uf_focus form = 0)
      @ drawField ''Password'' (uf_password form) True (uf_focus form = 1)
      @ drawField ''Confirm '' (uf_confirm form) True (uf_focus form = 2)
      @ crlf
      @ choice_line ColorGreen ''[ Confirm ]'' (uf_focus form = 3)
      @ choice_line ColorRed ''[ Back ]'' (uf_focus form = 4)
      @ (if uf_password form \<noteq> uf_confirm form \<and> 0 < length (uf_confirm form)
         then crlf @ ColorRed @ ''* Passwords do not match'' @ ColorReset @ crlf else []))"

definition drawAddServerForm :: "addServerForm \<Rightarrow> conn \<Rightarrow> conn" where
  "drawAddServerForm form = conn_write
     (heading ''=== Add New Server ==='' @ ''Step 1: Server Details'' @ crlf @ crlf
      @ drawField ''Hostname   '' (sf_hostname form) False (sf_focus form = 0)
      @ drawField ''Private IP '' (sf_ip form) False (sf_focus form = 1)
      @ drawField ''Environment'' (sf_environment form) False (sf_focus form = 2)
      @ drawField ''Target User'' (sf_sshUser form) False (sf_focus form = 3)
      @ crlf
      @ choice_line ColorGreen ''[ Next ]'' (sf_focus form = 4)
      @ choice_line ColorRed ''[ Back ]'' (sf_focus form = 5))"

definition method_menu :: "string list" where
  "method_menu = [''Auto-Install (Provide SSH Password)'', ''Paste Existing Private Key'',
     ''Manual (I will copy the public key myself)'', ''Back'']"

definition drawAddServerMethod :: "nat \<Rightarrow> conn \<Rightarrow> conn" where
  "drawAddServerMethod index = conn_write
     (heading ''=== Add New Server ==='' @ ''Step 2: Key Provisioning Method'' @ crlf @ crlf
      @ choice_list index method_menu)"

definition drawAddServerAuto :: "addServerAutoForm \<Rightarrow> conn \<Rightarrow> conn" where
  "drawAddServerAuto form = conn_write
     (heading ''=== Auto-Install SSH Key ===''
      @ ''ZTTP will temporarily log in using this password to inject the new key.'' @ crlf
      @ ''The password will NOT be saved.'' @ crlf @ crlf
      @ drawField ''SSH Username'' (af_username form) False (af_focus form = 0)
      @ drawField ''SSH Password'' (af_password form) True (af_focus form = 1)
      @ crlf
      @ choice_line ColorGreen ''[ Provision Server ]'' (af_focus form = 2)
      @ choice_line ColorRed ''[ Back ]'' (af_focus form = 3))"

definition drawAddServerPaste :: "string \<Rightarrow> conn \<Rightarrow> conn" where
  "drawAddServerPaste buffer = conn_write
     (heading ''=== Paste Private Key ===''
      @ ''Paste your multi-line PEM encoded private key below.'' @ crlf
      @ ''When finished, press '' @ ColorGreen @ ''CTRL+S'' @ ColorReset @ '' to save.'' @ crlf
      @ replicate 50 (CHR ''-'') @ crlf
      @ buffer @ block_char)"

definition drawRoleSelect :: "string list \<Rightarrow> nat \<Rightarrow> conn \<Rightarrow> conn" where
  "drawRoleSelect roles index = conn_write (heading ''=== Select Role ==='' @ crlf @ choice_list index roles)"

definition access_line :: "nat \<Rightarrow> nat \<times> serverOption \<Rightarrow> string" where
  "access_line index = (\<lambda>(i, opt).
     (if i = index then ColorGreen @ ''> '' else ''  '') @ (if so_selected opt then ''[x]'' else ''[ ]'') @ '' ''
     @ pad_right 15 (so_hostname opt) @ '' ('' @ so_environment opt @ '')'' @ ColorReset @ crlf)"

definition drawAssignAccess :: "string \<Rightarrow> serverOption list \<Rightarrow> nat \<Rightarrow> bool \<Rightarrow> conn \<Rightarrow> conn" where
  "drawAssignAccess username opts index isEditMode = conn_write
     (heading ''=== Manage Server Access ===''
      @ ''Select servers for user '' @ [CHR 0x27] @ username @ [CHR 0x27] @ '' (UP/DOWN, ENTER to toggle)'' @ crlf @ crlf
      @ concat (map (access_line index) (enumerate 0 opts)) @ crlf
      @ choice_line ColorGreen ''[ Assign ]'' (index = length opts)
      @ choice_line ColorRed (if isEditMode then ''[ Back ]'' else ''[ Skip for now ]'') (index = length opts + 1))"

text \<open>The summary; the password is a parameter of the Go function that its body does not use.\<close>

definition drawSummary :: "string \<Rightarrow> string \<Rightarrow> string \<Rightarrow> string \<Rightarrow> serverOption list \<Rightarrow> conn \<Rightarrow> conn" where
  "drawSummary username password role msg srvs = conn_write
     (ColorGreen @ msg @ ColorReset @ crlf @ crlf
      @ (if \<not> HasPrefix msg ''Error'' \<and> username \<noteq> [] then
           heading ''User Details:'' @ ''Username: '' @ username @ crlf @ ''Role:     '' @ role @ crlf @ crlf
           @ heading ''Assigned Servers:''
           @ concat (map (\<lambda>srv. ''- '' @ so_hostname srv @ '' ('' @ so_environment srv @ '')'' @ crlf)
               (filter so_selected srvs))
           @ (if filter so_selected srvs = [] then ''No specific access granted yet.'' @ crlf else [])
           @ crlf
         else [])
      @ ''Press ENTER to return to Main Menu...'')"

subsection \<open>Listings\<close>

definition select_users_view :: "(string \<times> string \<times> instant option) list sql" where
  "select_users_view = query (\<lambda>d.
     Inr (map (\<lambda>u. (u_username u, u_role u, u_locked_until u)) (sort_key u_username (users d))))"

definition user_line :: "instant \<Rightarrow> string \<times> string \<times> instant option \<Rightarrow> string" where
  "user_line now = (\<lambda>(username, role, lockedUntil).
     pad_right 15 username @ '' '' @ pad_right 15 role @ '' ''
     @ pad_right 10 (case lockedUntil of Some t \<Rightarrow> (if now < t then ''true'' else ''false'') | None \<Rightarrow> ''false'') @ crlf)"

definition drawViewUsers :: "(sql_error \<Rightarrow> string) \<Rightarrow> instant \<Rightarrow> conn \<Rightarrow> db \<Rightarrow> conn \<times> db" where
  "drawViewUsers err_string now c d =
     (let (r, d') = select_users_view d in
      (conn_write
         (heading ''=== Registered Users ==='' @ crlf
          @ pad_right 15 ''USERNAME'' @ '' '' @ pad_right 15 ''ROLE'' @ '' '' @ pad_right 10 ''LOCKED'' @ crlf
          @ replicate 50 (CHR ''-'') @ crlf
          @ (case r of
               Inr rows \<Rightarrow> concat (map (user_line now) rows)
             | Inl e \<Rightarrow> ColorRed @ ''Error querying users: '' @ err_string e @ ColorReset @ crlf)
          @ crlf @ ''[ Press ENTER to go back ]'') c, d'))"

text \<open>The output form of an \<^verbatim>\<open>INET\<close> column, which omits the netmask of a single host.\<close>

definition pg_out :: "inet \<Rightarrow> string" where
  "pg_out i = (if inet_masklen i = (if CHR '':'' \<in> set (inet_addr i) then 128 else 32)
     then inet_addr i else pg_text i)"

definition select_servers_view :: "(string \<times> string \<times> string \<times> string) list sql" where
  "select_servers_view = query (\<lambda>d.
     Inr (map (\<lambda>s. (s_hostname s, pg_out (s_private_ip s), s_environment s, s_ssh_user s)) (sort_key s_hostname (servers d))))"

definition drawViewServers :: "(sql_error \<Rightarrow> string) \<Rightarrow> conn \<Rightarrow> db \<Rightarrow> conn \<times> db" where
  "drawViewServers err_string c d =
     (let c1 = clearScreen c;
          line = (\<lambda>(a, b, e, f). pad_right 20 a @ '' '' @ pad_right 15 b @ '' '' @ pad_right 15 e @ '' '' @ pad_right 15 f @ crlf);
          (r, d') = select_servers_view d in
      (conn_write
         (heading ''=== Registered Servers ==='' @ crlf
          @ line (''HOSTNAME'', ''IP'', ''ENVIRONMENT'', ''TARGET USER'')
          @ replicate 70 (CHR ''-'') @ crlf
          @ (case r of
               Inr rows \<Rightarrow> concat (map line rows) @ (if length rows = 0 then ''No servers found.'' @ crlf else [])
             | Inl e \<Rightarrow> ColorRed @ ''Error querying servers: '' @ err_string e @ ColorReset @ crlf)
          @ crlf @ ColorGreen @ ''[ Press ENTER to go back ]'' @ ColorReset @ crlf) c1, d'))"

text \<open>Rows are joined by \<^verbatim>\<open>|\<close> and split again; what is shown is the second part.\<close>

definition bar :: char where "bar = CHR ''|''"

definition select_users_names :: "(uuid \<Rightarrow> string) \<Rightarrow> string list sql" where
  "select_users_names uuid_string = query (\<lambda>d.
     Inr (map (\<lambda>u. uuid_string (u_id u) @ [bar] @ u_username u) (sort_key u_username (users d))))"

definition drawSelectUserForAssign :: "(uuid \<Rightarrow> string) \<Rightarrow> nat \<Rightarrow> conn \<Rightarrow> db \<Rightarrow> conn \<times> db" where
  "drawSelectUserForAssign uuid_string index c d =
     (let c1 = clearScreen c; (r, d') = select_users_names uuid_string d;
          us = (case r of Inr xs \<Rightarrow> xs | Inl _ \<Rightarrow> []) in
      (conn_write
         (heading ''=== Select User to Manage Access ==='' @ crlf
          @ (if length us = 0 then ''No users found.'' @ crlf else [])
          @ choice_list index (map (\<lambda>u. Split u bar ! 1) us)
          @ crlf @ choice_line ColorRed ''[ Back ]'' (index = length us)) c1, d'))"

subsection \<open>The audit viewer\<close>

definition drawAuditServers :: "ServerSummary list \<Rightarrow> nat \<Rightarrow> conn \<Rightarrow> conn" where
  "drawAuditServers srvs index = conn_write
     (heading (''=== ZTTP '' @ middle_dot @ '' Audit Logs ==='') @ crlf @ ''  Select a log to inspect:'' @ crlf @ crlf
      @ choice_line ColorGreen (star_char @ '' ADMIN ACTIONS LOG'') (index = 0)
      @ concat (map (\<lambda>(i, srv). choice_line ColorGreen
          (pad_right 20 (ss_Hostname srv) @ '' ('' @ ss_Environment srv @ '')'') (index = i + 1)) (enumerate 0 srvs))
      @ crlf @ choice_line ColorGreen ''[ Back ]'' (index = length srvs + 1))"

definition utc_minute :: "(instant \<Rightarrow> string) \<Rightarrow> instant \<Rightarrow> string" where
  "utc_minute minute_fmt t = minute_fmt t @ '' UTC''"

definition drawAuditSessions :: "(instant \<Rightarrow> string) \<Rightarrow> string \<Rightarrow> SessionRecord list \<Rightarrow> nat \<Rightarrow> conn \<Rightarrow> conn" where
  "drawAuditSessions minute_fmt hostname sess index = conn_write
     (heading (''=== Audit Logs '' @ middle_dot @ '' '' @ hostname @ '' ==='') @ crlf
      @ ''  Recent sessions (last 50):'' @ crlf @ crlf
      @ (if length sess = 0 then ''  (no sessions recorded yet)'' @ crlf else [])
      @ concat (map (\<lambda>(i, r). choice_line ColorGreen
          (pad_right 12 (sr_Username r) @ ''  '' @ utc_minute minute_fmt (sr_StartTime r) @ ''  ['' @ sr_Status r @ '']'') (index = i))
          (enumerate 0 sess))
      @ crlf @ choice_line ColorGreen ''[ Back ]'' (index = length sess))"

definition choice_menu :: "string list" where
  "choice_menu = [''View Text Log'', ''Play Recording'', ''Back'']"

definition drawAuditChoice :: "(instant \<Rightarrow> string) \<Rightarrow> string \<Rightarrow> string \<Rightarrow> instant \<Rightarrow> nat \<Rightarrow> conn \<Rightarrow> conn" where
  "drawAuditChoice minute_fmt username serverName startTime index = conn_write
     (heading (''=== Session '' @ middle_dot @ '' '' @ username @ '' '' @ arrow_char @ '' '' @ serverName @ '' ==='')
      @ ''  Started: '' @ utc_minute minute_fmt startTime @ crlf @ crlf
      @ concat (map (\<lambda>(i, opt).
          if i = index then ColorGreen @ ''  > [ '' @ pad_right 16 opt @ '' ]'' @ ColorReset @ crlf
          else ''    [ '' @ pad_right 16 opt @ '' ]'' @ crlf) (enumerate 0 choice_menu)))"

subsection \<open>Lemmas\<close>

text \<open>A screen consumes no input.\<close>

lemma clearScreen_in [simp]: "c_in (clearScreen c) = c_in c"
  by (simp add: clearScreen_def)

lemma draw_in [simp]:
  "c_in (drawMainMenu n i c) = c_in c" "c_in (drawAddUserForm uf c) = c_in c" "c_in (drawAddServerForm sf c) = c_in c"
  "c_in (drawAddServerMethod i c) = c_in c" "c_in (drawAddServerAuto af c) = c_in c" "c_in (drawAddServerPaste b c) = c_in c"
  "c_in (drawRoleSelect rs i c) = c_in c" "c_in (drawAssignAccess u os i e c) = c_in c" "c_in (drawSummary u p r m os c) = c_in c"
  "c_in (fst (drawViewUsers es now c d)) = c_in c" "c_in (fst (drawViewServers es c d)) = c_in c"
  "c_in (fst (drawSelectUserForAssign us i c d)) = c_in c" "c_in (drawAuditServers sm i c) = c_in c"
  "c_in (drawAuditSessions mf h ses i c) = c_in c" "c_in (drawAuditChoice mf u s t i c) = c_in c"
  by (simp_all add: drawMainMenu_def drawAddUserForm_def drawAddServerForm_def drawAddServerMethod_def
      drawAddServerAuto_def drawAddServerPaste_def drawRoleSelect_def drawAssignAccess_def drawSummary_def
      drawViewUsers_def drawViewServers_def drawSelectUserForAssign_def drawAuditServers_def
      drawAuditSessions_def drawAuditChoice_def Let_def split: prod.split)

text \<open>A listing changes nothing in the database.\<close>

lemma draw_db:
  "\<exists>xs. snd (drawViewUsers es now c d) = d\<lparr>outages := xs\<rparr>"
  "\<exists>xs. snd (drawViewServers es c d) = d\<lparr>outages := xs\<rparr>"
  "\<exists>xs. snd (drawSelectUserForAssign us i c d) = d\<lparr>outages := xs\<rparr>"
  unfolding drawViewUsers_def select_users_view_def drawViewServers_def select_servers_view_def
    drawSelectUserForAssign_def select_users_names_def Let_def case_prod_unfold snd_conv
  using query_db by blast+

subsection \<open>Properties\<close>

text \<open>Passwords stay off the screen: what the forms and the summary send to the terminal depends on a
  typed password only through its length, and on the confirmation only through its length and
  whether the two agree.\<close>

theorem screens_hide_passwords:
  assumes "length (uf_password f) = length (uf_password g)" "length (uf_confirm f) = length (uf_confirm g)"
    and "(uf_password f = uf_confirm f) = (uf_password g = uf_confirm g)"
    and "uf_username f = uf_username g" "uf_focus f = uf_focus g"
    and "length (af_password a) = length (af_password b)" "af_username a = af_username b" "af_focus a = af_focus b"
  shows "drawAddUserForm f c = drawAddUserForm g c \<and> drawAddServerAuto a c = drawAddServerAuto b c
    \<and> drawSummary u p r m os c = drawSummary u q r m os c"
  using assms by (simp add: drawAddUserForm_def drawAddServerAuto_def drawField_def drawSummary_def)

theorem screens_hide_passwords_witness:
  "let c0 = \<lparr>c_in = [], c_out = \<lparr>sk_data = [], sk_fails = []\<rparr>, c_deadline = False, c_closed = False\<rparr> in
   drawAddUserForm (empty_user_form\<lparr>uf_password := ''hunter2'', uf_confirm := ''hun''\<rparr>) c0
     = drawAddUserForm (empty_user_form\<lparr>uf_password := ''secret!'', uf_confirm := ''xyz''\<rparr>) c0
   \<and> drawAddServerAuto (empty_auto_form\<lparr>af_password := ''abc''\<rparr>) c0 = drawAddServerAuto (empty_auto_form\<lparr>af_password := ''xyz''\<rparr>) c0
   \<and> drawSummary ''bob'' ''pw'' ''dev'' ''ok'' [] c0 = drawSummary ''bob'' ''other'' ''dev'' ''ok'' [] c0"
  unfolding Let_def by (rule screens_hide_passwords) (simp_all add: empty_user_form_def empty_auto_form_def)

end
