(* ===== verification/Zttp_Replay.thy ===== *)
theory Zttp_Replay
  imports Zttp_Audit Zttp_Screens
begin

text \<open>
  The viewers of \<^verbatim>\<open>internal/proxy/admin_tui.go\<close>: the text of a recording, its replay in real
  time and the admin log.

  The replay runs beside a goroutine that watches the keyboard. How far the replay is when it
  notices Ctrl+C is up to the scheduler: \<open>sched\<close> is \<open>Some n\<close> when it is stopped after \<open>n\<close>
  frames and \<open>None\<close> when it plays to the end. The watching goroutine ignores every error, so
  without a Ctrl+C in the input the function never returns; this is the result \<open>None\<close>.
\<close>

subsection \<open>Escape sequences\<close>

text \<open>
  The pattern \<^verbatim>\<open>ansiEscape\<close> at the head of a text: the length of its match. Its four alternatives
  differ in the second byte, the repeated class of each is disjoint from what follows it, and no
  byte of a multi-byte character occurs in the pattern, so that matching bytes one by one is
  matching characters.
\<close>

definition csi_param :: "char \<Rightarrow> bool" where
  "csi_param c \<longleftrightarrow> (let n = (of_char c :: nat) in 48 \<le> n \<and> n \<le> 57 \<or> n = 59 \<or> n = 63)"

definition letter :: "char \<Rightarrow> bool" where
  "letter c \<longleftrightarrow> (let n = (of_char c :: nat) in 97 \<le> n \<and> n \<le> 122 \<or> 65 \<le> n \<and> n \<le> 90)"

definition bel :: char where "bel = CHR 0x07"

definition ansi_match :: "bytes \<Rightarrow> nat option" where
  "ansi_match s = (case s of
     x # y # r \<Rightarrow>
       (if x \<noteq> esc then None
        else if y = CHR ''['' then
          (let n = length (takeWhile csi_param r) in
           case drop n r of z # _ \<Rightarrow> (if letter z then Some (n + 3) else None) | [] \<Rightarrow> None)
        else if y = CHR ''('' \<or> y = CHR '')'' then
          (case r of z # _ \<Rightarrow> (if z \<in> set ''AB012'' then Some 3 else None) | [] \<Rightarrow> None)
        else if y = CHR ''='' \<or> y = CHR ''>'' then Some 2
        else if y = CHR '']'' \<and> take 2 r = ''0;'' then
          (let n = length (takeWhile (\<lambda>c. c \<noteq> bel) (drop 2 r)) in
           if n < length (drop 2 r) then Some (n + 5) else None)
        else None)
   | _ \<Rightarrow> None)"

text \<open>\<^verbatim>\<open>ansiEscape.ReplaceAllString(s, "")\<close>.\<close>

function ansi_strip :: "bytes \<Rightarrow> bytes" where
  "ansi_strip [] = []"
| "ansi_strip (c # s) = (case ansi_match (c # s) of
     Some n \<Rightarrow> ansi_strip (drop (n - 1) s)
   | None \<Rightarrow> c # ansi_strip s)"
  by pat_completeness auto
termination
  by (relation "measure length") auto

declare ansi_strip.simps [simp del]

subsection \<open>The text log\<close>

definition viewer_title :: "string \<Rightarrow> (instant \<Rightarrow> string) \<Rightarrow> string \<Rightarrow> string \<Rightarrow> instant \<Rightarrow> string" where
  "viewer_title what minute_fmt username srv startTime =
     crlf @ rule_line 4 @ '' '' @ what @ '' '' @ middle_dot @ '' '' @ username @ '' '' @ middle_dot @ '' '' @ srv
     @ '' '' @ middle_dot @ '' '' @ utc_minute minute_fmt startTime @ '' '' @ rule_line 4 @ crlf"

definition not_available :: string where
  "not_available = crlf @ ''[Recording not available for this session]'' @ crlf"

definition end_of :: "string \<Rightarrow> string" where
  "end_of what = crlf @ crlf @ ''[END OF '' @ what @ '' '' @ em_dash @ '' Press Ctrl+C to go back]'' @ crlf"

definition recording_text :: "bytes \<Rightarrow> bytes" where
  "recording_text file = concat (map (\<lambda>(s, u, data). data) (ttyrec_frames file))"

definition streamTextLog ::
  "(uuid \<Rightarrow> string) \<Rightarrow> (instant \<Rightarrow> string) \<Rightarrow> string \<Rightarrow> fsys \<Rightarrow> uuid \<Rightarrow> string \<Rightarrow> string \<Rightarrow> instant \<Rightarrow> conn \<Rightarrow> conn" where
  "streamTextLog uuid_string minute_fmt logDir fs sessionID username srv startTime c =
     (let path = path_Join logDir (uuid_string sessionID @ ''.ttyrec'');
          c1 = conn_write (viewer_title ''TEXT LOG'' minute_fmt username srv startTime
                 @ ''Press Ctrl+C to go back'' @ crlf @ rule_line 56 @ crlf) c
      in case fs_read path fs of
           None \<Rightarrow> waitForCtrlC (conn_write not_available c1)
         | Some file \<Rightarrow>
             waitForCtrlC (conn_write (end_of ''LOG'') (conn_write (ansi_strip (recording_text file)) c1)))"

definition streamAdminLog :: "string \<Rightarrow> fsys \<Rightarrow> conn \<Rightarrow> conn" where
  "streamAdminLog logDir fs c =
     (let path = path_Join logDir ''admin-actions.log'';
          c1 = conn_write (crlf @ rule_line 4 @ '' ADMIN ACTIONS LOG '' @ rule_line 4 @ crlf
                 @ ''Press Ctrl+C to go back'' @ crlf @ rule_line 26 @ crlf) c
      in case fs_read path fs of
           None \<Rightarrow> waitForCtrlC (conn_write (crlf @ ''[No admin actions recorded yet]'' @ crlf) c1)
         | Some file \<Rightarrow> waitForCtrlC (conn_write (end_of ''LOG'') (conn_write file c1)))"

subsection \<open>The replay\<close>

definition maxDelay :: "64 word" where
  "maxDelay = 2 * 1000000000"

text \<open>The pause before a frame, in the 64-bit arithmetic of \<^verbatim>\<open>time.Duration\<close>; nothing is waited for when
  it is not positive.\<close>

definition raw_delay :: "32 word \<times> 32 word \<Rightarrow> 32 word \<times> 32 word \<Rightarrow> 64 word" where
  "raw_delay = (\<lambda>(prevSec, prevUSec) (sec, usec).
     (ucast sec - ucast prevSec) * 1000000000 + (ucast usec - ucast prevUSec) * 1000)"

definition frame_delay :: "32 word \<times> 32 word \<Rightarrow> 32 word \<times> 32 word \<Rightarrow> 64 word" where
  "frame_delay prev cur =
     (let delay = raw_delay prev cur; delay = (if maxDelay <s delay then maxDelay else delay)
      in if 0 <s delay then delay else 0)"

text \<open>The pauses of a whole replay; the first frame is shown at once.\<close>

fun replay_delays :: "(32 word \<times> 32 word) option \<Rightarrow> (32 word \<times> 32 word \<times> bytes) list \<Rightarrow> 64 word list" where
  "replay_delays prev [] = []"
| "replay_delays prev ((sec, usec, data) # fs) =
     (case prev of None \<Rightarrow> [] | Some p \<Rightarrow> [frame_delay p (sec, usec)]) @ replay_delays (Some (sec, usec)) fs"

text \<open>What the watching goroutine leaves of the input: the rest after the first Ctrl+C.\<close>

fun after_ctrl_c :: "rd list \<Rightarrow> rd list option" where
  "after_ctrl_c [] = None"
| "after_ctrl_c (RByte b # xs) = (if (of_char b :: nat) = 3 then Some xs else after_ctrl_c xs)"
| "after_ctrl_c (x # xs) = after_ctrl_c xs"

fun write_frames :: "(32 word \<times> 32 word \<times> bytes) list \<Rightarrow> conn \<Rightarrow> conn" where
  "write_frames [] c = c"
| "write_frames ((s, u, data) # fs) c = write_frames fs (conn_write data c)"

definition playTTYRec ::
  "(uuid \<Rightarrow> string) \<Rightarrow> (instant \<Rightarrow> string) \<Rightarrow> nat option \<Rightarrow> string \<Rightarrow> fsys \<Rightarrow> uuid \<Rightarrow> string \<Rightarrow> string \<Rightarrow> instant \<Rightarrow>
   conn \<Rightarrow> conn option" where
  "playTTYRec uuid_string minute_fmt sched logDir fs sessionID username srv startTime c =
     (let path = path_Join logDir (uuid_string sessionID @ ''.ttyrec'');
          c1 = conn_write (viewer_title ''RECORDING'' minute_fmt username srv startTime
                 @ ''Press Ctrl+C to stop'' @ crlf @ rule_line 58 @ crlf) c
      in case fs_read path fs of
           None \<Rightarrow> Some (waitForCtrlC (conn_write not_available c1))
         | Some file \<Rightarrow>
             (case after_ctrl_c (c_in c1) of
                None \<Rightarrow> None
              | Some rest \<Rightarrow>
                  (let frames = ttyrec_frames file;
                       shown = (case sched of
                           Some n \<Rightarrow> write_frames (take n frames) c1
                         | None \<Rightarrow> conn_write (end_of ''RECORDING'') (write_frames frames c1))
                   in Some (flushConn (shown\<lparr>c_in := rest\<rparr>)))))"

subsection \<open>Lemmas\<close>

text \<open>A sequence that the pattern matches as a whole.\<close>

definition escape_seq :: "bytes \<Rightarrow> bool" where
  "escape_seq s \<longleftrightarrow> ansi_match s = Some (length s)"

lemma ansi_match_esc: "ansi_match s = Some n \<Longrightarrow> \<exists>r. s = esc # r"
  by (auto simp: ansi_match_def split: list.splits if_splits)

lemma ansi_match_pos: "ansi_match s = Some n \<Longrightarrow> 0 < n"
  by (auto simp: ansi_match_def Let_def split: list.splits if_splits)

lemma takeWhile_append_stop:
  "length (takeWhile P r) < length r \<Longrightarrow> takeWhile P (r @ t) = takeWhile P r"
  by (metis nat_less_le takeWhile_append takeWhile_eq_all_conv)

lemma drop_takeWhile_stop:
  assumes "drop (length (takeWhile P r)) r = z # zs"
  shows "takeWhile P (r @ t) = takeWhile P r" "drop (length (takeWhile P r)) (r @ t) = z # zs @ t"
proof -
  have l: "length (takeWhile P r) < length r" using assms by (metis drop_eq_Nil2 list.distinct(1) not_le)
  show "takeWhile P (r @ t) = takeWhile P r" using l by (rule takeWhile_append_stop)
  show "drop (length (takeWhile P r)) (r @ t) = z # zs @ t" using assms l by simp
qed

text \<open>The pattern, alternative by alternative.\<close>

lemma ansi_match_csi:
  "ansi_match (esc # CHR ''['' # r) = (case drop (length (takeWhile csi_param r)) r of
     z # _ \<Rightarrow> (if letter z then Some (length (takeWhile csi_param r) + 3) else None) | [] \<Rightarrow> None)"
  by (simp add: ansi_match_def Let_def)

lemma ansi_match_charset:
  "y = CHR ''('' \<or> y = CHR '')'' \<Longrightarrow> ansi_match (esc # y # r) = (case r of z # _ \<Rightarrow> (if z \<in> set ''AB012'' then Some 3 else None) | [] \<Rightarrow> None)"
  by (auto simp: ansi_match_def simp del: list.set)

lemma ansi_match_keypad: "y = CHR ''='' \<or> y = CHR ''>'' \<Longrightarrow> ansi_match (esc # y # r) = Some 2"
  by (auto simp: ansi_match_def)

lemma ansi_match_title:
  "ansi_match (esc # CHR '']'' # CHR ''0'' # CHR '';'' # r) =
     (if length (takeWhile (\<lambda>c. c \<noteq> bel) r) < length r then Some (length (takeWhile (\<lambda>c. c \<noteq> bel) r) + 5) else None)"
  by (simp add: ansi_match_def Let_def)

lemma ansi_match_cases:
  assumes "ansi_match s = Some n"
  obtains (csi) r where "s = esc # CHR ''['' # r"
  | (charset) y r where "s = esc # y # r" "y = CHR ''('' \<or> y = CHR '')''"
  | (keypad) y r where "s = esc # y # r" "y = CHR ''='' \<or> y = CHR ''>''"
  | (title) r where "s = esc # CHR '']'' # CHR ''0'' # CHR '';'' # r"
proof -
  obtain r0 where "s = esc # r0" using ansi_match_esc [OF assms] by blast
  moreover from this assms obtain y r where "r0 = y # r" by (cases r0) (simp_all add: ansi_match_def)
  ultimately have s: "s = esc # y # r" by simp
  show ?thesis
  proof (cases "y = CHR ''['' \<or> y = CHR ''('' \<or> y = CHR '')'' \<or> y = CHR ''='' \<or> y = CHR ''>''")
    case True
    then show ?thesis using s csi charset keypad by metis
  next
    case False
    with assms have "y = CHR '']''" "take 2 r = ''0;''"
      unfolding s ansi_match_def by (simp_all split: if_split_asm)
    moreover from this(2) have "r = CHR ''0'' # CHR '';'' # drop 2 r"
      by (metis append_Cons append_Nil append_take_drop_id)
    ultimately show ?thesis using s title by metis
  qed
qed

text \<open>A match does not depend on what follows it.\<close>

lemma ansi_match_append:
  assumes "ansi_match s = Some n"
  shows "ansi_match (s @ t) = Some n"
  using assms
proof (cases rule: ansi_match_cases)
  case (csi r)
  with assms obtain z zs where z: "drop (length (takeWhile csi_param r)) r = z # zs" "letter z"
    "n = length (takeWhile csi_param r) + 3"
    by (auto simp: ansi_match_csi split: list.splits if_splits)
  then show ?thesis using csi drop_takeWhile_stop [OF z(1), of t] by (simp add: ansi_match_csi)
next
  case (charset y r)
  with assms show ?thesis by (cases r) (simp_all add: ansi_match_charset)
next
  case (keypad y r)
  with assms show ?thesis by (simp add: ansi_match_keypad)
next
  case (title r)
  with assms show ?thesis using takeWhile_append_stop [of "\<lambda>c. c \<noteq> bel" r t]
    by (simp add: ansi_match_title split: if_splits)
qed

lemma ansi_strip_seq:
  assumes "escape_seq s"
  shows "ansi_strip (s @ t) = ansi_strip t"
proof -
  have m: "ansi_match (s @ t) = Some (length s)"
    using assms ansi_match_append by (simp add: escape_seq_def)
  moreover obtain c s' where "s = c # s'" using ansi_match_pos [of s] assms by (cases s) (auto simp: escape_seq_def)
  ultimately show ?thesis by (simp add: ansi_strip.simps)
qed

lemma ansi_strip_plain: "esc \<notin> set s \<Longrightarrow> ansi_strip (s @ t) = s @ ansi_strip t"
proof (induction s)
  case (Cons c s)
  then have "ansi_match (c # s @ t) = None" using ansi_match_esc [of "c # s @ t"] by (cases "ansi_match (c # s @ t)") auto
  with Cons show ?case by (simp add: ansi_strip.simps)
qed simp

text \<open>Terminal output as a mixture of text (\<open>Inl\<close>) and control sequences (\<open>Inr\<close>).\<close>

fun piece_bytes :: "bytes + bytes \<Rightarrow> bytes" where
  "piece_bytes (Inl t) = t"
| "piece_bytes (Inr s) = s"

fun piece_text :: "bytes + bytes \<Rightarrow> bytes" where
  "piece_text (Inl t) = t"
| "piece_text (Inr s) = []"

fun piece_ok :: "bytes + bytes \<Rightarrow> bool" where
  "piece_ok (Inl t) = (esc \<notin> set t)"
| "piece_ok (Inr s) = escape_seq s"

lemma ansi_strip_pieces:
  "\<forall>p \<in> set ps. piece_ok p \<Longrightarrow> ansi_strip (concat (map piece_bytes ps)) = concat (map piece_text ps)"
proof (induction ps)
  case Nil
  show ?case by (simp add: ansi_strip.simps)
next
  case (Cons p ps)
  then show ?case by (cases p) (simp_all add: ansi_strip_seq ansi_strip_plain)
qed

lemma recording_text_frames:
  assumes "\<forall>f \<in> set fs. frame_ok f"
  shows "ttyrec_frames (concat (map enc_frame fs)) = fs"
    "recording_text (concat (map enc_frame fs)) = concat (map (\<lambda>(s, u, data). data) fs)"
proof -
  show "ttyrec_frames (concat (map enc_frame fs)) = fs"
    unfolding ttyrec_frames_def using ttyrec.roundtrip [OF assms ttyrec.dec_Nil] by simp
  then show "recording_text (concat (map enc_frame fs)) = concat (map (\<lambda>(s, u, data). data) fs)"
    by (simp add: recording_text_def)
qed

lemma write_frames_good:
  assumes "good_sink (c_out c)" "\<not> c_closed c"
  shows "sk_data (c_out (write_frames fs c)) = sk_data (c_out c) @ concat (map (\<lambda>(s, u, data). data) fs)"
    "good_sink (c_out (write_frames fs c))" "\<not> c_closed (write_frames fs c)"
  using assms by (induction fs c rule: write_frames.induct) (simp_all add: conn_write_good)

lemma write_frames_in [simp]: "c_in (write_frames fs c) = c_in c"
  by (induction fs c rule: write_frames.induct) simp_all

lemma wait_out [simp]: "c_out (waitForCtrlC c) = c_out c" "c_out (flushConn c) = c_out c"
  by (simp_all add: waitForCtrlC_def flushConn_def SetReadDeadline_def)

lemma flush_input_length: "length (flush_input xs) \<le> length xs"
  by (induction xs rule: flush_input.induct) auto

lemma wait_input_length: "length (wait_input xs) \<le> length xs"
proof (induction xs rule: wait_input.induct)
  case (1 b xs)
  then show ?case using flush_input_length [of xs] by (auto intro: le_SucI)
qed auto

lemma after_ctrl_c_iff: "after_ctrl_c xs \<noteq> None \<longleftrightarrow> RByte (CHR 0x03) \<in> set xs"
proof (induction xs rule: after_ctrl_c.induct)
  case (2 b xs)
  have "(of_char b :: nat) = 3 \<longleftrightarrow> b = CHR 0x03" 
    using of_char_eq_iff [where ?'a = nat, of b "CHR 0x03"] by (simp add: numeral_3_eq_3)
  then show ?case using 2 by auto
qed auto

lemma after_ctrl_c_length: "after_ctrl_c xs = Some r \<Longrightarrow> length r < length xs"
  by (induction xs rule: after_ctrl_c.induct) (auto split: if_splits)

lemma ucast_of_int: "(ucast (a :: 32 word) :: 64 word) = of_int (uint a)"
  by simp

lemma sint_of_int: "- (2 ^ 63) \<le> k \<Longrightarrow> k < 2 ^ 63 \<Longrightarrow> sint (of_int k :: 64 word) = k"
  by (simp add: signed_of_int signed_take_bit_int_eq_self)

lemma raw_delay_exact:
  "sint (raw_delay (s0, u0) (s1, u1)) = (uint s1 - uint s0) * second + (uint u1 - uint u0) * 1000"
proof -
  let ?k = "(uint s1 - uint s0) * second + (uint u1 - uint u0) * 1000"
  have b: "0 \<le> uint w" "uint w < 2 ^ 32" for w :: "32 word" using uint_lt2p [of w] by simp_all
  have "- (2 ^ 63) \<le> (a - b) * second + (c - d) * 1000 \<and> (a - b) * second + (c - d) * 1000 < 2 ^ 63"
    if "0 \<le> a" "a < 2 ^ 32" "0 \<le> b" "b < 2 ^ 32" "0 \<le> c" "c < 2 ^ 32" "0 \<le> d" "d < 2 ^ 32" for a b c d :: int
    using that by simp
  then have "- (2 ^ 63) \<le> ?k" "?k < 2 ^ 63"
    using b [of s0] b [of s1] b [of u0] b [of u1] by blast+
  moreover have "raw_delay (s0, u0) (s1, u1) = of_int ?k"
    by (simp add: raw_delay_def ucast_of_int del: of_int_uint)
  ultimately show ?thesis by (simp add: sint_of_int del: of_int_add of_int_mult of_int_diff)
qed

subsection \<open>Properties\<close>

definition text_header :: "(instant \<Rightarrow> string) \<Rightarrow> string \<Rightarrow> string \<Rightarrow> instant \<Rightarrow> bytes" where
  "text_header minute_fmt username srv startTime =
     viewer_title ''TEXT LOG'' minute_fmt username srv startTime @ ''Press Ctrl+C to go back'' @ crlf @ rule_line 56 @ crlf"

definition replay_header :: "(instant \<Rightarrow> string) \<Rightarrow> string \<Rightarrow> string \<Rightarrow> instant \<Rightarrow> bytes" where
  "replay_header minute_fmt username srv startTime =
     viewer_title ''RECORDING'' minute_fmt username srv startTime @ ''Press Ctrl+C to stop'' @ crlf @ rule_line 58 @ crlf"


definition demo_frames :: "(32 word \<times> 32 word \<times> bytes) list" where
  "demo_frames = [(0, 0, ''$ '' @ [esc]), (1, 0, ''[1mls'' @ [esc] @ ''[0m'' @ crlf)]"

definition demo_log :: fsys where
  "demo_log = \<lparr>files = [''a/s.ttyrec'' \<mapsto> concat (map enc_frame demo_frames)], free_bytes = 0, denied = (\<lambda>_. False)\<rparr>"

lemma demo_log_read: "fs_read (path_Join ''a'' (''s'' @ ''.ttyrec'')) demo_log = Some (concat (map enc_frame demo_frames))"
  by (simp add: fs_read_def demo_log_def path_Join_def path_Clean_def Split_def Let_def HasPrefix_def)


text \<open>Replay timing: in the 64-bit arithmetic of the code no pause overflows, each is exactly the recorded
  distance of the two frames, cut off below at zero (a clock set back) and above at two seconds.\<close>

theorem replay_delay_exact:
  "sint (frame_delay (s0, u0) (s1, u1)) =
     max 0 (min (2 * second) ((uint s1 - uint s0) * second + (uint u1 - uint u0) * 1000))"
proof -
  have "sint maxDelay = 2 * second" by (simp add: maxDelay_def)
  then show ?thesis
    by (simp add: frame_delay_def Let_def word_sless_alt raw_delay_exact max_def min_def)
qed



text \<open>The sanitising is not idempotent: a sequence hidden inside another one survives, so recorded output can
  still drive the administrator's terminal.\<close>

lemma nested_escape_survives:
  assumes "esc \<notin> set p"
  shows "ansi_strip ([esc] @ ([esc] @ ''[m'') @ ''['' @ p) = [esc] @ ''['' @ p"
proof -
  have "ansi_match ([esc] @ ([esc] @ ''[m'') @ ''['' @ p) = None" by (simp add: ansi_match_def esc_def)
  moreover have "escape_seq ([esc] @ ''[m'')"
    by (simp add: escape_seq_def ansi_match_csi csi_param_def letter_def)
  moreover have "ansi_strip (''['' @ p) = ''['' @ p"
    using ansi_strip_plain [of "''['' @ p" "[]"] assms by (simp add: ansi_strip.simps esc_def)
  ultimately show ?thesis using ansi_strip_seq [of "[esc] @ ''[m''" "''['' @ p"] by (simp add: ansi_strip.simps)
qed

end
