(* ===== verification/Zttp_Admin.thy ===== *)
theory Zttp_Admin
  imports Zttp_Auth Zttp_Rbac Zttp_KillSwitch Zttp_Vault Zttp_Screens
begin

text \<open>
  The operations behind the admin console (\<^verbatim>\<open>internal/proxy/admin_tui.go\<close>): the roles and servers
  it offers, the creation of users and servers, the assignment of access and the installation of a
  key on a target.

  UUIDs travel through the console as text: \<open>uuid_string\<close> is PostgreSQL's and the UUID package's
  output form, \<open>uuid_in\<close> PostgreSQL's input, \<open>uuid_parse\<close> the package's. A \<^verbatim>\<open>VARCHAR(n)\<close>
  column refuses a longer text. Key generation, PEM and SSH encodings are parameters: an
  \<open>ssh_key\<close> is what the libraries produce for one generated key.
\<close>

subsection \<open>Roles, servers and users\<close>

definition fits :: "nat \<Rightarrow> string \<Rightarrow> bool" where
  "fits n s \<longleftrightarrow> length (runes s) \<le> n"

definition ensure_unassigned :: "unit sql" where
  "ensure_unassigned = run_stmt (\<lambda>d.
     if ''unassigned'' \<in> p_role ` set (policies d) then (Inr (), d)
     else (Inr (), d\<lparr>policies := policies d @ [\<lparr>p_role = ''unassigned'', p_envs = [], p_cmds = None\<rparr>]\<rparr>))"

definition select_roles :: "string list sql" where
  "select_roles = query (\<lambda>d. Inr (sort (map p_role (policies d))))"

definition queryRoles :: "db \<Rightarrow> string list \<times> db" where
  "queryRoles d =
     (let (_, d1) = ensure_unassigned d; (r, d2) = select_roles d1
      in (''unassigned'' # (case r of Inr rs \<Rightarrow> filter (\<lambda>x. x \<noteq> ''unassigned'') rs | Inl _ \<Rightarrow> []), d2))"

definition select_servers :: "(uuid \<Rightarrow> string) \<Rightarrow> serverOption list sql" where
  "select_servers uuid_string = query (\<lambda>d. Inr (map (\<lambda>s.
     \<lparr>so_id = uuid_string (s_id s), so_hostname = s_hostname s, so_environment = s_environment s, so_selected = False\<rparr>)
     (sort_key s_hostname (servers d))))"

definition queryServers :: "(uuid \<Rightarrow> string) \<Rightarrow> db \<Rightarrow> serverOption list \<times> db" where
  "queryServers uuid_string d =
     (let (r, d') = select_servers uuid_string d in ((case r of Inr opts \<Rightarrow> opts | Inl _ \<Rightarrow> []), d'))"

definition insert_user :: "uuid \<Rightarrow> string \<Rightarrow> string \<Rightarrow> string \<Rightarrow> uuid sql" where
  "insert_user newid username hash role = run_stmt (\<lambda>d.
     if \<not> fits 50 username \<or> \<not> fits 255 hash \<or> \<not> fits 50 role then (Inl BadInput, d)
     else if newid \<in> u_id ` set (users d) \<or> username \<in> u_username ` set (users d) then (Inl ConstraintViolation, d)
     else (Inr newid, d\<lparr>users := users d @
       [\<lparr>u_id = newid, u_username = username, u_password_hash = hash, u_role = role,
         u_failed_attempts = 0, u_locked_until = None, u_override = False\<rparr>]\<rparr>))"

text \<open>\<open>gen\<close> is \<^verbatim>\<open>bcrypt.GenerateFromPassword\<close>; the result is the text of the new identifier.\<close>

definition createUser ::
  "(uuid \<Rightarrow> string) \<Rightarrow> (sql_error \<Rightarrow> string) \<Rightarrow> (bytes \<Rightarrow> nat \<Rightarrow> string + bytes) \<Rightarrow> uuid \<Rightarrow> string \<Rightarrow> string \<Rightarrow> string \<Rightarrow>
   db \<Rightarrow> (string + string) \<times> db" where
  "createUser uuid_string err_string gen newid username password role d =
     (case gen password 12 of
        Inl e \<Rightarrow> (Inl e, d)
      | Inr hash \<Rightarrow>
          (case insert_user newid username hash role d of
             (Inl e, d') \<Rightarrow> (Inl (err_string e), d')
           | (Inr uid, d') \<Rightarrow> (Inr (uuid_string uid), d')))"

subsection \<open>Access\<close>

definition set_override :: "(string \<Rightarrow> uuid option) \<Rightarrow> string \<Rightarrow> unit sql" where
  "set_override uuid_in userID = run_stmt (\<lambda>d. case uuid_in userID of
     None \<Rightarrow> (Inl BadInput, d)
   | Some uid \<Rightarrow> (Inr (), d\<lparr>users := map (\<lambda>u. if u_id u = uid then u\<lparr>u_override := True\<rparr> else u) (users d)\<rparr>))"

definition insert_grant :: "(string \<Rightarrow> uuid option) \<Rightarrow> string \<Rightarrow> string \<Rightarrow> unit sql" where
  "insert_grant uuid_in userID serverID = run_stmt (\<lambda>d. case (uuid_in userID, uuid_in serverID) of
     (Some u, Some s) \<Rightarrow>
       (if (u, s) \<in> set (grants d) then (Inr (), d)
        else if u \<notin> u_id ` set (users d) \<or> s \<notin> s_id ` set (servers d) then (Inl ConstraintViolation, d)
        else (Inr (), d\<lparr>grants := grants d @ [(u, s)]\<rparr>))
   | _ \<Rightarrow> (Inl BadInput, d))"

text \<open>The number of rows affected.\<close>

definition delete_grant :: "(string \<Rightarrow> uuid option) \<Rightarrow> string \<Rightarrow> string \<Rightarrow> nat sql" where
  "delete_grant uuid_in userID serverID = run_stmt (\<lambda>d. case (uuid_in userID, uuid_in serverID) of
     (Some u, Some s) \<Rightarrow>
       (Inr (length (filter (\<lambda>g. g = (u, s)) (grants d))), d\<lparr>grants := filter (\<lambda>g. g \<noteq> (u, s)) (grants d)\<rparr>)
   | _ \<Rightarrow> (Inl BadInput, d))"

definition select_user_sessions :: "(uuid \<Rightarrow> string) \<Rightarrow> (string \<Rightarrow> uuid option) \<Rightarrow> string \<Rightarrow> string \<Rightarrow> string list sql" where
  "select_user_sessions uuid_string uuid_in userID serverID = query (\<lambda>d. case (uuid_in userID, uuid_in serverID) of
     (Some u, Some s) \<Rightarrow> Inr (map (\<lambda>a. uuid_string (a_session_id a))
       (filter (\<lambda>a. a_user_id a = u \<and> a_server_id a = s \<and> a_status a = ''active'') (sessions d)))
   | _ \<Rightarrow> Inl BadInput)"

record uuid_lib =
  ul_string :: "uuid \<Rightarrow> string"
  ul_in :: "string \<Rightarrow> uuid option"
  ul_parse :: "string \<Rightarrow> uuid option"

text \<open>The kills of one revoked server; the elapsed time that \<^verbatim>\<open>Terminate\<close> returns is not used.\<close>

fun kill_sessions :: "uuid_lib \<Rightarrow> string list \<Rightarrow> 'w ConnectionManager \<times> 'w \<Rightarrow> 'w ConnectionManager \<times> 'w" where
  "kill_sessions U [] cw = cw"
| "kill_sessions U (t # ts) cw =
     kill_sessions U ts (case ul_parse U t of
        Some sid \<Rightarrow> snd (cm_Terminate (ul_string U) 0 sid ''access revoked'' cw)
      | None \<Rightarrow> cw)"

fun assign_loop ::
  "uuid_lib \<Rightarrow> string \<Rightarrow> serverOption list \<Rightarrow> string list \<Rightarrow> db \<times> 'w ConnectionManager \<times> 'w \<Rightarrow>
   (sql_error + string list) \<times> db \<times> 'w ConnectionManager \<times> 'w" where
  "assign_loop U userID [] revoked st = (Inr revoked, st)"
| "assign_loop U userID (srv # srvs) revoked (d, cw) =
     (if so_selected srv then
        (case insert_grant (ul_in U) userID (so_id srv) d of
           (Inl e, d1) \<Rightarrow> (Inl e, d1, cw)
         | (Inr _, d1) \<Rightarrow> assign_loop U userID srvs revoked (d1, cw))
      else
        (case delete_grant (ul_in U) userID (so_id srv) d of
           (Inl e, d1) \<Rightarrow> (Inl e, d1, cw)
         | (Inr n, d1) \<Rightarrow>
             (if 0 < n then
                (case select_user_sessions (ul_string U) (ul_in U) userID (so_id srv) d1 of
                   (Inl e, d2) \<Rightarrow> assign_loop U userID srvs (revoked @ [so_hostname srv]) (d2, cw)
                 | (Inr ts, d2) \<Rightarrow> assign_loop U userID srvs (revoked @ [so_hostname srv]) (d2, kill_sessions U ts cw))
              else assign_loop U userID srvs revoked (d1, cw))))"

definition assignServers ::
  "uuid_lib \<Rightarrow> string \<Rightarrow> serverOption list \<Rightarrow> db \<times> 'w ConnectionManager \<times> 'w \<Rightarrow>
   (sql_error + string list) \<times> db \<times> 'w ConnectionManager \<times> 'w" where
  "assignServers U userID srvs = (\<lambda>(d, cw).
     assign_loop U userID srvs [] (snd (set_override (ul_in U) userID d), cw))"

text \<open>The options of the access screen for an existing user; a null in the last column leaves the Go
  variable at false.\<close>

definition access_rows :: "(uuid \<Rightarrow> string) \<Rightarrow> uuid \<Rightarrow> db \<Rightarrow> serverOption list" where
  "access_rows uuid_string uid d =
     [\<lparr>so_id = uuid_string (s_id s), so_hostname = s_hostname s, so_environment = s_environment s,
       so_selected = sql_true (sql_or (Some (g \<noteq> None)) (sql_and (Some (u_override u = False)) (env_any s p)))\<rparr>.
      s \<leftarrow> sort_key s_hostname (servers d),
      g \<leftarrow> left_join (\<lambda>g. snd g = s_id s \<and> fst g = uid) (grants d),
      u \<leftarrow> users d, p \<leftarrow> left_join (\<lambda>p. p_role p = u_role u) (policies d), u_id u = uid]"

definition select_access_rows :: "uuid_lib \<Rightarrow> string \<Rightarrow> serverOption list sql" where
  "select_access_rows U userID = query (\<lambda>d. case ul_in U userID of
     None \<Rightarrow> Inl BadInput | Some uid \<Rightarrow> Inr (access_rows (ul_string U) uid d))"

definition select_users_roles :: "(uuid \<Rightarrow> string) \<Rightarrow> string list sql" where
  "select_users_roles uuid_string = query (\<lambda>d.
     Inr (map (\<lambda>u. uuid_string (u_id u) @ [bar] @ u_username u @ [bar] @ u_role u) (sort_key u_username (users d))))"

subsection \<open>Servers\<close>

record ssh_key =
  k_pem :: string
  k_authorized :: string
  k_fingerprint :: string

definition insert_server ::
  "(string \<Rightarrow> inet option) \<Rightarrow> uuid \<Rightarrow> string \<Rightarrow> string \<Rightarrow> string \<Rightarrow> string \<Rightarrow> string \<Rightarrow> unit sql" where
  "insert_server inet_in newid hostname ipStr vaultPath env sshUser = run_stmt (\<lambda>d.
     case inet_in ipStr of
       None \<Rightarrow> (Inl BadInput, d)
     | Some ip \<Rightarrow>
         (if \<not> fits 100 hostname \<or> \<not> fits 255 vaultPath \<or> \<not> fits 50 env \<or> \<not> fits 50 sshUser then (Inl BadInput, d)
          else if newid \<in> s_id ` set (servers d) \<or> hostname \<in> s_hostname ` set (servers d) then (Inl ConstraintViolation, d)
          else (Inr (), d\<lparr>servers := servers d @
            [\<lparr>s_id = newid, s_hostname = hostname, s_private_ip = ip, s_vault_path = vaultPath,
              s_ssh_user = sshUser, s_environment = env\<rparr>]\<rparr>)))"

definition vault_path_of :: "string \<Rightarrow> string" where
  "vault_path_of hostname = ''secret/data/ssh/'' @ hostname"

text \<open>Both ways of adding a server write the key to Vault first and then insert the row.\<close>

definition provision ::
  "'v kv_putter \<Rightarrow> (string \<Rightarrow> inet option) \<Rightarrow> (sql_error \<Rightarrow> string) \<Rightarrow> uuid \<Rightarrow> string \<Rightarrow> string \<Rightarrow> string \<Rightarrow> string \<Rightarrow> string \<Rightarrow> string \<Rightarrow>
   vault_client \<times> 'v \<times> db \<Rightarrow> (string + unit) \<times> vault_client \<times> 'v \<times> db" where
  "provision kv_put inet_in err_string newid hostname ipStr env sshUser privPEM fingerprint = (\<lambda>(vc, v, d).
     case PutSecret kv_put (vault_path_of hostname) privPEM fingerprint vc v of
       (Inl e, vc1, v1) \<Rightarrow> (Inl (''vault provision failed: '' @ e), vc1, v1, d)
     | (Inr _, vc1, v1) \<Rightarrow>
         (case insert_server inet_in newid hostname ipStr (vault_path_of hostname) env sshUser d of
            (Inl e, d1) \<Rightarrow> (Inl (''db insert failed: '' @ err_string e), vc1, v1, d1)
          | (Inr _, d1) \<Rightarrow> (Inr (), vc1, v1, d1)))"

text \<open>The result is the public key and the PEM text.\<close>

definition generateAndSaveServer ::
  "string + ssh_key \<Rightarrow> 'v kv_putter \<Rightarrow> (string \<Rightarrow> inet option) \<Rightarrow> (sql_error \<Rightarrow> string) \<Rightarrow> uuid \<Rightarrow> string \<Rightarrow> string \<Rightarrow> string \<Rightarrow> string \<Rightarrow>
   vault_client \<times> 'v \<times> db \<Rightarrow> (string + string \<times> string) \<times> vault_client \<times> 'v \<times> db" where
  "generateAndSaveServer keygen kv_put inet_in err_string newid hostname ipStr env sshUser st =
     (case keygen of
        Inl e \<Rightarrow> (Inl e, st)
      | Inr k \<Rightarrow>
          (case provision kv_put inet_in err_string newid hostname ipStr env sshUser (k_pem k) (k_fingerprint k) st of
             (Inl e, st') \<Rightarrow> (Inl e, st')
           | (Inr _, st') \<Rightarrow> (Inr (k_authorized k, k_pem k), st')))"

definition saveCustomServer ::
  "(bytes \<Rightarrow> string + 'sg) \<Rightarrow> ('sg \<Rightarrow> string) \<Rightarrow> 'v kv_putter \<Rightarrow> (string \<Rightarrow> inet option) \<Rightarrow> (sql_error \<Rightarrow> string) \<Rightarrow> uuid \<Rightarrow>
   string \<Rightarrow> string \<Rightarrow> string \<Rightarrow> string \<Rightarrow> string \<Rightarrow> vault_client \<times> 'v \<times> db \<Rightarrow> (string + unit) \<times> vault_client \<times> 'v \<times> db" where
  "saveCustomServer parse_key fingerprintSHA256 kv_put inet_in err_string newid hostname ipStr env sshUser privPEM st =
     (case parse_key privPEM of
        Inl e \<Rightarrow> (Inl (''invalid private key provided: '' @ e), st)
      | Inr signer \<Rightarrow>
          provision kv_put inet_in err_string newid hostname ipStr env sshUser privPEM (fingerprintSHA256 signer) st)"

text \<open>The SSH connection of \<^verbatim>\<open>autoProvisionKey\<close>: what dialling with a password, opening a session and
  running a command return (\<open>None\<close> is success). Any host key is accepted.\<close>

record install_ssh =
  is_dial :: "string \<Rightarrow> string \<Rightarrow> string \<Rightarrow> string option"
  is_session :: "string option"
  is_run :: "string \<Rightarrow> string option"

definition install_command :: "string \<Rightarrow> string" where
  "install_command pubKey = ''mkdir -p ~/.ssh && chmod 700 ~/.ssh && echo '' @ [CHR 0x27] @ TrimSpace pubKey @ [CHR 0x27]
     @ '' >> ~/.ssh/authorized_keys && chmod 600 ~/.ssh/authorized_keys''"

definition autoProvisionKey :: "install_ssh \<Rightarrow> string \<Rightarrow> string \<Rightarrow> string \<Rightarrow> string \<Rightarrow> string option" where
  "autoProvisionKey net ip sshUser sshPass pubKey =
     (case is_dial net (ip @ '':22'') sshUser sshPass of
        Some e \<Rightarrow> Some (''ssh dial failed (incorrect credentials or offline): '' @ e)
      | None \<Rightarrow>
          (case is_session net of
             Some e \<Rightarrow> Some (''failed to open session: '' @ e)
           | None \<Rightarrow> map_option (\<lambda>e. ''failed to inject key: '' @ e) (is_run net (install_command pubKey))))"

subsection \<open>Interface: what the operations write\<close>

text \<open>
  Every admin operation is a sequence of a few primitive writes: a policy for the role
  ``unassigned'', a server, a user, a grant more or less, an override flag, a kill. A relation
  between the states before and after that is reflexive, transitive and holds of each of these
  writes therefore holds of every operation. \<open>cw\<close> is the kill switch with the node it acts on, and
  \<open>ok_user\<close> what is known of a row that is about to be added to the users.
\<close>

locale admin_writes =
  fixes R :: "db \<times> 'w ConnectionManager \<times> 'w \<Rightarrow> db \<times> 'w ConnectionManager \<times> 'w \<Rightarrow> bool"
    and ok_user :: "user_row \<Rightarrow> bool"
  assumes R_refl: "R x x"
    and R_trans: "R x y \<Longrightarrow> R y z \<Longrightarrow> R x z"
    and R_outages: "outages d = down # xs \<Longrightarrow> R (d, cw) (d\<lparr>outages := xs\<rparr>, cw)"
    and R_policy: "p_role p \<notin> p_role ` set (policies d) \<Longrightarrow> R (d, cw) (d\<lparr>policies := policies d @ [p]\<rparr>, cw)"
    and R_server: "s_id r \<notin> s_id ` set (servers d) \<Longrightarrow> s_hostname r \<notin> s_hostname ` set (servers d) \<Longrightarrow>
      R (d, cw) (d\<lparr>servers := servers d @ [r]\<rparr>, cw)"
    and R_user: "u_id row \<notin> u_id ` set (users d) \<Longrightarrow> u_username row \<notin> u_username ` set (users d) \<Longrightarrow> ok_user row \<Longrightarrow>
      R (d, cw) (d\<lparr>users := users d @ [row]\<rparr>, cw)"
    and R_grant: "u \<in> u_id ` set (users d) \<Longrightarrow> s \<in> s_id ` set (servers d) \<Longrightarrow> (u, s) \<notin> set (grants d) \<Longrightarrow>
      R (d, cw) (d\<lparr>grants := grants d @ [(u, s)]\<rparr>, cw)"
    and R_revoke: "R (d, cw) (d\<lparr>grants := filter P (grants d)\<rparr>, cw)"
    and R_override: "R (d, cw) (d\<lparr>users := map (\<lambda>u. if u_id u = uid then u\<lparr>u_override := True\<rparr> else u) (users d)\<rparr>, cw)"
    and R_kill: "R (d, cw) (d, snd (cm_Terminate us 0 sid reason cw))"
begin

lemma R_stmt: "(\<And>e. R (e, cw) (snd (f e), cw)) \<Longrightarrow> R (d, cw) (snd (run_stmt f d), cw)"
  by (auto simp: run_stmt_def intro: R_outages R_trans [OF R_outages] split: list.split)

lemma R_query [simp]: "R (d, cw) (snd (query q d), cw)"
  unfolding query_def by (rule R_stmt) (simp add: R_refl)

lemma R_selects [simp]:
  "R (d, cw) (snd (ListServersWithSessions d), cw)" "R (d, cw) (snd (ListSessionsByServer sid d), cw)"
  "R (d, cw) (snd (select_users_roles us d), cw)" "R (d, cw) (snd (select_access_rows U t d), cw)"
  "R (d, cw) (snd (queryServers us d), cw)" "R (d, cw) (snd (select_user_sessions us ui t x d), cw)"
  unfolding ListServersWithSessions_def ListSessionsByServer_def select_users_roles_def select_access_rows_def
    queryServers_def select_servers_def select_user_sessions_def Let_def case_prod_unfold snd_conv
  by (rule R_query)+

lemma R_grant_stmts [simp]:
  "R (d, cw) (snd (insert_grant ui u s d), cw)" "R (d, cw) (snd (delete_grant ui u s d), cw)" "R (d, cw) (snd (set_override ui u d), cw)"
  unfolding insert_grant_def delete_grant_def set_override_def
  by (rule R_stmt, auto intro: R_refl R_grant R_revoke R_override split: option.split)+

lemma R_queryRoles [simp]: "R (d, cw) (snd (queryRoles d), cw)"
proof -
  have "R (d, cw) (snd (ensure_unassigned d), cw)"
    unfolding ensure_unassigned_def by (rule R_stmt) (auto intro: R_refl R_policy)
  then show ?thesis
    unfolding queryRoles_def select_roles_def Let_def case_prod_unfold snd_conv by (rule R_trans) (rule R_query)
qed

lemma R_createUser:
  assumes "\<And>hash. gen password 12 = Inr hash \<Longrightarrow> ok_user \<lparr>u_id = newid, u_username = name, u_password_hash = hash, u_role = role,
    u_failed_attempts = 0, u_locked_until = None, u_override = False\<rparr>"
  shows "R (d, cw) (snd (createUser us es gen newid name password role d), cw)"
proof (cases "gen password 12")
  case (Inr hash)
  have "R (d, cw) (snd (insert_user newid name hash role d), cw)"
    unfolding insert_user_def by (rule R_stmt) (auto intro: R_refl R_user assms [OF Inr])
  then show ?thesis using Inr by (simp add: createUser_def case_prod_unfold split: sum.split)
qed (simp add: createUser_def R_refl)

lemma R_kill_sessions: "R (d, cw) (d, kill_sessions U ts cw)"
proof (induction ts arbitrary: cw)
  case (Cons t ts)
  show ?case using R_trans [OF R_kill Cons.IH] Cons.IH by (cases "ul_parse U t") simp_all
qed (simp add: R_refl)

lemma R_assign_loop: "R (d, cw) (snd (assign_loop U uid srvs rv (d, cw)))"
proof (induction srvs arbitrary: rv d cw)
  case (Cons srv srvs)
  obtain ri di where ins: "insert_grant (ul_in U) uid (so_id srv) d = (ri, di)" by (rule prod.exhaust)
  obtain rd dd where del: "delete_grant (ul_in U) uid (so_id srv) d = (rd, dd)" by (rule prod.exhaust)
  obtain rq dq where sel: "select_user_sessions (ul_string U) (ul_in U) uid (so_id srv) dd = (rq, dq)" by (rule prod.exhaust)
  have i: "R (d, cw) (di, cw)" and e: "R (d, cw) (dd, cw)"
    using R_grant_stmts(1,2) [of d cw "ul_in U" uid "so_id srv"] by (simp_all add: ins del)
  have q: "R (d, cw) (dq, cw)"
    using R_trans [OF e R_selects(6)] sel by (metis snd_conv)
  show ?case using R_trans [OF i Cons.IH] R_trans [OF e Cons.IH] R_trans [OF q Cons.IH]
      R_trans [OF q R_trans [OF R_kill_sessions Cons.IH]] i e
    by (cases ri; cases rd; cases rq) (simp_all add: ins del sel)
qed (simp add: R_refl)

lemma R_assignServers [simp]: "R s (snd (assignServers U uid srvs s))"
  using R_trans [OF R_grant_stmts(3) R_assign_loop]
  by (cases s) (simp add: assignServers_def)

lemma R_provision [simp]:
  "R (d, cw) (snd (snd (snd (provision kp ii es newid h ip env u pem fp (vc, v, d)))), cw)"
proof -
  have "R (d, cw) (snd (insert_server ii newid h ip vp env u d), cw)" for vp
    unfolding insert_server_def by (rule R_stmt) (auto intro: R_refl R_server split: option.split)
  then have "R (d, cw) (d1, cw)" if "insert_server ii newid h ip vp env u d = (r, d1)" for vp r d1
    using that by (metis snd_conv)
  then show ?thesis by (auto simp: provision_def R_refl split: prod.split sum.split)
qed

lemma R_servers [simp]:
  "R (d, cw) (snd (snd (snd (generateAndSaveServer kg kp ii es newid h ip env u (vc, v, d)))), cw)"
  "R (d, cw) (snd (snd (snd (saveCustomServer pk fp kp ii es newid h ip env u pem (vc, v, d)))), cw)"
  by (auto simp: generateAndSaveServer_def saveCustomServer_def R_refl case_prod_unfold split: sum.split)

end

text \<open>The constraints of the schema are kept by every write.\<close>

lemma schema_ok_more_servers:
  "schema_ok d \<Longrightarrow> s_id r \<notin> s_id ` set (servers d) \<Longrightarrow> s_hostname r \<notin> s_hostname ` set (servers d) \<Longrightarrow>
   schema_ok (d\<lparr>servers := servers d @ [r]\<rparr>)"
  unfolding schema_ok_def by fastforce

lemma schema_ok_more_users:
  "schema_ok d \<Longrightarrow> u_id r \<notin> u_id ` set (users d) \<Longrightarrow> u_username r \<notin> u_username ` set (users d) \<Longrightarrow>
   schema_ok (d\<lparr>users := users d @ [r]\<rparr>)"
  unfolding schema_ok_def by fastforce

lemma schema_ok_override:
  "schema_ok d \<Longrightarrow> schema_ok (d\<lparr>users := map (\<lambda>u. if u_id u = uid then u\<lparr>u_override := True\<rparr> else u) (users d)\<rparr>)"
  by (subst schema_ok_users) (simp_all add: comp_def if_distrib cong: if_cong)

definition keeps_schema :: "db \<times> 'w ConnectionManager \<times> 'w \<Rightarrow> db \<times> 'w ConnectionManager \<times> 'w \<Rightarrow> bool" where
  "keeps_schema s t \<longleftrightarrow> (schema_ok (fst s) \<longrightarrow> schema_ok (fst t))"

interpretation schema: admin_writes keeps_schema "\<lambda>_. True"
proof
  show "keeps_schema (d, cw) (d\<lparr>grants := grants d @ [(u, s)]\<rparr>, cw)"
    if "u \<in> u_id ` set (users d)" "s \<in> s_id ` set (servers d)" "(u, s) \<notin> set (grants d)" for u s d and cw :: "'w ConnectionManager \<times> 'w"
    using that by (simp add: keeps_schema_def schema_ok_def)
qed (simp_all add: keeps_schema_def schema_ok_more_servers schema_ok_more_users schema_ok_override,
    simp_all add: schema_ok_def)

lemma schema_ok_grant_stmts:
  assumes "schema_ok d"
  shows "schema_ok (snd (insert_grant ui u s d))" "schema_ok (snd (delete_grant ui u s d))" "schema_ok (snd (set_override ui u d))"
  using schema.R_grant_stmts [of d] assms by (simp_all add: keeps_schema_def)

lemma schema_ok_assignServers: "schema_ok d \<Longrightarrow> schema_ok (fst (snd (assignServers U uid srvs (d, cw))))"
  using schema.R_assignServers [of "(d, cw)" U uid srvs] by (simp add: keeps_schema_def)

lemma schema_ok_createUser: "schema_ok d \<Longrightarrow> schema_ok (snd (createUser us es gen newid n p r d))"
  using schema.R_createUser [where d = d and gen = gen] by (simp add: keeps_schema_def)

subsection \<open>Assigning access\<close>

text \<open>The three UUID functions agree on the text of an identifier.\<close>

definition uuid_law :: "uuid_lib \<Rightarrow> bool" where
  "uuid_law U \<longleftrightarrow> (\<forall>x. ul_in U (ul_string U x) = Some x \<and> ul_parse U (ul_string U x) = Some x)"

definition access_option :: "uuid_lib \<Rightarrow> (server_row \<Rightarrow> bool) \<Rightarrow> server_row \<Rightarrow> serverOption" where
  "access_option U sel s = \<lparr>so_id = ul_string U (s_id s), so_hostname = s_hostname s,
     so_environment = s_environment s, so_selected = sel s\<rparr>"

text \<open>The effect of one kill on the node, the sessions of a user on a server, and all kills of a
  revocation in order.\<close>

definition kill_effect :: "'w ConnectionManager \<Rightarrow> uuid \<Rightarrow> 'w \<Rightarrow> 'w" where
  "kill_effect cm sid w = (case cm_sessions cm sid of None \<Rightarrow> w | Some h \<Rightarrow> h_CloseConns h (h_Cancel h w))"

definition sessions_on :: "db \<Rightarrow> uuid \<Rightarrow> server_row \<Rightarrow> uuid list" where
  "sessions_on d uid s = map a_session_id
     (filter (\<lambda>a. a_user_id a = uid \<and> a_server_id a = s_id s \<and> a_status a = ''active'') (sessions d))"

definition revokes :: "db \<Rightarrow> uuid \<Rightarrow> (server_row \<Rightarrow> bool) \<Rightarrow> server_row \<Rightarrow> bool" where
  "revokes d uid sel s \<longleftrightarrow> \<not> sel s \<and> (uid, s_id s) \<in> set (grants d)"

definition killed :: "db \<Rightarrow> uuid \<Rightarrow> (server_row \<Rightarrow> bool) \<Rightarrow> server_row list \<Rightarrow> uuid list" where
  "killed d uid sel ss = concat (map (sessions_on d uid) (filter (revokes d uid sel) ss))"

definition forget :: "uuid list \<Rightarrow> 'w ConnectionManager \<Rightarrow> 'w ConnectionManager" where
  "forget ids cm = cm\<lparr>cm_sessions := (\<lambda>k. if k \<in> set ids then None else cm_sessions cm k)\<rparr>"

definition assigned_grants :: "uuid \<Rightarrow> (server_row \<Rightarrow> bool) \<Rightarrow> server_row list \<Rightarrow> (uuid \<times> uuid) set \<Rightarrow> (uuid \<times> uuid) set" where
  "assigned_grants uid sel ss G =
     (G - Pair uid ` s_id ` {s \<in> set ss. \<not> sel s}) \<union> Pair uid ` s_id ` {s \<in> set ss. sel s}"

lemma forget_Nil [simp]: "forget [] cm = cm"
  by (simp add: forget_def)

lemma forget_forget [simp]: "forget xs (forget ys cm) = forget (ys @ xs) cm"
  by (cases cm) (auto simp: forget_def)

lemma kill_effect_forget: "sid \<notin> set ids \<Longrightarrow> kill_effect (forget ids cm) sid = kill_effect cm sid"
  by (simp add: kill_effect_def forget_def fun_eq_iff)

lemma cm_Terminate_effect: "snd (cm_Terminate us 0 sid r (cm, w)) = (forget [sid] cm, kill_effect cm sid w)"
  by (auto simp: cm_Terminate_def kill_effect_def forget_def cm_Deregister_def fun_eq_iff split: option.split)

lemma kill_sessions_eq:
  assumes "uuid_law U" "distinct ids"
  shows "kill_sessions U (map (ul_string U) ids) (cm, w) = (forget ids cm, fold (kill_effect cm) ids w)"
  using assms(2)
proof (induction ids arbitrary: cm w)
  case (Cons i ids)
  have "fold (kill_effect (forget [i] cm)) ids v = fold (kill_effect cm) ids v" for v
    by (rule fold_cong) (use Cons.prems in \<open>auto intro!: kill_effect_forget\<close>)
  then show ?case using Cons assms(1) by (simp add: uuid_law_def cm_Terminate_effect)
qed simp

lemma sessions_on_distinct: "schema_ok d \<Longrightarrow> distinct (sessions_on d uid s)"
  by (simp add: sessions_on_def schema_ok_def distinct_map_filter)

lemma sessions_on_disjoint:
  assumes "schema_ok d" "s_id s \<noteq> s_id t"
  shows "set (sessions_on d uid s) \<inter> set (sessions_on d uid t) = {}"
proof -
  have "a_server_id a = a_server_id b"
    if "a \<in> set (sessions d)" "b \<in> set (sessions d)" "a_session_id a = a_session_id b" for a b
    using distinct_key_unique [of a_session_id "sessions d" a b] assms(1) that by (simp add: schema_ok_def)
  moreover have "\<exists>a \<in> set (sessions d). a_session_id a = x \<and> a_server_id a = s_id r" if "x \<in> set (sessions_on d uid r)" for x r
    using that by (auto simp: sessions_on_def)
  ultimately show ?thesis using assms(2) by (metis (no_types, lifting) disjoint_iff)
qed

lemma killed_disjoint:
  assumes "schema_ok d" "distinct (map s_id (s # ss))"
  shows "set (sessions_on d uid s) \<inter> set (killed d uid sel ss) = {}"
proof -
  have "set (sessions_on d uid s) \<inter> set (sessions_on d uid t) = {}" if "t \<in> set ss" for t
    using sessions_on_disjoint [OF assms(1), of s t] assms(2) that by (metis distinct.simps(2) imageI list.simps(9) set_map)
  then show ?thesis by (auto simp: killed_def)
qed

text \<open>The loop, for options drawn from the server table.\<close>

lemma sessions_on_cong: "sessions d = sessions e \<Longrightarrow> sessions_on d = sessions_on e"
  by (simp add: sessions_on_def fun_eq_iff)

lemma killed_cong:
  assumes "\<And>s. s \<in> set ss \<Longrightarrow> revokes d uid sel s = revokes e uid sel s" "sessions d = sessions e"
  shows "killed d uid sel ss = killed e uid sel ss"
  unfolding killed_def sessions_on_cong [OF assms(2)] using assms(1) by (metis (mono_tags, lifting) filter_cong)

lemma assigned_grants_Cons:
  assumes "distinct (map s_id (s # ss))"
  shows "assigned_grants uid sel (s # ss) G =
    assigned_grants uid sel ss (if sel s then insert (uid, s_id s) G else G - {(uid, s_id s)})"
proof -
  have "s_id s \<notin> s_id ` set ss" using assms by simp
  then have "s_id s \<notin> s_id ` {t \<in> set ss. P t}" for P by blast
  moreover have "{t \<in> set (s # ss). P t} = (if P s then insert s {t \<in> set ss. P t} else {t \<in> set ss. P t})" for P by auto
  ultimately show ?thesis unfolding assigned_grants_def by auto
qed

text \<open>One round of the loop: the grant is made to agree with the tick, and a grant taken away kills.\<close>

definition grant_change :: "uuid \<Rightarrow> (server_row \<Rightarrow> bool) \<Rightarrow> server_row \<Rightarrow> (uuid \<times> uuid) list \<Rightarrow> (uuid \<times> uuid) list" where
  "grant_change uid sel s G = (if sel s then (if (uid, s_id s) \<in> set G then G else G @ [(uid, s_id s)])
     else filter (\<lambda>g. g \<noteq> (uid, s_id s)) G)"

lemma set_grant_change:
  "set (grant_change uid sel s G) = (if sel s then insert (uid, s_id s) (set G) else set G - {(uid, s_id s)})"
  by (auto simp: grant_change_def)

lemma grant_change_stmts:
  assumes "uuid_law U" "outages d = []" "uid \<in> u_id ` set (users d)" "s \<in> set (servers d)" "d1 = d\<lparr>grants := grant_change uid sel s (grants d)\<rparr>"
  shows "sel s \<Longrightarrow> insert_grant (ul_in U) (ul_string U uid) (so_id (access_option U sel s)) d = (Inr (), d1)"
    and "\<not> sel s \<Longrightarrow> delete_grant (ul_in U) (ul_string U uid) (so_id (access_option U sel s)) d =
      (Inr (length (filter (\<lambda>g. g = (uid, s_id s)) (grants d))), d1)"
proof -
  have U: "ul_in U (ul_string U x) = Some x" for x using assms(1) by (simp add: uuid_law_def)
  show "sel s \<Longrightarrow> insert_grant (ul_in U) (ul_string U uid) (so_id (access_option U sel s)) d = (Inr (), d1)"
    using assms(2-5) outages_same [of d "[]"]
    by (auto simp: insert_grant_def run_stmt_up access_option_def U grant_change_def)
  show "\<not> sel s \<Longrightarrow> delete_grant (ul_in U) (ul_string U uid) (so_id (access_option U sel s)) d =
      (Inr (length (filter (\<lambda>g. g = (uid, s_id s)) (grants d))), d1)"
    using assms(2,5) by (simp add: delete_grant_def run_stmt_up access_option_def U grant_change_def)
qed

lemma assign_step:
  assumes "uuid_law U" "schema_ok d" "outages d = []" "uid \<in> u_id ` set (users d)" "s \<in> set (servers d)"
    and "d1 = d\<lparr>grants := grant_change uid sel s (grants d)\<rparr>" "ks = (if revokes d uid sel s then sessions_on d uid s else [])"
  shows "assign_loop U (ul_string U uid) (map (access_option U sel) (s # ss)) rv (d, cm, w) =
      assign_loop U (ul_string U uid) (map (access_option U sel) ss) (rv @ (if revokes d uid sel s then [s_hostname s] else []))
        (d1, forget ks cm, fold (kill_effect cm) ks w)"
    and "schema_ok d1"
proof -
  let ?u = "ul_string U uid" and ?o = "access_option U sel s"
  note st = grant_change_stmts [OF assms(1,3-6)]
  show "schema_ok d1"
    using schema_ok_grant_stmts(1,2) [OF assms(2), of "ul_in U" ?u "so_id ?o"] st by (cases "sel s") auto
  show "assign_loop U ?u (map (access_option U sel) (s # ss)) rv (d, cm, w) =
      assign_loop U ?u (map (access_option U sel) ss) (rv @ (if revokes d uid sel s then [s_hostname s] else []))
        (d1, forget ks cm, fold (kill_effect cm) ks w)"
  proof (cases "sel s")
    case True
    then show ?thesis using st(1) assms(7) by (simp add: access_option_def revokes_def)
  next
    case False
    have n: "0 < length (filter (\<lambda>g. g = (uid, s_id s)) (grants d)) \<longleftrightarrow> revokes d uid sel s"
      using False by (auto simp: revokes_def filter_empty_conv)
    have "select_user_sessions (ul_string U) (ul_in U) ?u (so_id ?o) d1 = (Inr (map (ul_string U) (sessions_on d uid s)), d1)"
      using assms(1,3,6) by (simp add: select_user_sessions_def query_up access_option_def uuid_law_def sessions_on_def)
    moreover note kill_sessions_eq [OF assms(1) sessions_on_distinct [OF assms(2)], of uid s cm w]
    ultimately show ?thesis using False st(2) n assms(7) by (simp add: access_option_def)
  qed
qed

lemma assign_loop_exact:
  assumes "uuid_law U"
  shows "schema_ok d \<Longrightarrow> outages d = [] \<Longrightarrow> uid \<in> u_id ` set (users d) \<Longrightarrow> set ss \<subseteq> set (servers d) \<Longrightarrow> distinct (map s_id ss) \<Longrightarrow>
    \<exists>G. assign_loop U (ul_string U uid) (map (access_option U sel) ss) rv (d, cm, w) =
      (Inr (rv @ map s_hostname (filter (revokes d uid sel) ss)), d\<lparr>grants := G\<rparr>,
       forget (killed d uid sel ss) cm, fold (kill_effect cm) (killed d uid sel ss) w)
    \<and> set G = assigned_grants uid sel ss (set (grants d))"
proof (induction ss arbitrary: rv d cm w)
  case Nil
  show ?case by (rule exI [of _ "grants d"]) (simp add: killed_def assigned_grants_def)
next
  case (Cons s ss)
  define d1 where "d1 = d\<lparr>grants := grant_change uid sel s (grants d)\<rparr>"
  define K where "K = (if revokes d uid sel s then sessions_on d uid s else [])"
  let ?H = "if revokes d uid sel s then [s_hostname s] else []"
  have mem: "s \<in> set (servers d)" using Cons.prems(4) by simp
  note step = assign_step [OF assms Cons.prems(1-3) mem d1_def K_def]
  have fresh: "s_id t \<noteq> s_id s" if "t \<in> set ss" for t using Cons.prems(5) that by (metis distinct.simps(2) image_eqI list.simps(9) set_map)
  have rev1: "revokes d1 uid sel t = revokes d uid sel t" if "t \<in> set ss" for t
    using fresh [OF that] by (simp add: revokes_def d1_def set_grant_change)
  have kill1: "killed d1 uid sel ss = killed d uid sel ss"
    by (rule killed_cong) (simp_all add: rev1, simp add: d1_def)
  have names: "filter (revokes d1 uid sel) ss = filter (revokes d uid sel) ss"
    using rev1 by (metis (mono_tags, lifting) filter_cong)
  obtain G where ih: "assign_loop U (ul_string U uid) (map (access_option U sel) ss) (rv @ ?H) (d1, forget K cm, fold (kill_effect cm) K w) =
      (Inr ((rv @ ?H) @ map s_hostname (filter (revokes d1 uid sel) ss)), d1\<lparr>grants := G\<rparr>,
       forget (killed d1 uid sel ss) (forget K cm), fold (kill_effect (forget K cm)) (killed d1 uid sel ss) (fold (kill_effect cm) K w))"
    and G: "set G = assigned_grants uid sel ss (set (grants d1))"
    using Cons.IH [of d1 "rv @ ?H" "forget K cm" "fold (kill_effect cm) K w"] step(2) Cons.prems by (auto simp: d1_def)
  have "fold (kill_effect (forget K cm)) (killed d uid sel ss) v = fold (kill_effect cm) (killed d uid sel ss) v" for v
    by (rule fold_cong) (use killed_disjoint [OF Cons.prems(1,5), of uid sel] in \<open>auto simp: K_def intro!: kill_effect_forget\<close>)
  moreover have "killed d uid sel (s # ss) = K @ killed d uid sel ss" by (simp add: killed_def K_def)
  moreover have "set G = assigned_grants uid sel (s # ss) (set (grants d))"
    unfolding G assigned_grants_Cons [OF Cons.prems(5)] by (simp add: d1_def set_grant_change)
  ultimately show ?case unfolding step(1) ih kill1 names by (auto simp: d1_def)
qed

lemma access_rows_eq:
  assumes "schema_ok d" "u \<in> set (users d)"
  shows "access_rows (ul_string U) (u_id u) d =
    map (access_option U (may_access d (u_id u) (u_role u))) (sort_key s_hostname (servers d))"
proof -
  let ?p = "\<lambda>v. find (\<lambda>p. p_role p = u_role v) (policies d)"
  have lj: "left_join (\<lambda>p. p_role p = u_role v) (policies d) = [?p v]" for v
    by (rule left_join_unique) (use assms(1) in \<open>simp add: schema_ok_def\<close>)
  have gj: "left_join (\<lambda>g. snd g = s_id s \<and> fst g = u_id u) (grants d) =
    [if (u_id u, s_id s) \<in> set (grants d) then Some (u_id u, s_id s) else None]" for s :: server_row
    by (rule left_join_grants) (use assms(1) in \<open>simp add: schema_ok_def\<close>)
  have three: "sql_true (sql_or (Some a) (sql_and (Some b) x)) \<longleftrightarrow> coalesce (sql_or (Some a) (sql_and (Some b) x)) False" for a b x
    by (cases "sql_or (Some a) (sql_and (Some b) x)") (simp_all add: sql_true_def coalesce_def)
  have auth: "sql_true (sql_or (Some ((if (u_id u, s_id s) \<in> set (grants d) then Some (u_id u, s_id s) else None) \<noteq> None))
      (sql_and (Some (u_override u = False)) (env_any s (?p u)))) \<longleftrightarrow> may_access d (u_id u) (u_role u) s" for s
  proof -
    have "((if (u_id u, s_id s) \<in> set (grants d) then Some (u_id u, s_id s) else None) \<noteq> None) = ((u_id u, s_id s) \<in> set (grants d))"
      by simp
    then show ?thesis unfolding three using is_authorized_iff [OF assms, of s "u_role u"] by (simp only: simp_thms)
  qed
  have one: "concat (map (\<lambda>v. if u_id v = u_id u then [f v] else []) (users d)) = [f u]" for f :: "user_row \<Rightarrow> serverOption"
    using filter_unique [of u_id "users d" u] assms by (simp add: schema_ok_def concat_map_filter)
  have split: "((u_id u, s_id s) \<in> set (grants d) \<longrightarrow> sql_true (Some True) = may_access d (u_id u) (u_role u) s)
    \<and> ((u_id u, s_id s) \<notin> set (grants d) \<longrightarrow> sql_true (sql_or (Some False) (sql_and (Some (\<not> u_override u)) (env_any s (?p u))))
        = may_access d (u_id u) (u_role u) s)" for s
    using auth [of s] by (cases "(u_id u, s_id s) \<in> set (grants d)") simp_all
  show ?thesis
    unfolding access_rows_def lj gj using one split
    by (simp add: access_option_def concat_map_singleton del: not_None_eq)
qed

subsection \<open>Properties\<close>

lemma assigned_grants_own:
  assumes "\<And>t. t \<in> set ss \<Longrightarrow> s_id t = s_id s \<Longrightarrow> sel t = sel s" "s \<in> set ss"
  shows "(uid, s_id s) \<in> assigned_grants uid sel ss G \<longleftrightarrow> sel s"
proof (cases "sel s")
  case True
  then have "s_id s \<in> s_id ` {s \<in> set ss. sel s}" using assms(2) by blast
  with True show ?thesis by (simp add: assigned_grants_def)
next
  case False
  then have "s_id s \<in> s_id ` {s \<in> set ss. \<not> sel s}" using assms(2) by blast
  moreover have "s_id s \<notin> s_id ` {s \<in> set ss. sel s}" using assms(1) False by (metis (mono_tags, lifting) imageE mem_Collect_eq)
  ultimately show ?thesis using False by (simp add: assigned_grants_def image_iff)
qed
lemma assigned_grants_other: "v \<noteq> uid \<Longrightarrow> (v, k) \<in> assigned_grants uid sel ss G \<longleftrightarrow> (v, k) \<in> G"
  by (auto simp: assigned_grants_def)

lemma override_users:
  "(\<exists>x \<in> set (map (\<lambda>v. if u_id v = uid then v\<lparr>u_override := True\<rparr> else v) us). u_id x = v \<and> \<not> u_override x)
   \<longleftrightarrow> v \<noteq> uid \<and> (\<exists>x \<in> set us. u_id x = v \<and> \<not> u_override x)"
  by (induction us) auto

text \<open>The database once the override of a user is set.\<close>

definition overridden :: "uuid \<Rightarrow> db \<Rightarrow> db" where
  "overridden uid d = d\<lparr>users := map (\<lambda>v. if u_id v = uid then v\<lparr>u_override := True\<rparr> else v) (users d)\<rparr>"

lemma overridden_fields [simp]:
  "outages (overridden uid d) = outages d" "servers (overridden uid d) = servers d" "grants (overridden uid d) = grants d"
  "policies (overridden uid d) = policies d" "sessions (overridden uid d) = sessions d"
  "u_id ` set (users (overridden uid d)) = u_id ` set (users d)"
proof -
  have "map u_id (users (overridden uid d)) = map u_id (users d)" by (simp add: overridden_def comp_def if_distrib cong: if_cong)
  then show "u_id ` set (users (overridden uid d)) = u_id ` set (users d)" by (metis set_map)
qed (simp_all add: overridden_def)

lemma overridden_loop:
  assumes "uuid_law U" "schema_ok d" "outages d = []" "u \<in> set (users d)" "set ss = set (servers d)" "distinct (map s_id ss)"
  obtains G where "set G = assigned_grants (u_id u) sel ss (set (grants d))"
    "assign_loop U (ul_string U (u_id u)) (map (access_option U sel) ss) [] (overridden (u_id u) d, cm, w) =
      (Inr (map s_hostname (filter (revokes d (u_id u) sel) ss)), (overridden (u_id u) d)\<lparr>grants := G\<rparr>,
       forget (killed d (u_id u) sel ss) cm, fold (kill_effect cm) (killed d (u_id u) sel ss) w)"
proof -
  let ?e = "overridden (u_id u) d"
  have ok: "schema_ok ?e" using schema_ok_override [OF assms(2)] by (simp add: overridden_def)
  have "sessions_on ?e = sessions_on d" by (rule sessions_on_cong) simp
  moreover have "revokes ?e = revokes d" by (simp add: fun_eq_iff revokes_def)
  ultimately have same: "revokes ?e = revokes d" "killed ?e = killed d" by (simp, intro ext, simp add: killed_def)
  have uid: "u_id u \<in> u_id ` set (users ?e)" using assms(4) by simp
  have up: "outages ?e = []" "set ss \<subseteq> set (servers ?e)" using assms(3,5) by simp_all
  show thesis
    using assign_loop_exact [OF assms(1) ok up(1) uid up(2) assms(6), of sel "[]" cm w] unfolding same overridden_fields append_Nil
    by (elim exE conjE) (rule that)
qed

lemma overridden_access:
  assumes "schema_ok d" "set ss = set (servers d)" "set G = assigned_grants uid sel ss (set (grants d))"
  shows "s \<in> set (servers d) \<Longrightarrow> may_access ((overridden uid d)\<lparr>grants := G\<rparr>) uid role s = sel s"
    and "v \<noteq> uid \<Longrightarrow> may_access ((overridden uid d)\<lparr>grants := G\<rparr>) v role s = may_access d v role s"
proof -
  assume s: "s \<in> set (servers d)"
  have eq: "sel t = sel s" if "t \<in> set (servers d)" "s_id t = s_id s" for t
    using distinct_key_unique [of s_id "servers d" t s] assms(1) that s by (simp add: schema_ok_def)
  have "(uid, s_id s) \<in> set G \<longleftrightarrow> sel s"
    unfolding assms(3) by (rule assigned_grants_own) (unfold assms(2), erule (1) eq, rule s)
  moreover have "\<not> (\<exists>x \<in> set (users (overridden uid d)). u_id x = uid \<and> \<not> u_override x)"
    unfolding overridden_def by (simp add: override_users del: set_map)
  ultimately show "may_access ((overridden uid d)\<lparr>grants := G\<rparr>) uid role s = sel s" unfolding may_access_def by auto
next
  assume v: "v \<noteq> uid"
  have "(v, s_id s) \<in> set G \<longleftrightarrow> (v, s_id s) \<in> set (grants d)" unfolding assms(3) using v by (rule assigned_grants_other)
  moreover have "(\<exists>x \<in> set (users (overridden uid d)). u_id x = v \<and> \<not> u_override x) \<longleftrightarrow> (\<exists>x \<in> set (users d). u_id x = v \<and> \<not> u_override x)"
    unfolding overridden_def using v by (simp add: override_users del: set_map)
  ultimately show "may_access ((overridden uid d)\<lparr>grants := G\<rparr>) v role s = may_access d v role s" unfolding may_access_def by simp
qed


text \<open>A concrete instance of the UUID functions: the text of an identifier is its unary numeral.\<close>

definition demo_uuids :: uuid_lib where
  "demo_uuids = \<lparr>ul_string = (\<lambda>x. replicate (unat x) (CHR ''1'')), ul_in = (\<lambda>s. Some (word_of_nat (length s))),
     ul_parse = (\<lambda>s. Some (word_of_nat (length s)))\<rparr>"

lemma demo_uuids_law: "uuid_law demo_uuids"
  by (simp add: uuid_law_def demo_uuids_def)




text \<open>A created user can log in: when the console has created an account, the password typed there is
  accepted for it at once with the chosen role, the stored hash is all that depends on the password,
  no other account changed and the schema still holds.\<close>

lemma created_user_can_login:
  assumes "schema_ok d" "outages d = []" "\<forall>p c h. gen p c = Inr h \<longrightarrow> bcmp h p"
    and "createUser us es gen newid name password role d = (Inr idtext, d')"
  shows "schema_ok d' \<and> idtext = us newid \<and> name \<notin> u_username ` set (users d)
    \<and> (\<exists>r. users d' = users d @ [r] \<and> u_username r = name \<and> gen password 12 = Inr (u_password_hash r))
    \<and> ao_result (Authenticate bcmp cfg clk d' name password) = Inr \<lparr>usr_ID = newid, usr_Username = name, usr_Role = role\<rparr>"
proof -
  obtain h where h: "gen password 12 = Inr h" and ins: "insert_user newid name h role d = (Inr newid, d')" "idtext = us newid"
    using assms(2,4) by (auto simp: createUser_def insert_user_def run_stmt_up split: sum.splits prod.splits if_splits)
  let ?r = "\<lparr>u_id = newid, u_username = name, u_password_hash = h, u_role = role,
         u_failed_attempts = 0, u_locked_until = None, u_override = False\<rparr>"
  have new: "name \<notin> u_username ` set (users d)" and d': "d' = d\<lparr>users := users d @ [?r]\<rparr>"
    using ins(1) assms(2) by (auto simp: insert_user_def run_stmt_up split: if_splits)
  have ok: "schema_ok d'" using schema_ok_createUser [OF assms(1), of us es gen newid name password role] assms(4) by simp
  have "bcmp h password" using assms(3) h by blast
  then have "ao_result (Authenticate bcmp cfg clk d' (u_username ?r) password) =
      Inr \<lparr>usr_ID = u_id ?r, usr_Username = u_username ?r, usr_Role = u_role ?r\<rparr>"
    using auth_right [OF ok, of ?r clk bcmp password cfg] assms(2) by (simp add: d' locked_at_def)
  then show ?thesis using ok ins(2) new h d' by auto
qed

text \<open>What revocation misses: a session that was opened through the role's policy survives when the server is
  unticked, because only a deleted grant triggers the kills.\<close>

lemma role_session_survives_revocation:
  assumes "(uid, s_id s) \<notin> set (grants d)" "schema_ok d"
  shows "set (sessions_on d uid s) \<inter> set (killed d uid sel ss) = {}"
proof -
  have "set (sessions_on d uid s) \<inter> set (sessions_on d uid t) = {}" if "t \<in> set ss" "revokes d uid sel t" for t
  proof -
    have "s_id s \<noteq> s_id t" using assms(1) that(2) by (auto simp: revokes_def)
    then show ?thesis by (rule sessions_on_disjoint [OF assms(2)])
  qed
  then show ?thesis by (auto simp: killed_def)
qed

end
