(* ===== verification/Zttp_Console.thy ===== *)
theory Zttp_Console
  imports Zttp_Accept Zttp_Replay Zttp_Admin
begin

text \<open>
  The admin console, \<^verbatim>\<open>handleAdminConsole\<close> of \<^verbatim>\<open>internal/proxy/admin_tui.go\<close>: a loop that draws
  the screen of its state, reads a key and handles it. One definition per state handles the keys;
  \<open>console_key\<close> dispatches on the state as the second \<^verbatim>\<open>switch\<close> of the loop does, and
  \<open>console_draw\<close> as the first one.

  What the console takes from libraries and from the outside is a record of parameters; what differs
  from round to round (the clock, fresh identifiers, generated keys, the salt of a password hash, the
  machine reached with a password, the pace of a replay) is indexed by the number of the round.
  The loop ends because every round consumes input. A handler may leave the console, panic (an index
  out of range) or never return (a replay that waits for a Ctrl+C that does not come).
\<close>

subsection \<open>State\<close>

record ('v, 'sg) console_env =
  ce_uuids :: uuid_lib
  ce_inet_in :: "string \<Rightarrow> inet option"
  ce_rfc3339 :: "instant \<Rightarrow> string"
  ce_minute_fmt :: "instant \<Rightarrow> string"
  ce_err :: "sql_error \<Rightarrow> string"
  ce_bcrypt :: "nat \<Rightarrow> bytes \<Rightarrow> nat \<Rightarrow> string + bytes"
  ce_kv_put :: "'v kv_putter"
  ce_parse_key :: "bytes \<Rightarrow> string + 'sg"
  ce_fingerprint :: "'sg \<Rightarrow> string"
  ce_keygen :: "nat \<Rightarrow> string + ssh_key"
  ce_install :: "nat \<Rightarrow> install_ssh"
  ce_now :: "nat \<Rightarrow> instant"
  ce_newid :: "nat \<Rightarrow> uuid"
  ce_sched :: "nat \<Rightarrow> nat option"

datatype adminState =
  StateMainMenu | StateAddUser | StateRoleSelect | StateSelectUserForAssign | StateAssignAccess
| StateViewUsers | StateViewServers | StateSummary | StateAddServer | StateAddServerMethod
| StateAddServerAuto | StateAddServerPaste | StateViewAuditServers | StateViewAuditSessions
| StateViewAuditChoice | StateViewAdminLog

record console =
  co_state :: adminState
  co_menuIndex :: nat
  co_uForm :: addUserForm
  co_sForm :: addServerForm
  co_autoForm :: addServerAutoForm
  co_pasteBuffer :: string
  co_createdUserMsg :: string
  co_createdUserID :: string
  co_isEditMode :: bool
  co_roles :: "string list"
  co_serverOpts :: "serverOption list"
  co_auditServers :: "ServerSummary list"
  co_auditSessions :: "SessionRecord list"
  co_selectedAuditServer :: ServerSummary
  co_selectedAuditSession :: SessionRecord

text \<open>The zero value of \<^verbatim>\<open>time.Time\<close> is the first of January of the year 1.\<close>

definition zero_time :: instant where
  "zero_time = - 62135596800 * second"

definition console_init :: console where
  "console_init =
     \<lparr>co_state = StateMainMenu, co_menuIndex = 0, co_uForm = empty_user_form, co_sForm = empty_server_form,
      co_autoForm = empty_auto_form, co_pasteBuffer = [], co_createdUserMsg = [], co_createdUserID = [],
      co_isEditMode = False, co_roles = [], co_serverOpts = [], co_auditServers = [], co_auditSessions = [],
      co_selectedAuditServer = \<lparr>ss_ID = 0, ss_Hostname = [], ss_Environment = []\<rparr>,
      co_selectedAuditSession = \<lparr>sr_SessionID = 0, sr_UserID = 0, sr_ServerID = 0, sr_ProxyNodeIP = nil_IP,
        sr_StartTime = zero_time, sr_Status = [], sr_Username = [], sr_Hostname = []\<rparr>\<rparr>"

datatype console_next = Stay console | Leave | Panic | Hang

subsection \<open>Drawing\<close>

definition console_draw ::
  "('v, 'sg) console_env \<Rightarrow> nat \<Rightarrow> string \<Rightarrow> console \<Rightarrow> ('l, 'v) server \<Rightarrow> conn \<Rightarrow> ('l, 'v) server \<times> conn" where
  "console_draw E n adminUsername co sv c0 =
     (let c = clearScreen c0; idx = co_menuIndex co in
      case co_state co of
        StateMainMenu \<Rightarrow> (sv, drawMainMenu adminUsername idx c)
      | StateAddUser \<Rightarrow> (sv, drawAddUserForm (co_uForm co) c)
      | StateAddServer \<Rightarrow> (sv, drawAddServerForm (co_sForm co) c)
      | StateAddServerMethod \<Rightarrow> (sv, drawAddServerMethod idx c)
      | StateAddServerAuto \<Rightarrow> (sv, drawAddServerAuto (co_autoForm co) c)
      | StateAddServerPaste \<Rightarrow> (sv, drawAddServerPaste (co_pasteBuffer co) c)
      | StateRoleSelect \<Rightarrow> (sv, drawRoleSelect (co_roles co) idx c)
      | StateSelectUserForAssign \<Rightarrow>
          (let (c', d) = drawSelectUserForAssign (ul_string (ce_uuids E)) idx c (sv_db sv) in (sv\<lparr>sv_db := d\<rparr>, c'))
      | StateAssignAccess \<Rightarrow> (sv, drawAssignAccess (uf_username (co_uForm co)) (co_serverOpts co) idx (co_isEditMode co) c)
      | StateSummary \<Rightarrow> (sv, drawSummary (uf_username (co_uForm co)) (uf_password (co_uForm co)) (uf_role (co_uForm co))
            (co_createdUserMsg co) (co_serverOpts co) c)
      | StateViewUsers \<Rightarrow> (let (c', d) = drawViewUsers (ce_err E) (ce_now E n) c (sv_db sv) in (sv\<lparr>sv_db := d\<rparr>, c'))
      | StateViewServers \<Rightarrow> (let (c', d) = drawViewServers (ce_err E) c (sv_db sv) in (sv\<lparr>sv_db := d\<rparr>, c'))
      | StateViewAuditServers \<Rightarrow> (sv, drawAuditServers (co_auditServers co) idx c)
      | StateViewAuditSessions \<Rightarrow>
          (sv, drawAuditSessions (ce_minute_fmt E) (ss_Hostname (co_selectedAuditServer co)) (co_auditSessions co) idx c)
      | StateViewAuditChoice \<Rightarrow>
          (sv, drawAuditChoice (ce_minute_fmt E) (sr_Username (co_selectedAuditSession co)) (ss_Hostname (co_selectedAuditServer co))
            (sr_StartTime (co_selectedAuditSession co)) idx c)
      | StateViewAdminLog \<Rightarrow> (sv, drawAuditServers (co_auditServers co) idx c))"

subsection \<open>Keys\<close>

definition menu_up :: "console \<Rightarrow> console" where
  "menu_up co = (if 0 < co_menuIndex co then co\<lparr>co_menuIndex := co_menuIndex co - 1\<rparr> else co)"

definition menu_down :: "nat \<Rightarrow> console \<Rightarrow> console" where
  "menu_down maxIdx co = (if co_menuIndex co < maxIdx then co\<lparr>co_menuIndex := co_menuIndex co + 1\<rparr> else co)"

definition goto :: "adminState \<Rightarrow> console \<Rightarrow> console" where
  "goto st co = co\<lparr>co_state := st, co_menuIndex := 0\<rparr>"

definition printable :: "char \<Rightarrow> bool" where
  "printable ch \<longleftrightarrow> (let b = (of_char ch :: nat) in 33 \<le> b \<and> b \<le> 126)"

definition quoted :: "string \<Rightarrow> string" where
  "quoted s = [CHR 0x27] @ s @ [CHR 0x27]"

definition admin_log ::
  "('v, 'sg) console_env \<Rightarrow> nat \<Rightarrow> AdminLogger option \<Rightarrow> string \<Rightarrow> string \<Rightarrow> ('l, 'v) server \<Rightarrow> ('l, 'v) server" where
  "admin_log E n al event detail sv = (case al of
     None \<Rightarrow> sv
   | Some l \<Rightarrow> sv\<lparr>sv_fs := Log (ce_rfc3339 E) (ce_now E n) event detail l (sv_fs sv)\<rparr>)"

definition key_main ::
  "key \<Rightarrow> console \<Rightarrow> ('l, 'v) server \<Rightarrow> conn \<Rightarrow> console_next \<times> ('l, 'v) server \<times> conn" where
  "key_main key co sv c =
     (if key = KeyUp then (Stay (menu_up co), sv, c)
      else if key = KeyDown then (Stay (menu_down 6 co), sv, c)
      else if key = KeyEnter then
        (let i = co_menuIndex co in
         if i = 0 then (Stay (goto StateAddUser (co\<lparr>co_uForm := empty_user_form, co_isEditMode := False\<rparr>)), sv, c)
         else if i = 1 then (Stay (goto StateAddServer (co\<lparr>co_sForm := empty_server_form\<rparr>)), sv, c)
         else if i = 2 then (Stay (goto StateSelectUserForAssign co), sv, c)
         else if i = 3 then (Stay (goto StateViewUsers co), sv, c)
         else if i = 4 then (Stay (goto StateViewServers co), sv, c)
         else if i = 5 then
           (let (r, d) = ListServersWithSessions (sv_db sv); srvs = (case r of Inr xs \<Rightarrow> xs | Inl _ \<Rightarrow> [])
            in (Stay (goto StateViewAuditServers (co\<lparr>co_auditServers := srvs\<rparr>)), sv\<lparr>sv_db := d\<rparr>, c))
         else if i = 6 then (Leave, sv, clearScreen c)
         else (Stay (co\<lparr>co_menuIndex := 0\<rparr>), sv, c))
      else (Stay co, sv, c))"

definition key_add_server :: "key \<Rightarrow> console \<Rightarrow> console" where
  "key_add_server key co =
     (let f = co_sForm co; focus = sf_focus f in
      case key of
        KeyUp \<Rightarrow> (if 0 < focus then co\<lparr>co_sForm := f\<lparr>sf_focus := focus - 1\<rparr>\<rparr> else co)
      | KeyDown \<Rightarrow> (if focus < 5 then co\<lparr>co_sForm := f\<lparr>sf_focus := focus + 1\<rparr>\<rparr> else co)
      | KeyEnter \<Rightarrow>
          (if focus = 4 then
             (if sf_hostname f = [] \<or> sf_ip f = [] \<or> sf_environment f = [] \<or> sf_sshUser f = [] then co
              else goto StateAddServerMethod co)
           else if focus = 5 then goto StateMainMenu co
           else co\<lparr>co_sForm := f\<lparr>sf_focus := focus + 1\<rparr>\<rparr>)
      | KeyBackspace \<Rightarrow> co\<lparr>co_sForm :=
          (if focus = 0 \<and> 0 < length (sf_hostname f) then f\<lparr>sf_hostname := butlast (sf_hostname f)\<rparr>
           else if focus = 1 \<and> 0 < length (sf_ip f) then f\<lparr>sf_ip := butlast (sf_ip f)\<rparr>
           else if focus = 2 \<and> 0 < length (sf_environment f) then f\<lparr>sf_environment := butlast (sf_environment f)\<rparr>
           else if focus = 3 \<and> 0 < length (sf_sshUser f) then f\<lparr>sf_sshUser := butlast (sf_sshUser f)\<rparr>
           else f)\<rparr>
      | KeyByte ch \<Rightarrow>
          (if printable ch then co\<lparr>co_sForm :=
             (if focus = 0 then f\<lparr>sf_hostname := sf_hostname f @ [ch]\<rparr>
              else if focus = 1 then f\<lparr>sf_ip := sf_ip f @ [ch]\<rparr>
              else if focus = 2 then f\<lparr>sf_environment := sf_environment f @ [ch]\<rparr>
              else if focus = 3 then f\<lparr>sf_sshUser := sf_sshUser f @ [ch]\<rparr>
              else f)\<rparr>
           else co)
      | _ \<Rightarrow> co)"

text \<open>The end of every way to add a server.\<close>

definition to_summary :: "string \<Rightarrow> console \<Rightarrow> console" where
  "to_summary msg co = goto StateSummary (co\<lparr>co_createdUserMsg := msg, co_uForm := empty_user_form, co_serverOpts := []\<rparr>)"

definition console_generate ::
  "('v, 'sg) console_env \<Rightarrow> nat \<Rightarrow> addServerForm \<Rightarrow> ('l, 'v) server \<Rightarrow> (string + string \<times> string) \<times> ('l, 'v) server" where
  "console_generate E n f sv =
     (let (r, vc, v, d) = generateAndSaveServer (ce_keygen E n) (ce_kv_put E) (ce_inet_in E) (ce_err E) (ce_newid E n)
            (sf_hostname f) (sf_ip f) (sf_environment f) (sf_sshUser f) (sv_vault_client sv, sv_vault sv, sv_db sv)
      in (r, sv\<lparr>sv_vault_client := vc, sv_vault := v, sv_db := d\<rparr>))"

definition key_server_method ::
  "('v, 'sg) console_env \<Rightarrow> nat \<Rightarrow> key \<Rightarrow> console \<Rightarrow> ('l, 'v) server \<Rightarrow> console \<times> ('l, 'v) server" where
  "key_server_method E n key co sv =
     (if key = KeyUp then (menu_up co, sv)
      else if key = KeyDown then (menu_down 3 co, sv)
      else if key = KeyEnter then
        (let i = co_menuIndex co in
         if i = 0 then (co\<lparr>co_state := StateAddServerAuto, co_autoForm := empty_auto_form\<rparr>, sv)
         else if i = 1 then (co\<lparr>co_state := StateAddServerPaste, co_pasteBuffer := []\<rparr>, sv)
         else if i = 2 then
           (let (r, sv1) = console_generate E n (co_sForm co) sv in
            (to_summary (case r of
               Inl e \<Rightarrow> ''Error creating server: '' @ e
             | Inr (pubKey, _) \<Rightarrow> ''Server '' @ quoted (sf_hostname (co_sForm co)) @ '' created!'' @ crlf @ crlf
                 @ ''Please manually install this Public Key on the server:'' @ crlf @ pubKey) co, sv1))
         else if i = 3 then (goto StateMainMenu co, sv)
         else (co, sv))
      else (co, sv))"

definition key_server_auto ::
  "('v, 'sg) console_env \<Rightarrow> nat \<Rightarrow> key \<Rightarrow> console \<Rightarrow> ('l, 'v) server \<Rightarrow> console \<times> ('l, 'v) server" where
  "key_server_auto E n key co sv =
     (let f = co_autoForm co; focus = af_focus f in
      case key of
        KeyUp \<Rightarrow> (if 0 < focus then co\<lparr>co_autoForm := f\<lparr>af_focus := focus - 1\<rparr>\<rparr> else co, sv)
      | KeyDown \<Rightarrow> (if focus < 3 then co\<lparr>co_autoForm := f\<lparr>af_focus := focus + 1\<rparr>\<rparr> else co, sv)
      | KeyEnter \<Rightarrow>
          (if focus = 2 then
             (if af_username f = [] \<or> af_password f = [] then (co, sv)
              else
                (let (r, sv1) = console_generate E n (co_sForm co) sv in
                 (to_summary (case r of
                    Inl e \<Rightarrow> ''Error creating server: '' @ e
                  | Inr (pubKey, _) \<Rightarrow>
                      (case autoProvisionKey (ce_install E n) (sf_ip (co_sForm co)) (af_username f) (af_password f) pubKey of
                         Some e \<Rightarrow> ''Server saved, but auto-provisioning failed: '' @ e @ crlf @ crlf
                           @ ''Please manually install this Public Key:'' @ crlf @ pubKey
                       | None \<Rightarrow> ''Server '' @ quoted (sf_hostname (co_sForm co)) @ '' successfully Auto-Provisioned!'')) co, sv1)))
           else if focus = 3 then (goto StateMainMenu co, sv)
           else (co\<lparr>co_autoForm := f\<lparr>af_focus := focus + 1\<rparr>\<rparr>, sv))
      | KeyBackspace \<Rightarrow> (co\<lparr>co_autoForm :=
          (if focus = 0 \<and> 0 < length (af_username f) then f\<lparr>af_username := butlast (af_username f)\<rparr>
           else if focus = 1 \<and> 0 < length (af_password f) then f\<lparr>af_password := butlast (af_password f)\<rparr>
           else f)\<rparr>, sv)
      | KeyByte ch \<Rightarrow>
          (if printable ch then co\<lparr>co_autoForm :=
             (if focus = 0 then f\<lparr>af_username := af_username f @ [ch]\<rparr>
              else if focus = 1 then f\<lparr>af_password := af_password f @ [ch]\<rparr>
              else f)\<rparr>
           else co, sv)
      | _ \<Rightarrow> (co, sv))"

definition paste_char :: "char \<Rightarrow> bool" where
  "paste_char ch \<longleftrightarrow> (let b = (of_char ch :: nat) in 32 \<le> b \<and> b \<le> 126 \<or> b = 9)"

definition key_server_paste ::
  "('v, 'sg) console_env \<Rightarrow> nat \<Rightarrow> key \<Rightarrow> console \<Rightarrow> ('l, 'v) server \<Rightarrow> console \<times> ('l, 'v) server" where
  "key_server_paste E n key co sv =
     (let buf = co_pasteBuffer co; f = co_sForm co in
      case key of
        KeyCtrlS \<Rightarrow>
          (if length buf < 50 then (co, sv)
           else
             (let (r, vc, v, d) = saveCustomServer (ce_parse_key E) (ce_fingerprint E) (ce_kv_put E) (ce_inet_in E) (ce_err E) (ce_newid E n)
                    (sf_hostname f) (sf_ip f) (sf_environment f) (sf_sshUser f) buf (sv_vault_client sv, sv_vault sv, sv_db sv)
              in (to_summary (case r of
                    Inl e \<Rightarrow> ''Error creating server with custom key: '' @ e
                  | Inr _ \<Rightarrow> ''Server '' @ quoted (sf_hostname f) @ '' created securely using provided Private Key!'') co,
                  sv\<lparr>sv_vault_client := vc, sv_vault := v, sv_db := d\<rparr>)))
      | KeyEnter \<Rightarrow> (co\<lparr>co_pasteBuffer := buf @ crlf\<rparr>, sv)
      | KeyBackspace \<Rightarrow> (if 0 < length buf then co\<lparr>co_pasteBuffer := butlast buf\<rparr> else co, sv)
      | KeyByte ch \<Rightarrow> (if paste_char ch then co\<lparr>co_pasteBuffer := buf @ [ch]\<rparr> else co, sv)
      | _ \<Rightarrow> (co, sv))"

definition key_add_user :: "key \<Rightarrow> console \<Rightarrow> ('l, 'v) server \<Rightarrow> console \<times> ('l, 'v) server" where
  "key_add_user key co sv =
     (let f = co_uForm co; focus = uf_focus f in
      case key of
        KeyUp \<Rightarrow> (if 0 < focus then co\<lparr>co_uForm := f\<lparr>uf_focus := focus - 1\<rparr>\<rparr> else co, sv)
      | KeyDown \<Rightarrow> (if focus < 4 then co\<lparr>co_uForm := f\<lparr>uf_focus := focus + 1\<rparr>\<rparr> else co, sv)
      | KeyEnter \<Rightarrow>
          (if focus = 3 then
             (if uf_username f = [] \<or> uf_password f = [] \<or> uf_password f \<noteq> uf_confirm f then (co, sv)
              else (let (roles, d) = queryRoles (sv_db sv)
                    in (goto StateRoleSelect (co\<lparr>co_roles := roles\<rparr>), sv\<lparr>sv_db := d\<rparr>)))
           else if focus = 4 then (goto StateMainMenu co, sv)
           else (co\<lparr>co_uForm := f\<lparr>uf_focus := focus + 1\<rparr>\<rparr>, sv))
      | KeyBackspace \<Rightarrow> (co\<lparr>co_uForm :=
          (if focus = 0 \<and> 0 < length (uf_username f) then f\<lparr>uf_username := butlast (uf_username f)\<rparr>
           else if focus = 1 \<and> 0 < length (uf_password f) then f\<lparr>uf_password := butlast (uf_password f)\<rparr>
           else if focus = 2 \<and> 0 < length (uf_confirm f) then f\<lparr>uf_confirm := butlast (uf_confirm f)\<rparr>
           else f)\<rparr>, sv)
      | KeyByte ch \<Rightarrow>
          (if printable ch then co\<lparr>co_uForm :=
             (if focus = 0 then f\<lparr>uf_username := uf_username f @ [ch]\<rparr>
              else if focus = 1 then f\<lparr>uf_password := uf_password f @ [ch]\<rparr>
              else if focus = 2 then f\<lparr>uf_confirm := uf_confirm f @ [ch]\<rparr>
              else f)\<rparr>
           else co, sv)
      | _ \<Rightarrow> (co, sv))"

definition key_role_select ::
  "('v, 'sg) console_env \<Rightarrow> nat \<Rightarrow> AdminLogger option \<Rightarrow> key \<Rightarrow> console \<Rightarrow> ('l, 'v) server \<Rightarrow> console_next \<times> ('l, 'v) server" where
  "key_role_select E n al key co sv =
     (if key = KeyUp then (Stay (menu_up co), sv)
      else if key = KeyDown then (Stay (menu_down (length (co_roles co) - 1) co), sv)
      else if key = KeyEnter then
        (if length (co_roles co) \<le> co_menuIndex co then (Panic, sv)
         else
           (let role = co_roles co ! co_menuIndex co; f = (co_uForm co)\<lparr>uf_role := role\<rparr>;
                co1 = co\<lparr>co_uForm := f\<rparr>
            in case createUser (ul_string (ce_uuids E)) (ce_err E) (ce_bcrypt E n) (ce_newid E n)
                      (uf_username f) (uf_password f) role (sv_db sv) of
                 (Inl e, d) \<Rightarrow> (Stay (goto StateSummary (co1\<lparr>co_createdUserMsg := ''Error creating user: '' @ e\<rparr>)), sv\<lparr>sv_db := d\<rparr>)
               | (Inr uid, d) \<Rightarrow>
                   (let sv1 = admin_log E n al ''[USER_ADD]''
                          (''admin created user '' @ quoted (uf_username f) @ '' (role: '' @ role @ '')'') (sv\<lparr>sv_db := d\<rparr>);
                        (opts, d2) = queryServers (ul_string (ce_uuids E)) (sv_db sv1)
                    in (Stay (goto StateAssignAccess (co1\<lparr>co_createdUserMsg := ''User '' @ quoted (uf_username f) @ '' created successfully!'',
                          co_createdUserID := uid, co_serverOpts := opts\<rparr>)), sv1\<lparr>sv_db := d2\<rparr>))))
      else (Stay co, sv))"

definition revoked_message :: "string list \<Rightarrow> string" where
  "revoked_message names = ''Access successfully updated!'' @
     (if 0 < length names then crlf @ crlf @ ''Revoked access to: '' @ Join names '', '' @ crlf
        @ ''Active sessions for these servers were instantly killed.'' else [])"

definition key_assign ::
  "('v, 'sg) console_env \<Rightarrow> nat \<Rightarrow> AdminLogger option \<Rightarrow> key \<Rightarrow> console \<Rightarrow> ('l, 'v) server \<Rightarrow> console \<times> ('l, 'v) server" where
  "key_assign E n al key co sv =
     (let opts = co_serverOpts co; i = co_menuIndex co in
      if key = KeyUp then (menu_up co, sv)
      else if key = KeyDown then (menu_down (length opts + 1) co, sv)
      else if key = KeyEnter then
        (if i < length opts then
           (co\<lparr>co_serverOpts := opts[i := (opts ! i)\<lparr>so_selected := \<not> so_selected (opts ! i)\<rparr>]\<rparr>, sv)
         else if i = length opts then
           (let (r, d, cm, nets) = assignServers (ce_uuids E) (co_createdUserID co) opts (sv_db sv, sv_manager sv, sv_nets sv);
                sv1 = sv\<lparr>sv_db := d, sv_manager := cm, sv_nets := nets\<rparr>
            in case r of
                 Inl e \<Rightarrow> (goto StateSummary (co\<lparr>co_createdUserMsg := ''Error managing access: '' @ ce_err E e\<rparr>), sv1)
               | Inr names \<Rightarrow>
                   (goto StateSummary (co\<lparr>co_createdUserMsg := revoked_message names\<rparr>),
                    admin_log E n al ''[ACCESS_ASSIGN]'' (''admin updated server access for user '' @ quoted (uf_username (co_uForm co))) sv1))
         else (goto StateSummary (co\<lparr>co_serverOpts := map (\<lambda>so. so\<lparr>so_selected := False\<rparr>) opts\<rparr>), sv))
      else (co, sv))"

text \<open>The summary and the two listings.\<close>

definition key_back :: "key \<Rightarrow> console \<Rightarrow> console" where
  "key_back key co = (if key = KeyEnter then goto StateMainMenu co else co)"

definition key_select_user ::
  "('v, 'sg) console_env \<Rightarrow> key \<Rightarrow> console \<Rightarrow> ('l, 'v) server \<Rightarrow> console \<times> ('l, 'v) server" where
  "key_select_user E key co sv0 =
     (let (r, d) = select_users_roles (ul_string (ce_uuids E)) (sv_db sv0); sv = sv0\<lparr>sv_db := d\<rparr>;
          us = (case r of Inr xs \<Rightarrow> xs | Inl _ \<Rightarrow> []); maxIdx = length us; i = co_menuIndex co in
      if key = KeyUp then (menu_up co, sv)
      else if key = KeyDown then (menu_down maxIdx co, sv)
      else if key = KeyEnter then
        (if i = maxIdx then (goto StateMainMenu co, sv)
         else if i < length us then
           (let parts = Split (us ! i) bar;
                co1 = co\<lparr>co_createdUserID := parts ! 0,
                         co_uForm := (co_uForm co)\<lparr>uf_username := parts ! 1, uf_role := parts ! 2\<rparr>\<rparr>;
                (q, d2) = select_access_rows (ce_uuids E) (co_createdUserID co1) (sv_db sv);
                opts = (case q of Inr xs \<Rightarrow> xs | Inl _ \<Rightarrow> [])
            in (goto StateAssignAccess (co1\<lparr>co_serverOpts := opts, co_isEditMode := True\<rparr>), sv\<lparr>sv_db := d2\<rparr>))
         else (co, sv))
      else (co, sv))"

definition key_audit_servers ::
  "('v, 'sg) console_env \<Rightarrow> nat \<Rightarrow> AdminLogger option \<Rightarrow> key \<Rightarrow> console \<Rightarrow> ('l, 'v) server \<Rightarrow> conn \<Rightarrow>
   console_next \<times> ('l, 'v) server \<times> conn" where
  "key_audit_servers E n al key co sv c =
     (let srvs = co_auditServers co; maxIdx = length srvs + 1; i = co_menuIndex co in
      if key = KeyUp then (Stay (menu_up co), sv, c)
      else if key = KeyDown then (Stay (menu_down maxIdx co), sv, c)
      else if key = KeyEnter then
        (if i = maxIdx then (Stay (goto StateMainMenu co), sv, c)
         else if i = 0 then
           (let sv1 = admin_log E n al ''[LOG_VIEW_TXT]'' ''admin viewed admin-actions.log'' sv
            in (Stay co, sv1, streamAdminLog (sv_AuditLogDir sv1) (sv_fs sv1) c))
         else if length srvs \<le> i - 1 then (Panic, sv, c)
         else
           (let sel = srvs ! (i - 1); (r, d) = ListSessionsByServer (ss_ID sel) (sv_db sv);
                sess = (case r of Inr xs \<Rightarrow> xs | Inl _ \<Rightarrow> [])
            in (Stay (goto StateViewAuditSessions (co\<lparr>co_selectedAuditServer := sel, co_auditSessions := sess\<rparr>)), sv\<lparr>sv_db := d\<rparr>, c)))
      else (Stay co, sv, c))"

definition key_audit_sessions :: "key \<Rightarrow> console \<Rightarrow> console" where
  "key_audit_sessions key co =
     (let sess = co_auditSessions co; maxIdx = length sess; i = co_menuIndex co in
      if key = KeyUp then menu_up co
      else if key = KeyDown then menu_down maxIdx co
      else if key = KeyEnter then
        (if i = maxIdx then goto StateViewAuditServers co
         else if i < length sess then goto StateViewAuditChoice (co\<lparr>co_selectedAuditSession := sess ! i\<rparr>)
         else co)
      else co)"

definition view_detail :: "('v, 'sg) console_env \<Rightarrow> string \<Rightarrow> console \<Rightarrow> string" where
  "view_detail E what co = ''admin '' @ what @ '' of session '' @ ul_string (ce_uuids E) (sr_SessionID (co_selectedAuditSession co))
     @ '' ('' @ sr_Username (co_selectedAuditSession co) @ '' '' @ arrow_char @ '' '' @ ss_Hostname (co_selectedAuditServer co) @ '')''"

definition key_audit_choice ::
  "('v, 'sg) console_env \<Rightarrow> nat \<Rightarrow> AdminLogger option \<Rightarrow> key \<Rightarrow> console \<Rightarrow> ('l, 'v) server \<Rightarrow> conn \<Rightarrow>
   console_next \<times> ('l, 'v) server \<times> conn" where
  "key_audit_choice E n al key co sv c =
     (let ses = co_selectedAuditSession co; host = ss_Hostname (co_selectedAuditServer co); us = ul_string (ce_uuids E) in
      if key = KeyUp then (Stay (menu_up co), sv, c)
      else if key = KeyDown then (Stay (menu_down 2 co), sv, c)
      else if key = KeyEnter then
        (let i = co_menuIndex co in
         if i = 0 then
           (let sv1 = admin_log E n al ''[LOG_VIEW_TXT]'' (view_detail E ''viewed text log'' co) sv
            in (Stay (goto StateViewAuditSessions co), sv1,
                streamTextLog us (ce_minute_fmt E) (sv_AuditLogDir sv1) (sv_fs sv1) (sr_SessionID ses) (sr_Username ses) host (sr_StartTime ses) c))
         else if i = 1 then
           (let sv1 = admin_log E n al ''[LOG_VIEW_REC]'' (view_detail E ''played recording'' co) sv
            in case playTTYRec us (ce_minute_fmt E) (ce_sched E n) (sv_AuditLogDir sv1) (sv_fs sv1) (sr_SessionID ses) (sr_Username ses) host (sr_StartTime ses) c of
                 None \<Rightarrow> (Hang, sv1, c)
               | Some c1 \<Rightarrow> (Stay (goto StateViewAuditSessions co), sv1, c1))
         else if i = 2 then (Stay (goto StateViewAuditSessions co), sv, c)
         else (Stay co, sv, c))
      else (Stay co, sv, c))"

definition console_key ::
  "('v, 'sg) console_env \<Rightarrow> nat \<Rightarrow> AdminLogger option \<Rightarrow> key \<Rightarrow> console \<Rightarrow> ('l, 'v) server \<Rightarrow> conn \<Rightarrow>
   console_next \<times> ('l, 'v) server \<times> conn" where
  "console_key E n al key co sv c =
     (let stay = (\<lambda>(co', sv'). (Stay co', sv', c)) in
      case co_state co of
        StateMainMenu \<Rightarrow> key_main key co sv c
      | StateAddServer \<Rightarrow> stay (key_add_server key co, sv)
      | StateAddServerMethod \<Rightarrow> stay (key_server_method E n key co sv)
      | StateAddServerAuto \<Rightarrow> stay (key_server_auto E n key co sv)
      | StateAddServerPaste \<Rightarrow> stay (key_server_paste E n key co sv)
      | StateAddUser \<Rightarrow> stay (key_add_user key co sv)
      | StateRoleSelect \<Rightarrow> (let (nx, sv') = key_role_select E n al key co sv in (nx, sv', c))
      | StateAssignAccess \<Rightarrow> stay (key_assign E n al key co sv)
      | StateSummary \<Rightarrow> stay (key_back key co, sv)
      | StateViewUsers \<Rightarrow> stay (key_back key co, sv)
      | StateViewServers \<Rightarrow> stay (key_back key co, sv)
      | StateSelectUserForAssign \<Rightarrow> stay (key_select_user E key co sv)
      | StateViewAuditServers \<Rightarrow> key_audit_servers E n al key co sv c
      | StateViewAuditSessions \<Rightarrow> stay (key_audit_sessions key co, sv)
      | StateViewAuditChoice \<Rightarrow> key_audit_choice E n al key co sv c
      | StateViewAdminLog \<Rightarrow> (Stay co, sv, c))"

subsection \<open>The loop\<close>

lemma console_draw_in [simp]: "c_in (snd (console_draw E n a co sv c)) = c_in c"
  by (simp add: console_draw_def Let_def case_prod_unfold split: adminState.split)

lemma streamTextLog_in: "length (c_in (streamTextLog us mf dir fs sid u h t c)) \<le> length (c_in c)"
  using wait_input_length [of "c_in c"]
  by (simp add: streamTextLog_def Let_def waitForCtrlC_def SetReadDeadline_def split: option.split)

lemma streamAdminLog_in: "length (c_in (streamAdminLog dir fs c)) \<le> length (c_in c)"
  using wait_input_length [of "c_in c"]
  by (simp add: streamAdminLog_def Let_def waitForCtrlC_def SetReadDeadline_def split: option.split)

lemma playTTYRec_in:
  assumes "playTTYRec us mf sched dir fs sid u h t c = Some c'"
  shows "length (c_in c') \<le> length (c_in c)"
proof (cases "fs_read (path_Join dir (us sid @ ''.ttyrec'')) fs")
  case None
  then show ?thesis using assms wait_input_length [of "c_in c"]
    by (auto simp: playTTYRec_def Let_def waitForCtrlC_def SetReadDeadline_def)
next
  case (Some rec)
  then obtain rest where r: "after_ctrl_c (c_in c) = Some rest" "c_in c' = flush_input rest"
    using assms by (auto simp: playTTYRec_def Let_def flushConn_def SetReadDeadline_def split: option.splits)
  then show ?thesis using after_ctrl_c_length [OF r(1)] flush_input_length [of rest] by simp
qed

lemma console_key_in: "console_key E n al key co sv c = (nx, sv', c') \<Longrightarrow> length (c_in c') \<le> length (c_in c)"
  using streamTextLog_in streamAdminLog_in playTTYRec_in
  by (auto simp: console_key_def key_main_def key_audit_servers_def key_audit_choice_def Let_def case_prod_unfold
      split: adminState.splits if_splits option.splits)

datatype console_exit = ConsoleLeft | ConsoleKeyFailed | ConsolePanicked | ConsoleHung

text \<open>One round of the loop: how the console ends, or the state it goes on with.\<close>

definition console_turn ::
  "('v, 'sg) console_env \<Rightarrow> string \<Rightarrow> AdminLogger option \<Rightarrow> nat \<Rightarrow> console \<Rightarrow> ('l, 'v) server \<Rightarrow> conn \<Rightarrow>
   (console_exit + console) \<times> ('l, 'v) server \<times> conn" where
  "console_turn E adminUsername al n co sv c =
     (let (sv1, c1) = console_draw E n adminUsername co sv c in
      case readKey c1 of
        (None, c2) \<Rightarrow> (Inl ConsoleKeyFailed, sv1, c2)
      | (Some key, c2) \<Rightarrow>
          (if key = KeyCtrlC then (Inl ConsoleLeft, sv1, clearScreen c2)
           else
             (case console_key E n al key co sv1 c2 of
                (Stay co', sv2, c3) \<Rightarrow> (Inr co', sv2, c3)
              | (Leave, sv2, c3) \<Rightarrow> (Inl ConsoleLeft, sv2, c3)
              | (Panic, sv2, c3) \<Rightarrow> (Inl ConsolePanicked, sv2, c3)
              | (Hang, sv2, c3) \<Rightarrow> (Inl ConsoleHung, sv2, c3))))"

text \<open>A round that goes on has drawn the screen, read a key and handled it.\<close>

lemma console_turn_cases:
  assumes "console_turn E a al n co sv c = (r, sv', c')"
  obtains (ended) "\<exists>c1. sv' = fst (console_draw E n a co sv c1)" "r \<in> {Inl ConsoleKeyFailed, Inl ConsoleLeft}"
  | (keyed) key c1 c2 nx where "readKey c1 = (Some key, c2)" "c1 = snd (console_draw E n a co sv c)"
      "console_key E n al key co (fst (console_draw E n a co sv c)) c2 = (nx, sv', c')"
      "r = (case nx of Stay co' \<Rightarrow> Inr co' | Leave \<Rightarrow> Inl ConsoleLeft | Panic \<Rightarrow> Inl ConsolePanicked | Hang \<Rightarrow> Inl ConsoleHung)"
proof -
  obtain sv1 c1 where dr: "console_draw E n a co sv c = (sv1, c1)" by (rule prod.exhaust)
  obtain k c2 where rk: "readKey c1 = (k, c2)" by (rule prod.exhaust)
  show thesis
  proof (cases "\<exists>key. k = Some key \<and> key \<noteq> KeyCtrlC")
    case True
    then obtain key where k: "k = Some key" "key \<noteq> KeyCtrlC" by blast
    obtain nx sv2 c3 where ck: "console_key E n al key co sv1 c2 = (nx, sv2, c3)" by (rule prod_cases3)
    show thesis by (rule keyed [of c1 key c2 nx]) (use assms dr rk k ck in \<open>auto simp: console_turn_def split: console_next.splits\<close>)
  next
    case False
    show thesis by (rule ended) (use assms dr rk False in \<open>auto simp: console_turn_def split: option.splits if_splits intro!: exI [of _ c]\<close>)
  qed
qed

lemma console_turn_in: "console_turn E a al n co sv c = (Inr co', sv', c') \<Longrightarrow> length (c_in c') < length (c_in c)"
  by (erule console_turn_cases) (auto dest!: readKey_progress console_key_in)

function console_loop ::
  "('v, 'sg) console_env \<Rightarrow> string \<Rightarrow> AdminLogger option \<Rightarrow> nat \<Rightarrow> console \<Rightarrow> ('l, 'v) server \<Rightarrow> conn \<Rightarrow>
   console_exit \<times> ('l, 'v) server \<times> conn" where
  "console_loop E adminUsername al n co sv c =
     (case console_turn E adminUsername al n co sv c of
        (Inl x, sv1, c1) \<Rightarrow> (x, sv1, c1)
      | (Inr co', sv1, c1) \<Rightarrow> console_loop E adminUsername al (n + 1) co' sv1 c1)"
  by pat_completeness auto
termination
  by (relation "measure (\<lambda>(E, a, al, n, co, sv, c). length (c_in c))") (auto dest!: console_turn_in [OF sym])

declare console_loop.simps [simp del]

text \<open>The opening of the log with its first line, and the deferred call that logs the end of the console on
  every way out (also when a handler panics) unless it never returns.\<close>

definition console_open ::
  "('v, 'sg) console_env \<Rightarrow> string \<Rightarrow> ('l, 'v) server \<Rightarrow> AdminLogger option \<times> ('l, 'v) server" where
  "console_open E adminUsername sv =
     (let (al, fs) = NewAdminLogger (sv_AuditLogDir sv) adminUsername (sv_fs sv)
      in (al, admin_log E 0 al ''[LOGIN]'' (''admin '' @ quoted adminUsername @ '' opened admin console'') (sv\<lparr>sv_fs := fs\<rparr>)))"

definition console_close ::
  "('v, 'sg) console_env \<Rightarrow> string \<Rightarrow> AdminLogger option \<Rightarrow> console_exit \<Rightarrow> ('l, 'v) server \<Rightarrow> ('l, 'v) server" where
  "console_close E adminUsername al x sv =
     (if x = ConsoleHung then sv
      else admin_log E 0 al ''[LOGOUT]'' (''admin '' @ quoted adminUsername @ '' exited admin console'') sv)"

definition handleAdminConsole ::
  "('v, 'sg) console_env \<Rightarrow> string \<Rightarrow> ('l, 'v) server \<Rightarrow> conn \<Rightarrow> console_exit \<times> ('l, 'v) server \<times> conn" where
  "handleAdminConsole E adminUsername sv c =
     (let (al, sv1) = console_open E adminUsername sv;
          (x, sv2, c2) = console_loop E adminUsername al 1 console_init sv1 c
      in (x, console_close E adminUsername al x sv2, c2))"

subsection \<open>The invariant\<close>

text \<open>The cursor stays on the screen, the forms behind the later screens are filled in, and a new account's
  name and password consist of printable characters.\<close>

definition server_form_filled :: "console \<Rightarrow> bool" where
  "server_form_filled co \<longleftrightarrow> (let f = co_sForm co in sf_hostname f \<noteq> [] \<and> sf_ip f \<noteq> [] \<and> sf_environment f \<noteq> [] \<and> sf_sshUser f \<noteq> [])"

definition user_form_confirmed :: "console \<Rightarrow> bool" where
  "user_form_confirmed co \<longleftrightarrow> (let f = co_uForm co in uf_username f \<noteq> [] \<and> uf_password f \<noteq> [] \<and> uf_password f = uf_confirm f)"

definition user_form_typed :: "console \<Rightarrow> bool" where
  "user_form_typed co \<longleftrightarrow> list_all printable (uf_username (co_uForm co)) \<and> list_all printable (uf_password (co_uForm co))"

definition console_ok :: "console \<Rightarrow> bool" where
  "console_ok co = (let i = co_menuIndex co in case co_state co of
     StateMainMenu \<Rightarrow> i \<le> 6
   | StateAddUser \<Rightarrow> uf_focus (co_uForm co) \<le> 4 \<and> user_form_typed co
   | StateRoleSelect \<Rightarrow> i < length (co_roles co) \<and> user_form_confirmed co \<and> user_form_typed co
   | StateAssignAccess \<Rightarrow> i \<le> length (co_serverOpts co) + 1
   | StateAddServer \<Rightarrow> sf_focus (co_sForm co) \<le> 5
   | StateAddServerMethod \<Rightarrow> i \<le> 3 \<and> server_form_filled co
   | StateAddServerAuto \<Rightarrow> af_focus (co_autoForm co) \<le> 3 \<and> server_form_filled co
   | StateAddServerPaste \<Rightarrow> server_form_filled co
   | StateViewAuditServers \<Rightarrow> i \<le> length (co_auditServers co) + 1
   | StateViewAuditSessions \<Rightarrow> i \<le> length (co_auditSessions co)
   | StateViewAuditChoice \<Rightarrow> i \<le> 2
   | StateViewAdminLog \<Rightarrow> False
   | _ \<Rightarrow> True)"

lemmas cursor_defs = menu_up_def menu_down_def goto_def console_ok_def Let_def

lemma queryRoles_not_Nil: "fst (queryRoles d) \<noteq> []"
  by (simp add: queryRoles_def Let_def case_prod_unfold)

lemma goto_ok [simp]:
  "console_ok (goto StateMainMenu co)" "console_ok (goto StateSummary co)" "console_ok (goto StateAssignAccess co)"
  "console_ok (goto StateViewAuditServers co)" "console_ok (goto StateViewAuditSessions co)" "console_ok (goto StateViewAuditChoice co)"
  "console_ok (goto StateViewUsers co)" "console_ok (goto StateViewServers co)" "console_ok (goto StateSelectUserForAssign co)"
  by (simp_all add: goto_def console_ok_def)

lemma to_summary_ok [simp]: "console_ok (to_summary msg co)"
  by (simp add: to_summary_def)

lemma list_all_butlast: "list_all P xs \<Longrightarrow> list_all P (butlast xs)"
  by (auto simp: list_all_iff dest: in_set_butlastD)

lemma key_main_ok:
  assumes "console_ok co" "co_state co = StateMainMenu" "key_main key co sv c = (nx, sv', c')"
  shows "nx \<noteq> Panic \<and> (\<forall>co'. nx = Stay co' \<longrightarrow> console_ok co')"
  using assms
  by (auto simp: key_main_def cursor_defs user_form_typed_def empty_user_form_def empty_server_form_def case_prod_unfold split: if_splits)

lemma key_add_server_ok:
  "console_ok co \<Longrightarrow> co_state co = StateAddServer \<Longrightarrow> console_ok (key_add_server key co)"
  by (cases key) (auto simp: key_add_server_def cursor_defs server_form_filled_def)

lemma key_server_method_ok:
  "console_ok co \<Longrightarrow> co_state co = StateAddServerMethod \<Longrightarrow> console_ok (fst (key_server_method E n key co sv))"
  by (auto simp: key_server_method_def menu_up_def menu_down_def console_ok_def Let_def server_form_filled_def empty_auto_form_def case_prod_unfold
      to_summary_def goto_def)

lemma key_server_auto_ok:
  "console_ok co \<Longrightarrow> co_state co = StateAddServerAuto \<Longrightarrow> console_ok (fst (key_server_auto E n key co sv))"
  by (cases key) (auto simp: key_server_auto_def console_ok_def Let_def server_form_filled_def case_prod_unfold goto_def to_summary_def)

lemma key_server_paste_ok:
  "console_ok co \<Longrightarrow> co_state co = StateAddServerPaste \<Longrightarrow> console_ok (fst (key_server_paste E n key co sv))"
  by (cases key) (auto simp: key_server_paste_def console_ok_def Let_def server_form_filled_def case_prod_unfold goto_def to_summary_def)

lemma key_add_user_ok:
  "console_ok co \<Longrightarrow> co_state co = StateAddUser \<Longrightarrow> console_ok (fst (key_add_user key co sv))"
  using queryRoles_not_Nil [of "sv_db sv"]
  by (cases key) (auto simp: key_add_user_def cursor_defs user_form_confirmed_def user_form_typed_def list_all_butlast case_prod_unfold)

lemma key_role_select_ok:
  assumes "console_ok co" "co_state co = StateRoleSelect" "key_role_select E n al key co sv = (nx, sv')"
  shows "nx \<noteq> Panic \<and> (\<forall>co'. nx = Stay co' \<longrightarrow> console_ok co')"
  using assms
  by (auto simp: key_role_select_def menu_up_def menu_down_def console_ok_def user_form_confirmed_def user_form_typed_def Let_def case_prod_unfold goto_def
      split: if_splits sum.splits prod.splits)

lemma key_assign_ok:
  "console_ok co \<Longrightarrow> co_state co = StateAssignAccess \<Longrightarrow> console_ok (fst (key_assign E n al key co sv))"
  by (auto simp: key_assign_def menu_up_def menu_down_def console_ok_def Let_def case_prod_unfold goto_def split: sum.split)

lemma key_select_user_ok:
  "co_state co = StateSelectUserForAssign \<Longrightarrow> console_ok (fst (key_select_user E key co sv))"
  by (auto simp: key_select_user_def cursor_defs case_prod_unfold)

lemma key_audit_servers_ok:
  assumes "console_ok co" "co_state co = StateViewAuditServers" "key_audit_servers E n al key co sv c = (nx, sv', c')"
  shows "nx \<noteq> Panic \<and> (\<forall>co'. nx = Stay co' \<longrightarrow> console_ok co')"
  using assms by (auto simp: key_audit_servers_def cursor_defs case_prod_unfold split: if_splits)

lemma key_audit_sessions_ok:
  "console_ok co \<Longrightarrow> co_state co = StateViewAuditSessions \<Longrightarrow> console_ok (key_audit_sessions key co)"
  by (auto simp: key_audit_sessions_def cursor_defs)

lemma key_audit_choice_ok:
  assumes "console_ok co" "co_state co = StateViewAuditChoice" "key_audit_choice E n al key co sv c = (nx, sv', c')"
  shows "nx \<noteq> Panic \<and> (\<forall>co'. nx = Stay co' \<longrightarrow> console_ok co')"
  using assms by (auto simp: key_audit_choice_def cursor_defs split: if_splits option.splits)

lemma key_back_ok: "console_ok co \<Longrightarrow> console_ok (key_back key co)"
  by (simp add: key_back_def)

lemma console_key_ok:
  assumes "console_ok co" "console_key E n al key co sv c = (nx, sv', c')"
  shows "nx \<noteq> Panic \<and> (\<forall>co'. nx = Stay co' \<longrightarrow> console_ok co')"
proof (cases "co_state co")
  case StateMainMenu
  with assms(2) have "key_main key co sv c = (nx, sv', c')" by (auto simp: console_key_def case_prod_unfold prod_eq_iff Let_def)
  then show ?thesis by (rule key_main_ok [OF assms(1) StateMainMenu])
next
  case StateViewAuditServers
  with assms(2) have "key_audit_servers E n al key co sv c = (nx, sv', c')" by (auto simp: console_key_def case_prod_unfold prod_eq_iff Let_def)
  then show ?thesis by (rule key_audit_servers_ok [OF assms(1) StateViewAuditServers])
next
  case StateViewAuditChoice
  with assms(2) have "key_audit_choice E n al key co sv c = (nx, sv', c')" by (auto simp: console_key_def case_prod_unfold prod_eq_iff Let_def)
  then show ?thesis by (rule key_audit_choice_ok [OF assms(1) StateViewAuditChoice])
next
  case StateRoleSelect
  with assms(2) have "key_role_select E n al key co sv = (nx, sv')" by (auto simp: console_key_def case_prod_unfold prod_eq_iff Let_def)
  then show ?thesis by (rule key_role_select_ok [OF assms(1) StateRoleSelect])
next
  case StateAddServer
  then show ?thesis using key_add_server_ok [OF assms(1) StateAddServer] assms(2) by (auto simp: console_key_def case_prod_unfold)
next
  case StateAddServerMethod
  then show ?thesis using key_server_method_ok [OF assms(1) StateAddServerMethod] assms(2) by (auto simp: console_key_def case_prod_unfold)
next
  case StateAddServerAuto
  then show ?thesis using key_server_auto_ok [OF assms(1) StateAddServerAuto] assms(2) by (auto simp: console_key_def case_prod_unfold)
next
  case StateAddServerPaste
  then show ?thesis using key_server_paste_ok [OF assms(1) StateAddServerPaste] assms(2) by (auto simp: console_key_def case_prod_unfold)
next
  case StateAddUser
  then show ?thesis using key_add_user_ok [OF assms(1) StateAddUser] assms(2) by (auto simp: console_key_def case_prod_unfold)
next
  case StateAssignAccess
  then show ?thesis using key_assign_ok [OF assms(1) StateAssignAccess] assms(2) by (auto simp: console_key_def case_prod_unfold)
next
  case StateViewAuditSessions
  then show ?thesis using key_audit_sessions_ok [OF assms(1) StateViewAuditSessions] assms(2) by (auto simp: console_key_def case_prod_unfold)
next
  case StateSelectUserForAssign
  then show ?thesis using key_select_user_ok [OF StateSelectUserForAssign] assms(2) by (auto simp: console_key_def case_prod_unfold)
next
  case StateViewAdminLog
  then show ?thesis using assms(1) by (simp add: console_ok_def)
qed (use key_back_ok [OF assms(1)] assms(2) in \<open>auto simp: console_key_def\<close>)

subsection \<open>What a round keeps\<close>

text \<open>The part of the server that the console's operations write: the database, the kill switch and the
  connections it closes. Everything else stays, or is Vault, the log and the screen.\<close>

definition node :: "('l, 'v) server \<Rightarrow> db \<times> nets ConnectionManager \<times> nets" where
  "node sv = (sv_db sv, sv_manager sv, sv_nets sv)"

lemma node_simps [simp]:
  "node (sv\<lparr>sv_fs := fs\<rparr>) = node sv" "node (sv\<lparr>sv_vault_client := vc\<rparr>) = node sv" "node (sv\<lparr>sv_vault := v\<rparr>) = node sv"
  "node (sv\<lparr>sv_db := d\<rparr>) = (d, sv_manager sv, sv_nets sv)" "fst (node sv) = sv_db sv" "snd (node sv) = (sv_manager sv, sv_nets sv)"
  "node (admin_log E n al ev det sv) = node sv"
  by (simp_all add: node_def admin_log_def split: option.split)

lemma node_open_close [simp]:
  "node (snd (console_open E a sv)) = node sv" "node (console_close E a al x sv) = node sv"
  by (simp_all add: console_open_def console_close_def case_prod_unfold Let_def)

lemma admin_log_frame [simp]:
  "sv_db (admin_log E n al ev det sv) = sv_db sv" "sv_limiter (admin_log E n al ev det sv) = sv_limiter sv"
  "sv_guard (admin_log E n al ev det sv) = sv_guard sv" "sv_manager (admin_log E n al ev det sv) = sv_manager sv"
  "sv_nets (admin_log E n al ev det sv) = sv_nets sv"
  by (simp_all add: admin_log_def split: option.split)

lemma console_init_ok: "console_ok console_init"
  by (simp add: console_ok_def console_init_def)

lemma console_turn_ok:
  assumes "console_ok co" "console_turn E a al n co sv c = (r, sv', c')"
  shows "r \<noteq> Inl ConsolePanicked \<and> (\<forall>co'. r = Inr co' \<longrightarrow> console_ok co')"
  using assms(2)
proof (cases rule: console_turn_cases)
  case (keyed key c1 c2 nx)
  then show ?thesis using console_key_ok [OF assms(1) keyed(3)] by (cases nx) auto
qed auto

text \<open>A relation kept by the operations of the console is kept by the console. What may be assumed of a new
  user: its name was typed, and its hash made by bcrypt of a password that was typed.\<close>

locale console_writes = admin_writes R ok_user
  for R :: "db \<times> nets ConnectionManager \<times> nets \<Rightarrow> db \<times> nets ConnectionManager \<times> nets \<Rightarrow> bool" and ok_user +
  fixes E :: "('v, 'sg) console_env"
  assumes typed_user: "name \<noteq> [] \<Longrightarrow> password \<noteq> [] \<Longrightarrow> ce_bcrypt E n password 12 = Inr hash \<Longrightarrow>
    ok_user \<lparr>u_id = ce_newid E n, u_username = name, u_password_hash = hash, u_role = role,
      u_failed_attempts = 0, u_locked_until = None, u_override = False\<rparr>"
begin

lemma R_node [simp]: "R (node sv) (node sv)"
  by (rule R_refl)

lemma R_db: "R (sv_db sv, snd (node sv)) (d, snd (node sv)) \<Longrightarrow> R (node sv) (node (sv\<lparr>sv_db := d\<rparr>))"
  by (simp add: node_def)

lemma R_draw: "R (node sv) (node (fst (console_draw E n a co sv c)))"
proof -
  have "R (node sv) (snd (drawViewUsers es now c' (sv_db sv)), snd (node sv))" "R (node sv) (snd (drawViewServers es c' (sv_db sv)), snd (node sv))"
    "R (node sv) (snd (drawSelectUserForAssign us i c' (sv_db sv)), snd (node sv))" for es now c' us i
    unfolding node_def snd_conv drawViewUsers_def select_users_view_def drawViewServers_def select_servers_view_def
      drawSelectUserForAssign_def select_users_names_def Let_def case_prod_unfold by (rule R_query)+
  then show ?thesis by (simp add: console_draw_def Let_def case_prod_unfold split: adminState.split)
qed

lemma R_generate: "R (node sv) (node (snd (console_generate E n f sv)))"
  by (simp add: console_generate_def case_prod_unfold node_def Let_def)

lemma R_keys:
  "R (node sv) (node (snd (key_server_method E n key co sv)))" "R (node sv) (node (snd (key_server_auto E n key co sv)))"
  "R (node sv) (node (snd (key_server_paste E n key co sv)))" "R (node sv) (node (snd (key_add_user key co sv)))"
  "R (node sv) (node (snd (key_assign E n al key co sv)))"
  "R (node sv) (node (fst (snd (key_main key co sv c))))" "R (node sv) (node (fst (snd (key_audit_servers E n al key co sv c))))"
  "R (node sv) (node (fst (snd (key_audit_choice E n al key co sv c))))"
  subgoal by (simp add: key_server_method_def Let_def case_prod_unfold R_generate)
  subgoal by (cases key) (simp_all add: key_server_auto_def Let_def case_prod_unfold R_generate)
  subgoal by (cases key) (simp_all add: key_server_paste_def Let_def case_prod_unfold, simp_all add: node_def)
  subgoal by (cases key) (simp_all add: key_add_user_def Let_def case_prod_unfold, simp_all add: node_def)
  subgoal using R_assignServers [of "node sv" "ce_uuids E" "co_createdUserID co" "co_serverOpts co"]
    by (simp add: key_assign_def Let_def case_prod_unfold node_def R_refl split: sum.split)
  subgoal by (simp add: key_main_def Let_def case_prod_unfold) (simp add: node_def)
  subgoal by (simp add: key_audit_servers_def Let_def case_prod_unfold) (simp add: node_def)
  subgoal by (simp add: key_audit_choice_def Let_def case_prod_unfold split: option.split)
  done

lemma R_select_user: "R (node sv) (node (snd (key_select_user E key co sv)))"
proof -
  let ?d = "snd (select_users_roles (ul_string (ce_uuids E)) (sv_db sv))"
  have 1: "R (node sv) (?d, snd (node sv))" by (simp add: node_def)
  have "R (node sv) (snd (select_access_rows (ce_uuids E) t ?d), snd (node sv))" for t
    by (rule R_trans [OF 1 R_selects(4)])
  with 1 show ?thesis by (simp add: key_select_user_def Let_def case_prod_unfold)
qed

lemma R_role_select:
  assumes "console_ok co" "co_state co = StateRoleSelect"
  shows "R (node sv) (node (snd (key_role_select E n al key co sv)))"
proof -
  let ?f = "co_uForm co" and ?r = "co_roles co ! co_menuIndex co"
  let ?d = "snd (createUser (ul_string (ce_uuids E)) (ce_err E) (ce_bcrypt E n) (ce_newid E n) (uf_username ?f) (uf_password ?f) ?r (sv_db sv))"
  have "uf_username ?f \<noteq> []" "uf_password ?f \<noteq> []"
    using assms by (auto simp: console_ok_def user_form_confirmed_def Let_def)
  then have 1: "R (node sv) (?d, snd (node sv))" unfolding node_def snd_conv by (rule R_createUser [OF typed_user])
  have "R (node sv) (snd (queryServers us ?d), snd (node sv))" for us by (rule R_trans [OF 1 R_selects(5)])
  with 1 show ?thesis by (auto simp: key_role_select_def Let_def case_prod_unfold split: sum.split)
qed

lemma R_console_key:
  assumes "console_ok co" "console_key E n al key co sv c = (nx, sv', c')"
  shows "R (node sv) (node sv')"
proof -
  have "sv' = fst (snd (console_key E n al key co sv c))" using assms(2) by simp
  then show ?thesis
    using R_role_select [OF assms(1), of sv n al key] R_keys R_select_user
    by (cases "co_state co") (simp_all add: console_key_def Let_def case_prod_unfold)
qed

lemma R_console_turn:
  assumes "console_ok co" "console_turn E a al n co sv c = (r, sv', c')"
  shows "R (node sv) (node sv')"
  using assms(2)
proof (cases rule: console_turn_cases)
  case (keyed key c1 c2 nx)
  then show ?thesis using R_trans [OF R_draw R_console_key [OF assms(1) keyed(3)]] by blast
qed (auto intro: R_draw)

lemma R_console_loop:
  assumes "console_ok co"
  shows "fst (console_loop E a al n co sv c) \<noteq> ConsolePanicked \<and> R (node sv) (node (fst (snd (console_loop E a al n co sv c))))"
  using assms
proof (induction "length (c_in c)" arbitrary: n co sv c rule: less_induct)
  case less
  obtain r sv1 c1 where t: "console_turn E a al n co sv c = (r, sv1, c1)" by (rule prod_cases3)
  note turn = console_turn_ok [OF less.prems t] R_console_turn [OF less.prems t]
  show ?case
  proof (cases r)
    case (Inl x)
    then show ?thesis using turn by (simp add: console_loop.simps [of E a al n co sv c] t)
  next
    case (Inr co')
    have ih: "fst (console_loop E a al (n + 1) co' sv1 c1) \<noteq> ConsolePanicked
      \<and> R (node sv1) (node (fst (snd (console_loop E a al (n + 1) co' sv1 c1))))"
      by (rule less.hyps [OF console_turn_in [OF t [unfolded Inr]]]) (use turn(1) Inr in blast)
    then show ?thesis using R_trans [OF turn(2)] Inr by (simp add: console_loop.simps [of E a al n co sv c] t)
  qed
qed

lemma R_handleAdminConsole:
  "fst (handleAdminConsole E a sv c) \<noteq> ConsolePanicked \<and> R (node sv) (node (fst (snd (handleAdminConsole E a sv c))))"
  using R_console_loop [OF console_init_ok, of a "fst (console_open E a sv)" 1 "snd (console_open E a sv)" c]
  by (simp add: handleAdminConsole_def case_prod_unfold Let_def)

end

subsection \<open>What the console keeps\<close>

interpretation schema_console: console_writes keeps_schema "\<lambda>_. True" E for E :: "('v, 'sg) console_env"
  by unfold_locales simp

text \<open>The console never writes the table of sessions.\<close>

definition keeps_sessions :: "db \<times> 'w ConnectionManager \<times> 'w \<Rightarrow> db \<times> 'w ConnectionManager \<times> 'w \<Rightarrow> bool" where
  "keeps_sessions s t \<longleftrightarrow> sessions (fst t) = sessions (fst s)"

interpretation sessions_console: console_writes keeps_sessions "\<lambda>_. True" E for E :: "('v, 'sg) console_env"
  by unfold_locales (simp_all add: keeps_sessions_def)

text \<open>Whether the database is up does not depend on what is written.\<close>

definition keeps_up :: "db \<times> 'w ConnectionManager \<times> 'w \<Rightarrow> db \<times> 'w ConnectionManager \<times> 'w \<Rightarrow> bool" where
  "keeps_up s t \<longleftrightarrow> (outages (fst s) = [] \<longrightarrow> outages (fst t) = [])"

interpretation up_console: console_writes keeps_up "\<lambda>_. True" E for E :: "('v, 'sg) console_env"
  by unfold_locales (simp_all add: keeps_up_def)

text \<open>On the connections of other sessions the console has one effect: it leaves a session and its handle
  alone, or it cancels the session, closes its connection and forgets the handle.\<close>

definition handles_ok :: "nets ConnectionManager \<Rightarrow> bool" where
  "handles_ok cm \<longleftrightarrow> (\<forall>k h. cm_sessions cm k = Some h \<longrightarrow> h = session_handle k)"

definition spared_or_killed :: "nets ConnectionManager \<times> nets \<Rightarrow> nets ConnectionManager \<times> nets \<Rightarrow> uuid \<Rightarrow> bool" where
  "spared_or_killed = (\<lambda>(cm, w) (cm', w') k.
     cm_sessions cm' k = cm_sessions cm k \<and> w' k = w k
     \<or> cm_sessions cm k \<noteq> None \<and> cm_sessions cm' k = None \<and> n_ctx_done (w' k) \<and> \<not> n_ssh_open (w' k))"

definition only_kills :: "db \<times> nets ConnectionManager \<times> nets \<Rightarrow> db \<times> nets ConnectionManager \<times> nets \<Rightarrow> bool" where
  "only_kills s t \<longleftrightarrow> (handles_ok (fst (snd s)) \<longrightarrow> handles_ok (fst (snd t)) \<and> (\<forall>k. spared_or_killed (snd s) (snd t) k))"

lemma spared_or_killed_refl [simp]: "spared_or_killed cw cw k"
  by (cases cw) (simp add: spared_or_killed_def)

lemma spared_or_killed_trans: "spared_or_killed a b k \<Longrightarrow> spared_or_killed b c k \<Longrightarrow> spared_or_killed a c k"
  by (cases a; cases b; cases c) (auto simp: spared_or_killed_def)

lemma only_kills_trans: "only_kills x y \<Longrightarrow> only_kills y z \<Longrightarrow> only_kills x z"
  unfolding only_kills_def using spared_or_killed_trans by blast

lemma only_kills_Terminate: "only_kills (d, cw) (d, snd (cm_Terminate us 0 sid reason cw))"
proof -
  obtain cm w where cw: "cw = (cm, w)" by (rule prod.exhaust)
  show ?thesis
  proof (cases "cm_sessions cm sid")
    case None
    then show ?thesis by (simp add: cw only_kills_def cm_Terminate_def)
  next
    case (Some h)
    have "spared_or_killed (cm, w) (cm_Deregister sid cm, h_CloseConns h (h_Cancel h w)) k" if "h = session_handle sid" for k
      using Some that by (simp add: spared_or_killed_def cm_Deregister_def session_handle_def)
    moreover have "handles_ok cm \<longrightarrow> h = session_handle sid \<and> handles_ok (cm_Deregister sid cm)"
      using Some by (auto simp: handles_ok_def cm_Deregister_def)
    ultimately show ?thesis using Some by (simp add: cw only_kills_def cm_Terminate_def Let_def)
  qed
qed

interpretation kills_console: console_writes only_kills "\<lambda>_. True" E for E :: "('v, 'sg) console_env"
  by unfold_locales (fact only_kills_trans only_kills_Terminate | simp add: only_kills_def)+

subsection \<open>The console as a machine\<close>

type_synonym ('l, 'v) console_state = "nat \<times> console \<times> ('l, 'v) server \<times> conn"

definition console_round ::
  "('v, 'sg) console_env \<Rightarrow> string \<Rightarrow> AdminLogger option \<Rightarrow> unit \<Rightarrow> ('l, 'v) console_state \<Rightarrow> ('l, 'v) console_state option" where
  "console_round E adminUsername al u = (\<lambda>(n, co, sv, c).
     case console_turn E adminUsername al n co sv c of
       (Inl _, _, _) \<Rightarrow> None
     | (Inr co', sv', c') \<Rightarrow> Some (n + 1, co', sv', c'))"

definition console_inv :: "('l, 'v) console_state \<Rightarrow> bool" where
  "console_inv = (\<lambda>(n, co, sv, c). console_ok co \<and> schema_ok (sv_db sv))"

interpretation admin_console: guarded_machine "console_round E adminUsername al" console_inv
proof
  fix s s' u
  assume inv: "console_inv s" and step: "console_round E adminUsername al u s = Some s'"
  obtain n co sv c where s: "s = (n, co, sv, c)" by (rule prod_cases4)
  obtain co' sv' c' where t: "console_turn E adminUsername al n co sv c = (Inr co', sv', c')" and s': "s' = (n + 1, co', sv', c')"
    using step by (auto simp: s console_round_def split: prod.splits sum.splits)
  have "console_ok co" using inv by (simp add: console_inv_def s)
  then show "console_inv s'"
    using console_turn_ok [OF _ t] schema_console.R_console_turn [OF _ t] inv by (simp add: console_inv_def s s' keeps_schema_def)
qed

text \<open>C14. No input makes the admin console panic: whatever keys arrive and whatever the database, Vault,
  and the machines reached answer, no index into a menu, a role list or a session list is out of range.\<close>

theorem console_never_panics: "fst (handleAdminConsole E adminUsername sv c) \<noteq> ConsolePanicked"
  by (rule conjunct1 [OF schema_console.R_handleAdminConsole])


definition demo_console_env :: "(unit, unit) console_env" where
  "demo_console_env = \<lparr>ce_uuids = demo_uuids, ce_inet_in = demo_inet, ce_rfc3339 = (\<lambda>_. []), ce_minute_fmt = (\<lambda>_. []), ce_err = (\<lambda>_. []),
     ce_bcrypt = (\<lambda>_ p _. Inr (CHR ''$'' # p)), ce_kv_put = (\<lambda>v _ _ _. (Inr (), v)), ce_parse_key = (\<lambda>_. Inr ()), ce_fingerprint = (\<lambda>_. ''F''),
     ce_keygen = (\<lambda>_. Inl []), ce_install = (\<lambda>_. \<lparr>is_dial = (\<lambda>_ _ _. None), is_session = None, is_run = (\<lambda>_. None)\<rparr>),
     ce_now = (\<lambda>_. 0), ce_newid = (\<lambda>_. 9), ce_sched = (\<lambda>_. None)\<rparr>"


subsection \<open>Accounts\<close>

text \<open>The name, hash and role of every account, in the order of creation.\<close>

definition accounts :: "db \<Rightarrow> (string \<times> string \<times> string) list" where
  "accounts d = map (\<lambda>u. (u_username u, u_password_hash u, u_role u)) (users d)"

definition new_account :: "('v, 'sg) console_env \<Rightarrow> string \<times> string \<times> string \<Rightarrow> bool" where
  "new_account E = (\<lambda>(name, hash, role). name \<noteq> [] \<and> (\<exists>n password. password \<noteq> [] \<and> ce_bcrypt E n password 12 = Inr hash))"

definition adds_accounts :: "('v, 'sg) console_env \<Rightarrow> db \<times> 'w ConnectionManager \<times> 'w \<Rightarrow> db \<times> 'w ConnectionManager \<times> 'w \<Rightarrow> bool" where
  "adds_accounts E s t \<longleftrightarrow> (\<exists>new. accounts (fst t) = accounts (fst s) @ new \<and> list_all (new_account E) new)"

lemma adds_accounts_trans: "adds_accounts E x y \<Longrightarrow> adds_accounts E y z \<Longrightarrow> adds_accounts E x z"
proof -
  assume "adds_accounts E x y" "adds_accounts E y z"
  then obtain m n where "accounts (fst y) = accounts (fst x) @ m" "accounts (fst z) = accounts (fst y) @ n"
    "list_all (new_account E) (m @ n)" by (auto simp: adds_accounts_def)
  then show ?thesis unfolding adds_accounts_def by (intro exI [of _ "m @ n"]) simp
qed

lemma adds_accounts_same: "accounts (fst t) = accounts (fst s) \<Longrightarrow> adds_accounts E s t"
  by (simp add: adds_accounts_def)

interpretation accounts_console: console_writes "adds_accounts E" "\<lambda>u. new_account E (u_username u, u_password_hash u, u_role u)" E
  for E :: "('v, 'sg) console_env"
proof
  show "adds_accounts E (d, cw) (d\<lparr>users := users d @ [row]\<rparr>, cw)" if "new_account E (u_username row, u_password_hash row, u_role row)"
    for d row cw using that by (simp add: adds_accounts_def accounts_def)
  show "adds_accounts E x y \<Longrightarrow> adds_accounts E y z \<Longrightarrow> adds_accounts E x z" for x y z :: "db \<times> nets ConnectionManager \<times> nets"
    by (rule adds_accounts_trans)
qed (auto simp: new_account_def intro!: adds_accounts_same simp: accounts_def if_distrib cong: if_cong)

text \<open>C16. What the admin console can do to accounts: a run only adds some. The names, password hashes and
  roles of all existing accounts stay as they were, and each added account has a name and a hash that
  bcrypt made, at cost 12, of a password that is not empty.\<close>

theorem console_accounts:
  "\<exists>new. accounts (sv_db (fst (snd (handleAdminConsole E adminUsername sv c)))) = accounts (sv_db sv) @ new
    \<and> list_all (new_account E) new"
  using accounts_console.R_handleAdminConsole [of E adminUsername sv c] by (simp add: adds_accounts_def)

text \<open>Adding a server leaves no line in the log of admin actions.\<close>

lemma server_creation_not_logged:
  "sv_fs (snd (key_server_method E n key co sv)) = sv_fs sv"
  "sv_fs (snd (key_server_auto E n key co sv)) = sv_fs sv"
  "sv_fs (snd (key_server_paste E n key co sv)) = sv_fs sv"
proof -
  have gen: "sv_fs (snd (console_generate E n f sv)) = sv_fs sv" for f
    by (simp add: console_generate_def case_prod_unfold Let_def)
  show "sv_fs (snd (key_server_method E n key co sv)) = sv_fs sv"
    by (simp add: key_server_method_def Let_def case_prod_unfold gen)
  show "sv_fs (snd (key_server_auto E n key co sv)) = sv_fs sv" "sv_fs (snd (key_server_paste E n key co sv)) = sv_fs sv"
    by (cases key; simp add: key_server_auto_def key_server_paste_def Let_def case_prod_unfold gen)+
qed

end
