(* ===== verification/Zttp_Client.thy ===== *)
theory Zttp_Client
  imports Zttp_Wire Zttp_Screens
begin

text \<open>
  The command line client: the terminal of \<^verbatim>\<open>internal/cli/terminal/terminal.go\<close>, the login screen
  of \<^verbatim>\<open>internal/cli/connect/login_tui.go\<close>, \<^verbatim>\<open>RunConnect\<close> of \<^verbatim>\<open>connect.go\<close>, the resize watcher of
  \<^verbatim>\<open>resize_unix.go\<close> and \<^verbatim>\<open>ConnectTLS\<close> and \<^verbatim>\<open>RunPipe\<close> of \<^verbatim>\<open>internal/cli/transport/transport.go\<close>.

  The local terminal is a record: standard input and output as a connection, whether the terminal is
  in raw mode, and what \<^verbatim>\<open>golang.org/x/term\<close> and \<^verbatim>\<open>fmt.Scanln\<close> answer. The TLS library is the
  parameter \<open>dial\<close>. \<^verbatim>\<open>RunPipe\<close> and the watcher run concurrently: a schedule says which of the
  goroutines moves next and how much it moves.
\<close>

subsection \<open>The terminal\<close>

record tty =
  t_con :: conn
  t_raw :: bool
  t_raw_err :: "string option" \<comment> \<open>why \<^verbatim>\<open>term.MakeRaw\<close> fails\<close>
  t_is_terminal :: bool
  t_password :: "string + string" \<comment> \<open>what \<^verbatim>\<open>term.ReadPassword\<close> returns\<close>
  t_scan :: "string \<times> string option" \<comment> \<open>what \<^verbatim>\<open>fmt.Scanln\<close> stores and returns\<close>
  t_size :: "(int \<times> int) option" \<comment> \<open>what \<^verbatim>\<open>term.GetSize\<close> returns\<close>

definition tty_print :: "string \<Rightarrow> tty \<Rightarrow> tty" where
  "tty_print s t = t\<lparr>t_con := conn_write s (t_con t)\<rparr>"

definition tty_clear :: "tty \<Rightarrow> tty" where
  "tty_clear t = t\<lparr>t_con := clearScreen (t_con t)\<rparr>"

definition Prompt :: "string \<Rightarrow> bool \<Rightarrow> tty \<Rightarrow> (string + string) \<times> tty" where
  "Prompt prompt hidden t0 =
     (let t = tty_print prompt t0 in
      if \<not> t_is_terminal t then (Inr (fst (t_scan t)), t)
      else if hidden then (t_password t, tty_print [CHR 0x0A] t)
      else (case snd (t_scan t) of None \<Rightarrow> Inr (fst (t_scan t)) | Some e \<Rightarrow> Inl e, t))"

text \<open>The previous mode is the state that \<^verbatim>\<open>MakeRaw\<close> returns; \<^verbatim>\<open>Restore\<close> ignores a nil state.\<close>

definition MakeRaw :: "tty \<Rightarrow> (string + bool) \<times> tty" where
  "MakeRaw t = (case t_raw_err t of Some e \<Rightarrow> (Inl e, t) | None \<Rightarrow> (Inr (t_raw t), t\<lparr>t_raw := True\<rparr>))"

definition Restore :: "string + bool \<Rightarrow> tty \<Rightarrow> tty" where
  "Restore state t = (case state of Inl _ \<Rightarrow> t | Inr b \<Rightarrow> t\<lparr>t_raw := b\<rparr>)"

subsection \<open>The login screen\<close>

definition login_readKey :: "tty \<Rightarrow> key option \<times> tty" where
  "login_readKey t = (case c_in (t_con t) of
     RByte b # r \<Rightarrow>
       (let n = (of_char b :: nat); t1 = t\<lparr>t_con := (t_con t)\<lparr>c_in := r\<rparr>\<rparr> in
        if n = 0x1b then
          (let (oldState, t2) = MakeRaw t1; (b2, ok, r') = read_full 2 r;
               t3 = t2\<lparr>t_con := SetReadDeadline False ((t_con t2)\<lparr>c_in := r'\<rparr>)\<rparr>
           in (Some (arrow_key b2 ok), Restore oldState t3))
        else (Some
          (if n = 13 \<or> n = 10 then KeyEnter
           else if n = 127 \<or> n = 8 then KeyBackspace
           else if n = 3 then KeyCtrlC
           else KeyByte b), t1))
   | xs \<Rightarrow> (None, t\<lparr>t_con := (t_con t)\<lparr>c_in := tl xs\<rparr>\<rparr>))"

record loginForm =
  lf_username :: string
  lf_password :: string
  lf_focus :: nat

definition login_drawField :: "string \<Rightarrow> string \<Rightarrow> bool \<Rightarrow> bool \<Rightarrow> string" where
  "login_drawField label val hidden focused =
     (let displayVal = (if hidden then replicate (length val) (CHR ''*'') else val) in
      if focused then ColorGreen @ ''> '' @ pad_right 8 label @ '': '' @ displayVal @ block_char @ ColorReset @ crlf
      else ''  '' @ pad_right 8 label @ '': '' @ displayVal @ crlf)"

definition login_screen :: "loginForm \<Rightarrow> string" where
  "login_screen form =
     ColorCyan @ ''=== ZTTP Secure Login ==='' @ ColorReset @ crlf @ crlf
     @ login_drawField ''Username'' (lf_username form) False (lf_focus form = 0)
     @ login_drawField ''Password'' (lf_password form) True (lf_focus form = 1)
     @ crlf
     @ (if lf_focus form = 2 then ColorGreen @ ''> [ Login ]'' @ ColorReset @ crlf else ''  [ Login ]'' @ crlf)
     @ (if lf_focus form = 3 then ColorRed @ ''> [ Exit  ]'' @ ColorReset @ crlf else ''  [ Exit  ]'' @ crlf)"

datatype login_next = LoginStay loginForm | LoginDone string string | LoginExit

text \<open>The \<^verbatim>\<open>break\<close> on an incomplete form leaves the \<^verbatim>\<open>switch\<close>, so the form stays.\<close>

definition login_key :: "key \<Rightarrow> loginForm \<Rightarrow> login_next" where
  "login_key key form =
     (let focus = lf_focus form in
      case key of
        KeyCtrlC \<Rightarrow> LoginExit
      | KeyUp \<Rightarrow> LoginStay (if 0 < focus then form\<lparr>lf_focus := focus - 1\<rparr> else form)
      | KeyDown \<Rightarrow> LoginStay (if focus < 3 then form\<lparr>lf_focus := focus + 1\<rparr> else form)
      | KeyEnter \<Rightarrow>
          (if focus = 2 then
             (if lf_username form = [] \<or> lf_password form = [] then LoginStay form
              else LoginDone (lf_username form) (lf_password form))
           else if focus = 3 then LoginExit
           else LoginStay (form\<lparr>lf_focus := focus + 1\<rparr>))
      | KeyBackspace \<Rightarrow> LoginStay
          (if focus = 0 \<and> 0 < length (lf_username form) then form\<lparr>lf_username := butlast (lf_username form)\<rparr>
           else if focus = 1 \<and> 0 < length (lf_password form) then form\<lparr>lf_password := butlast (lf_password form)\<rparr>
           else form)
      | KeyByte ch \<Rightarrow> LoginStay
          (if ch \<noteq> CHR '' '' \<and> ch \<noteq> CHR 0x09 then
             (if focus = 0 then form\<lparr>lf_username := lf_username form @ [ch]\<rparr>
              else if focus = 1 then form\<lparr>lf_password := lf_password form @ [ch]\<rparr>
              else form)
           else form)
      | _ \<Rightarrow> LoginStay form)"

lemma login_readKey_progress:
  "login_readKey t = (Some k, t') \<Longrightarrow> length (c_in (t_con t')) < length (c_in (t_con t))"
proof -
  assume k: "login_readKey t = (Some k, t')"
  then obtain b r where i: "c_in (t_con t) = RByte b # r"
    by (auto simp: login_readKey_def split: list.splits rd.splits)
  have "suffix (snd (snd (read_full 2 r))) r" by (rule read_full_suffix)
  then have "length (snd (snd (read_full 2 r))) \<le> length r" by (rule suffix_length_le)
  then show ?thesis using k i
    by (auto simp: login_readKey_def Let_def SetReadDeadline_def MakeRaw_def Restore_def case_prod_unfold split: if_splits option.splits)
qed

lemma tty_print_frame [simp]:
  "c_in (t_con (tty_print s t)) = c_in (t_con t)" "t_raw (tty_print s t) = t_raw t"
  "c_in (t_con (tty_clear t)) = c_in (t_con t)" "t_raw (tty_clear t) = t_raw t"
  by (simp_all add: tty_print_def tty_clear_def)

datatype login_result = LoginEntered string string | LoginReadError

text \<open>Leaving the screen returns the user name ``exit''.\<close>

function login_loop :: "loginForm \<Rightarrow> tty \<Rightarrow> login_result \<times> tty" where
  "login_loop form t =
     (let t1 = tty_print (login_screen form) (tty_clear t) in
      case login_readKey t1 of
        (None, t2) \<Rightarrow> (LoginReadError, t2)
      | (Some key, t2) \<Rightarrow>
          (case login_key key form of
             LoginStay form' \<Rightarrow> login_loop form' t2
           | LoginDone u p \<Rightarrow> (LoginEntered u p, t2)
           | LoginExit \<Rightarrow> (LoginEntered ''exit'' [], tty_clear t2)))"
  by pat_completeness auto
termination
  by (relation "measure (\<lambda>(form, t). length (c_in (t_con t)))")
    (simp_all, metis login_readKey_progress tty_print_frame(1) tty_print_frame(3))

declare login_loop.simps [simp del]

datatype login_error = RawModeFailed string | StdinFailed

definition drawLoginTUI :: "tty \<Rightarrow> (login_error + string \<times> string) \<times> tty" where
  "drawLoginTUI t =
     (case MakeRaw t of
        (Inl e, t1) \<Rightarrow> (Inl (RawModeFailed e), t1)
      | (state, t1) \<Rightarrow>
          (let (r, t2) = login_loop \<lparr>lf_username = [], lf_password = [], lf_focus = 0\<rparr> t1
           in (case r of LoginEntered u p \<Rightarrow> Inr (u, p) | LoginReadError \<Rightarrow> Inl StdinFailed, Restore state t2)))"

subsection \<open>Connecting\<close>

text \<open>The part of \<^verbatim>\<open>tls.Config\<close> that the program sets.\<close>

record tls_Config =
  tc_MinVersion :: nat
  tc_MaxVersion :: nat
  tc_CipherSuites :: "nat list"
  tc_InsecureSkipVerify :: bool

definition VersionTLS13 :: nat where
  "VersionTLS13 = 0x0304"

definition client_tls :: tls_Config where
  "client_tls = \<lparr>tc_MinVersion = VersionTLS13, tc_MaxVersion = VersionTLS13, tc_CipherSuites = [], tc_InsecureSkipVerify = True\<rparr>"

definition ConnectTLS :: "(tls_Config \<Rightarrow> string \<Rightarrow> string + conn) \<Rightarrow> string \<Rightarrow> string + conn" where
  "ConnectTLS dial proxyAddr = (case dial client_tls proxyAddr of
     Inl e \<Rightarrow> Inl (''tls dial '' @ proxyAddr @ '': '' @ e)
   | Inr c \<Rightarrow> Inr c)"

text \<open>What one \<^verbatim>\<open>Read\<close> of \<^verbatim>\<open>io.Copy\<close> delivers: at most \<open>n\<close> of the bytes that have arrived.\<close>

fun take_bytes :: "nat \<Rightarrow> rd list \<Rightarrow> bytes \<times> rd list" where
  "take_bytes (Suc n) (RByte b # xs) = (let (bs, r) = take_bytes n xs in (b # bs, r))"
| "take_bytes n xs = ([], xs)"

text \<open>The goroutines of a connected client: the two copies, the resize watcher (with what
  \<^verbatim>\<open>GetSize\<close> returns) and the context. The result says whether \<^verbatim>\<open>RunPipe\<close> returns.\<close>

datatype pipe_event = FromStdin nat | FromProxy nat | Winch "(int \<times> int) option" | CtxDone

definition pipe_step :: "pipe_event \<Rightarrow> tty \<times> conn \<Rightarrow> bool \<times> tty \<times> conn" where
  "pipe_step ev = (\<lambda>(t, c). case ev of
     FromStdin n \<Rightarrow>
       (let (bs, r) = take_bytes (Suc n) (c_in (t_con t)) in
        if bs = [] then (True, t, c)
        else (let t' = t\<lparr>t_con := (t_con t)\<lparr>c_in := r\<rparr>\<rparr> in
          if c_closed c then (True, t', c)
          else (let (ok, s) = sk_write bs (c_out c) in (\<not> ok, t', c\<lparr>c_out := s\<rparr>))))
   | FromProxy n \<Rightarrow>
       (let (bs, r) = take_bytes (Suc n) (c_in c) in
        if bs = [] then (True, t, c)
        else (let (ok, s) = sk_write bs (c_out (t_con t))
              in (\<not> ok, t\<lparr>t_con := (t_con t)\<lparr>c_out := s\<rparr>\<rparr>, c\<lparr>c_in := r\<rparr>)))
   | Winch sz \<Rightarrow>
       (False, t, case sz of
          None \<Rightarrow> c
        | Some (w, h) \<Rightarrow> (if c_closed c then c else c\<lparr>c_out := snd (SendWindowChange w h (c_out c))\<rparr>))
   | CtxDone \<Rightarrow> (True, t, conn_close c))"

fun RunPipe :: "pipe_event list \<Rightarrow> tty \<times> conn \<Rightarrow> bool \<times> tty \<times> conn" where
  "RunPipe [] tc = (False, tc)"
| "RunPipe (ev # evs) tc = (let (done, tc') = pipe_step ev tc in if done then (True, tc') else RunPipe evs tc')"

datatype connect_result =
  LoginFailed login_error | ExitedLogin | PromptFailed string | ConnectionFailed string | SendFailed
| ProxyRefused wait_error | RawFailed string | SessionEnded | SessionRunning

definition credentials :: "string \<Rightarrow> tty \<Rightarrow> (connect_result + string \<times> string) \<times> tty" where
  "credentials username t =
     (if username = [] then
        (case drawLoginTUI t of
           (Inl e, t1) \<Rightarrow> (Inl (LoginFailed e), t1)
         | (Inr (u, p), t1) \<Rightarrow> (if u = ''exit'' \<or> u = ''quit'' then Inl ExitedLogin else Inr (u, p), t1))
      else
        (case Prompt ''Password: '' True t of
           (Inl e, t1) \<Rightarrow> (Inl (PromptFailed e), t1)
         | (Inr p, t1) \<Rightarrow> (Inr (username, p), t1)))"

definition separator_line :: string where
  "separator_line = concat (replicate 41 [CHR 0xE2, CHR 0x94, CHR 0x80]) @ [CHR 0x0A]"

definition connected_banner :: "int \<Rightarrow> string" where
  "connected_banner elapsed = ColorGreen @ ''Connected'' @ ColorReset @ '' ('' @ dec_int elapsed @ ''ms)'' @ [CHR 0x0A]
     @ separator_line @ ''Audit logging active'' @ [CHR 0x0A] @ separator_line"

definition connecting_line :: "string \<Rightarrow> string" where
  "connecting_line hostname = ColorGreen @ ''Connecting to '' @ hostname @ '' via ZTTP...'' @ ColorReset @ [CHR 0x0A]"

definition isInternalTUI :: "string \<Rightarrow> bool" where
  "isInternalTUI hostname \<longleftrightarrow> hostname = ''zttp-gateway'' \<or> hostname = ''zttp-admin''"

text \<open>From the \<^verbatim>\<open>READY\<close> signal on: raw mode and the copying until \<^verbatim>\<open>RunPipe\<close> returns. The connection is
  closed on every way out.\<close>

definition pipe_session :: "pipe_event list \<Rightarrow> tty \<Rightarrow> conn \<Rightarrow> connect_result \<times> tty \<times> conn option" where
  "pipe_session sched t c = (case MakeRaw t of
     (Inl e, t1) \<Rightarrow> (RawFailed e, t1, Some (conn_close c))
   | (oldState, t1) \<Rightarrow>
       (let (done, t2, c1) = RunPipe sched (t1, c)
        in if done then (SessionEnded, Restore oldState t2, Some (conn_close c1)) else (SessionRunning, t2, Some c1)))"

definition client_request :: "string \<Rightarrow> string \<Rightarrow> string \<Rightarrow> tty \<Rightarrow> ConnectRequest" where
  "client_request username password hostname t =
     (let (width, height) = (case t_size t of Some wh \<Rightarrow> wh | None \<Rightarrow> (80, 24))
      in \<lparr>cr_Username = username, cr_Password = password, cr_Target = hostname, cr_TermWidth = width, cr_TermHeight = height\<rparr>)"

text \<open>\<open>elapsed\<close> is the time to connect in milliseconds.\<close>

definition RunConnect ::
  "(tls_Config \<Rightarrow> string \<Rightarrow> string + conn) \<Rightarrow> (ConnectRequest \<Rightarrow> bytes) \<Rightarrow> int \<Rightarrow> pipe_event list \<Rightarrow>
   string \<Rightarrow> string \<Rightarrow> string \<Rightarrow> tty \<Rightarrow> connect_result \<times> tty \<times> conn option" where
  "RunConnect dial json_enc elapsed sched proxyAddr hostname username t0 =
     (case credentials username t0 of
        (Inl r, t1) \<Rightarrow> (r, t1, None)
      | (Inr (u, p), t1) \<Rightarrow>
          (let req = client_request u p hostname t1;
               t2 = (if isInternalTUI hostname then t1 else tty_print (connecting_line hostname) t1)
           in case ConnectTLS dial proxyAddr of
                Inl e \<Rightarrow> (ConnectionFailed e, t2, None)
              | Inr c \<Rightarrow>
                  (let (ok, s) = SendConnectRequest json_enc req (c_out c); c1 = c\<lparr>c_out := s\<rparr>
                   in if \<not> ok then (SendFailed, t2, Some (conn_close c1))
                      else (let (w, r) = WaitReady (c_in c1); c2 = c1\<lparr>c_in := r\<rparr>
                        in case w of
                             Inl e \<Rightarrow> (ProxyRefused e, t2, Some (conn_close c2))
                           | Inr _ \<Rightarrow> pipe_session sched
                               (if isInternalTUI hostname then t2 else tty_print (connected_banner elapsed) t2) c2))))"

subsection \<open>The terminal mode\<close>

lemma login_readKey_raw: "login_readKey t = (k, t') \<Longrightarrow> t_raw t' = t_raw t"
  by (auto simp: login_readKey_def MakeRaw_def Restore_def Let_def case_prod_unfold split: list.splits rd.splits if_splits option.splits)

lemma login_loop_raw: "t_raw (snd (login_loop form t)) = t_raw t"
proof (induction "length (c_in (t_con t))" arbitrary: form t rule: less_induct)
  case less
  obtain k t2 where k: "login_readKey (tty_print (login_screen form) (tty_clear t)) = (k, t2)" by (rule prod.exhaust)
  have raw: "t_raw t2 = t_raw t" using login_readKey_raw [OF k] by simp
  show ?case
  proof (cases k)
    case None
    then show ?thesis using k raw by (simp add: login_loop.simps [of form t])
  next
    case (Some key)
    have "length (c_in (t_con t2)) < length (c_in (t_con t))" using login_readKey_progress k Some by fastforce
    then show ?thesis using k Some raw less by (simp add: login_loop.simps [of form t] split: login_next.split)
  qed
qed

lemma drawLoginTUI_raw: "t_raw (snd (drawLoginTUI t)) = t_raw t"
  by (simp add: drawLoginTUI_def MakeRaw_def Restore_def case_prod_unfold Let_def split: option.split)

lemma credentials_raw: "credentials username t = (r, t') \<Longrightarrow> t_raw t' = t_raw t \<and> r \<noteq> Inl SessionRunning"
  using drawLoginTUI_raw [of t]
  by (auto simp: credentials_def Prompt_def Let_def split: if_splits sum.splits prod.splits)

lemma pipe_step_raw: "t_raw (fst (snd (pipe_step ev (t, c)))) = t_raw t"
  by (cases ev) (simp_all add: pipe_step_def Let_def case_prod_unfold)

lemma RunPipe_raw: "t_raw (fst (snd (RunPipe evs (t, c)))) = t_raw t"
proof (induction evs arbitrary: t c)
  case (Cons ev evs)
  obtain d t' c' where st: "pipe_step ev (t, c) = (d, t', c')" by (rule prod_cases3)
  then show ?case using Cons.IH [of t' c'] pipe_step_raw [of ev t c] by simp
qed simp

lemma pipe_session_raw:
  "pipe_session sched t c = (r, t', co) \<Longrightarrow> t_raw t' = (if r = SessionRunning then True else t_raw t)"
  using RunPipe_raw [of sched "t\<lparr>t_raw := True\<rparr>" c]
  by (auto simp: pipe_session_def MakeRaw_def Restore_def Let_def split: option.splits prod.splits if_splits)

lemma RunConnect_raw:
  assumes "RunConnect dial json_enc elapsed sched proxyAddr hostname username t = (r, t', co)"
  shows "t_raw t' = (if r = SessionRunning then True else t_raw t)"
proof -
  obtain cr t1 where cr: "credentials username t = (cr, t1)" by (rule prod.exhaust)
  have raw: "t_raw t1 = t_raw t" "cr \<noteq> Inl SessionRunning" using credentials_raw [OF cr] by simp_all
  show ?thesis using raw cr assms
    by (auto simp: RunConnect_def Let_def split: sum.splits prod.splits option.splits if_splits dest: pipe_session_raw)
qed

text \<open>The user's terminal is never left in raw mode: whichever way \<^verbatim>\<open>RunConnect\<close> ends, the terminal is
  back in the mode it was in; it is in raw mode only while the session runs.\<close>

theorem terminal_restored:
  "case RunConnect dial json_enc elapsed sched proxyAddr hostname username t of
     (r, t', _) \<Rightarrow> t_raw t' = (if r = SessionRunning then True else t_raw t)"
  by (auto split: prod.split dest: RunConnect_raw)

subsection \<open>Logging in\<close>

text \<open>The bytes that can be typed into a field of the login screen.\<close>

definition login_char :: "char \<Rightarrow> bool" where
  "login_char ch \<longleftrightarrow> (of_char ch :: nat) \<notin> {0x1b, 13, 10, 127, 8, 3, 32, 9}"

lemma login_char_key:
  assumes "login_char ch" "c_in (t_con t) = RByte ch # rest"
  shows "login_readKey t = (Some (KeyByte ch), t\<lparr>t_con := (t_con t)\<lparr>c_in := rest\<rparr>\<rparr>) \<and> ch \<noteq> CHR '' '' \<and> ch \<noteq> CHR 0x09"
  using assms by (auto simp: login_readKey_def login_char_def Let_def)

lemma login_enter_key:
  "c_in (t_con t) = RByte (CHR 0x0D) # rest \<Longrightarrow> login_readKey t = (Some KeyEnter, t\<lparr>t_con := (t_con t)\<lparr>c_in := rest\<rparr>\<rparr>)"
  by (simp add: login_readKey_def Let_def)

lemma login_loop_stay:
  assumes "\<And>con. c_in con = c_in (t_con t) \<Longrightarrow> login_readKey (t\<lparr>t_con := con\<rparr>) = (Some k, t\<lparr>t_con := con\<lparr>c_in := rest\<rparr>\<rparr>)"
    and "login_key k form = LoginStay form'"
  shows "\<exists>con. login_loop form t = login_loop form' (t\<lparr>t_con := con\<rparr>) \<and> c_in con = rest"
proof -
  let ?c = "conn_write (login_screen form) (clearScreen (t_con t))"
  have eq: "tty_print (login_screen form) (tty_clear t) = t\<lparr>t_con := ?c\<rparr>"
    by (simp add: tty_print_def tty_clear_def)
  have "login_readKey (t\<lparr>t_con := ?c\<rparr>) = (Some k, t\<lparr>t_con := ?c\<lparr>c_in := rest\<rparr>\<rparr>)"
    by (rule assms(1)) simp
  then have "login_loop form t = login_loop form' (t\<lparr>t_con := ?c\<lparr>c_in := rest\<rparr>\<rparr>)"
    using assms(2) by (simp add: login_loop.simps [of form t] eq)
  then show ?thesis by (intro exI [of _ "?c\<lparr>c_in := rest\<rparr>"]) simp
qed

lemma login_loop_enter:
  assumes "c_in (t_con t) = RByte (CHR 0x0D) # rest" "lf_focus form < 2"
  shows "\<exists>con. login_loop form t = login_loop (form\<lparr>lf_focus := lf_focus form + 1\<rparr>) (t\<lparr>t_con := con\<rparr>) \<and> c_in con = rest"
  by (rule login_loop_stay [where k = KeyEnter]) (use assms login_enter_key in \<open>simp_all add: login_key_def Let_def\<close>)

lemma login_loop_type:
  assumes "list_all login_char s" "c_in (t_con t) = map RByte s @ rest" "lf_focus form < 2"
  shows "\<exists>con. login_loop form t = login_loop
      (if lf_focus form = 0 then form\<lparr>lf_username := lf_username form @ s\<rparr> else form\<lparr>lf_password := lf_password form @ s\<rparr>)
      (t\<lparr>t_con := con\<rparr>) \<and> c_in con = rest"
  using assms
proof (induction s arbitrary: form t)
  case Nil
  then show ?case by (intro exI [of _ "t_con t"]) simp
next
  case (Cons ch s)
  let ?f = "if lf_focus form = 0 then form\<lparr>lf_username := lf_username form @ [ch]\<rparr> else form\<lparr>lf_password := lf_password form @ [ch]\<rparr>"
  obtain con where step: "login_loop form t = login_loop ?f (t\<lparr>t_con := con\<rparr>)" "c_in con = map RByte s @ rest"
    using login_loop_stay [where k = "KeyByte ch" and t = t and form = form and form' = ?f and rest = "map RByte s @ rest"]
      login_char_key [of ch] Cons.prems by (auto simp: login_key_def Let_def)
  have "\<exists>con'. login_loop ?f (t\<lparr>t_con := con\<rparr>) = login_loop
      (if lf_focus ?f = 0 then ?f\<lparr>lf_username := lf_username ?f @ s\<rparr> else ?f\<lparr>lf_password := lf_password ?f @ s\<rparr>)
      (t\<lparr>t_con := con\<rparr>\<lparr>t_con := con'\<rparr>) \<and> c_in con' = rest"
    by (rule Cons.IH) (use Cons.prems step(2) in simp_all)
  then show ?case using step(1) Cons.prems(3) by (cases "lf_focus form = 0") auto
qed

text \<open>Typing the user name, Enter, the password, Enter and Enter on \<^verbatim>\<open>[ Login ]\<close>.\<close>

definition login_typing :: "string \<Rightarrow> string \<Rightarrow> rd list" where
  "login_typing u p = map RByte (u @ [CHR 0x0D] @ p @ [CHR 0x0D, CHR 0x0D])"

lemma login_loop_reads:
  assumes "list_all login_char u" "list_all login_char p" "u \<noteq> []" "p \<noteq> []" "c_in (t_con t) = login_typing u p @ rest"
  shows "\<exists>con. login_loop \<lparr>lf_username = [], lf_password = [], lf_focus = 0\<rparr> t = (LoginEntered u p, t\<lparr>t_con := con\<rparr>) \<and> c_in con = rest"
proof -
  let ?f = "\<lambda>u p n. \<lparr>lf_username = u, lf_password = p, lf_focus = n\<rparr>"
  let ?r1 = "map RByte p @ RByte (CHR 0x0D) # RByte (CHR 0x0D) # rest"
  obtain c1 where 1: "login_loop (?f [] [] 0) t = login_loop (?f u [] 0) (t\<lparr>t_con := c1\<rparr>)" "c_in c1 = RByte (CHR 0x0D) # ?r1"
    using login_loop_type [OF assms(1), of t "RByte (CHR 0x0D) # ?r1" "?f [] [] 0"] assms(5) by (auto simp: login_typing_def)
  obtain c2 where 2: "login_loop (?f u [] 0) (t\<lparr>t_con := c1\<rparr>) = login_loop (?f u [] 1) (t\<lparr>t_con := c2\<rparr>)" "c_in c2 = ?r1"
    using login_loop_enter [of "t\<lparr>t_con := c1\<rparr>" ?r1 "?f u [] 0"] 1(2) by auto
  obtain c3 where 3: "login_loop (?f u [] 1) (t\<lparr>t_con := c2\<rparr>) = login_loop (?f u p 1) (t\<lparr>t_con := c3\<rparr>)"
    "c_in c3 = RByte (CHR 0x0D) # RByte (CHR 0x0D) # rest"
    using login_loop_type [OF assms(2), of "t\<lparr>t_con := c2\<rparr>" "RByte (CHR 0x0D) # RByte (CHR 0x0D) # rest" "?f u [] 1"] 2(2) by auto
  obtain c4 where 4: "login_loop (?f u p 1) (t\<lparr>t_con := c3\<rparr>) = login_loop (?f u p 2) (t\<lparr>t_con := c4\<rparr>)"
    "c_in c4 = RByte (CHR 0x0D) # rest"
    using login_loop_enter [of "t\<lparr>t_con := c3\<rparr>" "RByte (CHR 0x0D) # rest" "?f u p 1"] 3(2) by (auto simp: numeral_2_eq_2)
  let ?c = "conn_write (login_screen (?f u p 2)) (clearScreen c4)"
  have "tty_print (login_screen (?f u p 2)) (tty_clear (t\<lparr>t_con := c4\<rparr>)) = t\<lparr>t_con := ?c\<rparr>"
    by (simp add: tty_print_def tty_clear_def)
  moreover have "login_readKey (t\<lparr>t_con := ?c\<rparr>) = (Some KeyEnter, t\<lparr>t_con := ?c\<lparr>c_in := rest\<rparr>\<rparr>)"
    using login_enter_key [of "t\<lparr>t_con := ?c\<rparr>" rest] 4(2) by simp
  ultimately have "login_loop (?f u p 2) (t\<lparr>t_con := c4\<rparr>) = (LoginEntered u p, t\<lparr>t_con := ?c\<lparr>c_in := rest\<rparr>\<rparr>)"
    using assms(3,4) by (simp add: login_loop.simps [of "?f u p 2"] login_key_def Let_def)
  then show ?thesis using 1(1) 2(1) 3(1) 4(1) by (intro exI [of _ "?c\<lparr>c_in := rest\<rparr>"]) simp
qed

lemma drawLoginTUI_reads:
  assumes "list_all login_char u" "list_all login_char p" "u \<noteq> []" "p \<noteq> []" "c_in (t_con t) = login_typing u p @ rest" "t_raw_err t = None"
  shows "\<exists>con. drawLoginTUI t = (Inr (u, p), t\<lparr>t_con := con\<rparr>) \<and> c_in con = rest"
proof -
  obtain con where "login_loop \<lparr>lf_username = [], lf_password = [], lf_focus = 0\<rparr> (t\<lparr>t_raw := True\<rparr>) = (LoginEntered u p, t\<lparr>t_raw := True\<rparr>\<lparr>t_con := con\<rparr>)"
    "c_in con = rest"
    using login_loop_reads [OF assms(1-4), of "t\<lparr>t_raw := True\<rparr>" rest] assms(5) by auto
  then show ?thesis using assms(6) by (auto simp: drawLoginTUI_def MakeRaw_def Restore_def)
qed

text \<open>The copying only appends to what was sent.\<close>

lemma sk_write_prefix: "prefix (sk_data s) (sk_data (snd (sk_write p s)))"
  by (simp add: sk_write_def split: list.split)

lemma pipe_step_sent: "prefix (sk_data (c_out c)) (sk_data (c_out (snd (snd (pipe_step ev (t, c))))))"
  by (cases ev)
    (auto simp: pipe_step_def Let_def case_prod_unfold SendWindowChange_def conn_close_def sk_write_prefix split: option.split)

lemma RunPipe_sent: "prefix (sk_data (c_out c)) (sk_data (c_out (snd (snd (RunPipe evs (t, c))))))"
proof (induction evs arbitrary: t c)
  case (Cons ev evs)
  obtain d t' c' where st: "pipe_step ev (t, c) = (d, t', c')" by (rule prod_cases3)
  then show ?case using Cons.IH [of c' t'] pipe_step_sent [of c ev t] by (auto intro: prefix_order.trans)
qed simp

lemma pipe_session_sent:
  "\<exists>c'. snd (snd (pipe_session sched t c)) = Some c' \<and> prefix (sk_data (c_out c)) (sk_data (c_out c'))"
  using RunPipe_sent [of c sched "t\<lparr>t_raw := True\<rparr>"]
  by (auto simp: pipe_session_def MakeRaw_def Let_def conn_close_def split: option.split prod.split)

text \<open>The credentials typed into the login screen are the ones the proxy reads: the user name, the
  password and the target arrive unchanged in the request, whatever follows on the connection.\<close>

lemma login_reaches_proxy:
  assumes "list_all login_char u" "list_all login_char p" "u \<noteq> []" "p \<noteq> []" "u \<noteq> ''exit''" "u \<noteq> ''quit''"
    and "c_in (t_con t) = login_typing u p @ rest" "t_raw_err t = None"
    and "dial client_tls proxyAddr = Inr c" "good_sink (c_out c)" "sk_data (c_out c) = []"
    and "json_dec (json_enc (client_request u p hostname t)) = Inr (client_request u p hostname t)"
    and "length (json_enc (client_request u p hostname t)) \<le> 4096"
  shows "\<exists>c'. snd (snd (RunConnect dial json_enc elapsed sched proxyAddr hostname [] t)) = Some c'
    \<and> (\<forall>pc more. c_in pc = map RByte (sk_data (c_out c')) @ more \<longrightarrow>
        (\<exists>req pc'. readConnectRequest json_dec pc = (Inr req, pc')
           \<and> cr_Username req = u \<and> cr_Password req = p \<and> cr_Target req = hostname))"
proof -
  obtain con where cr: "credentials [] t = (Inr (u, p), t\<lparr>t_con := con\<rparr>)"
    using drawLoginTUI_reads [OF assms(1-4,7,8)] assms(5,6) by (auto simp: credentials_def)
  let ?req = "client_request u p hostname t"
  have req: "client_request u p hostname (t\<lparr>t_con := con\<rparr>) = ?req"
    "cr_Username ?req = u" "cr_Password ?req = p" "cr_Target ?req = hostname"
    by (simp_all add: client_request_def Let_def case_prod_unfold)
  obtain s where s: "SendConnectRequest json_enc ?req (c_out c) = (True, s)" "sk_data s = enc_msg (json_enc ?req)"
    using assms(10,11) by (auto simp: SendConnectRequest_def enc_msg_def Let_def)
  obtain w r where w: "WaitReady (c_in c) = (w, r)" by (rule prod.exhaust)
  have "\<exists>c'. snd (snd (RunConnect dial json_enc elapsed sched proxyAddr hostname [] t)) = Some c' \<and> prefix (sk_data s) (sk_data (c_out c'))"
    using cr assms(9) s(1) w req(1) pipe_session_sent [of sched _ "c\<lparr>c_out := s, c_in := r\<rparr>"]
    by (cases w) (simp_all add: RunConnect_def ConnectTLS_def Let_def case_prod_unfold conn_close_def)
  then obtain c' more where c': "snd (snd (RunConnect dial json_enc elapsed sched proxyAddr hostname [] t)) = Some c'"
    "sk_data (c_out c') = enc_msg (json_enc ?req) @ more" using s(2) by (auto simp: prefix_def)
  have "readConnectRequest json_dec pc = (Inr ?req, pc\<lparr>c_in := map RByte more @ more', c_deadline := False\<rparr>)"
    if "c_in pc = map RByte (sk_data (c_out c')) @ more'" for pc more'
    using readConnectRequest_msg [of "json_enc ?req" pc "map RByte more @ more'" json_dec] that c'(2) assms(12,13) by simp
  then show ?thesis using c'(1) req by (intro exI [of _ c']) auto
qed

definition demo_tty :: "rd list \<Rightarrow> tty" where
  "demo_tty xs = \<lparr>t_con = demo_conn xs, t_raw = False, t_raw_err = None, t_is_terminal = True, t_password = Inr [],
     t_scan = ([], None), t_size = Some (80, 24)\<rparr>"

text \<open>A toy encoding of requests, for the example: the three strings, separated by line feeds.\<close>

definition demo_enc :: "ConnectRequest \<Rightarrow> bytes" where
  "demo_enc req = cr_Username req @ [CHR 0x0A] @ cr_Password req @ [CHR 0x0A] @ cr_Target req"

text \<open>An account named like the words that leave the login screen cannot be used from it.\<close>

lemma exit_account_cannot_login:
  assumes "u \<in> {''exit'', ''quit''}" "list_all login_char p" "p \<noteq> []"
    and "c_in (t_con t) = login_typing u p @ rest" "t_raw_err t = None"
  shows "fst (RunConnect dial json_enc elapsed sched proxyAddr hostname [] t) = ExitedLogin"
proof -
  have "list_all login_char u" "u \<noteq> []" using assms(1) by (auto simp: login_char_def)
  then obtain con where "drawLoginTUI t = (Inr (u, p), t\<lparr>t_con := con\<rparr>)"
    using drawLoginTUI_reads assms(2-5) by blast
  then show ?thesis using assms(1) by (auto simp: RunConnect_def credentials_def)
qed

subsection \<open>The session\<close>

lemma take_bytes_split: "take_bytes n xs = (bs, r) \<Longrightarrow> xs = map RByte bs @ r"
  by (induction n xs arbitrary: bs r rule: take_bytes.induct) (auto split: prod.splits)

definition good_pipe :: "tty \<times> conn \<Rightarrow> bool" where
  "good_pipe = (\<lambda>(t, c). good_sink (c_out (t_con t)) \<and> good_sink (c_out c) \<and> \<not> c_closed c)"

text \<open>One step moves a piece of one stream, in order, and keeps the other.\<close>

lemma pipe_step_moves:
  assumes "pipe_step ev (t, c) = (d, t', c')" "good_pipe (t, c)"
  shows "\<exists>ks ss. c_in (t_con t) = map RByte ks @ c_in (t_con t') \<and> c_in c = map RByte ss @ c_in c'
    \<and> sk_data (c_out (t_con t')) = sk_data (c_out (t_con t)) @ ss
    \<and> sk_data (c_out c') = sk_data (c_out c) @ (case ev of Winch (Some (w, h)) \<Rightarrow> window_frame w h | _ \<Rightarrow> ks)
    \<and> ((\<exists>sz. ev = Winch sz) \<longrightarrow> ks = []) \<and> (\<not> d \<longrightarrow> good_pipe (t', c'))"
proof (cases ev)
  case (FromStdin n)
  obtain bs r where tb: "take_bytes (Suc n) (c_in (t_con t)) = (bs, r)" by (rule prod.exhaust)
  show ?thesis using assms FromStdin tb take_bytes_split [OF tb]
    by (intro exI [of _ bs] exI [of _ "[]"]) (auto simp: pipe_step_def good_pipe_def Let_def simp del: take_bytes.simps split: if_splits)
next
  case (FromProxy n)
  obtain bs r where tb: "take_bytes (Suc n) (c_in c) = (bs, r)" by (rule prod.exhaust)
  show ?thesis using assms FromProxy tb take_bytes_split [OF tb]
    by (intro exI [of _ "[]"] exI [of _ bs]) (auto simp: pipe_step_def good_pipe_def Let_def simp del: take_bytes.simps split: if_splits)
next
  case (Winch sz)
  then show ?thesis using assms
    by (auto simp: pipe_step_def good_pipe_def SendWindowChange_def split: option.splits)
next
  case CtxDone
  then show ?thesis using assms by (auto simp: pipe_step_def conn_close_def)
qed



end
