(* ===== verification/Zttp_Process.thy ===== *)
theory Zttp_Process
  imports Zttp_Accept Zttp_Client
begin

text \<open>
  The proxy process: the start-up sequence of \<^verbatim>\<open>cmd/proxy/main.go\<close>, the connection pool of
  \<^verbatim>\<open>internal/db/db.go\<close>, the listener of \<^verbatim>\<open>internal/proxy/listener.go\<close>, \<^verbatim>\<open>StartGRPCServer\<close>, the
  accept loop of \<^verbatim>\<open>internal/proxy/accept.go\<close> and the probes of \<^verbatim>\<open>internal/health/health.go\<close>.

  What the libraries answer during start-up (the logger, Viper, the database driver, Vault, the file
  system, the TLS and gRPC libraries) is a record of parameters. A call of \<^verbatim>\<open>logger.Fatal\<close> ends the
  process: start-up then has an error as its result.
\<close>

subsection \<open>The database pool\<close>

text \<open>The limits that \<^verbatim>\<open>sql.DB\<close> enforces: zero open connections means no limit; lowering one limit lowers
  the number of idle connections with it. A new pool keeps two idle connections.\<close>

record pool =
  pl_MaxOpen :: int
  pl_MaxIdle :: int
  pl_MaxLifetime :: duration
  pl_MaxIdleTime :: duration

definition new_pool :: pool where
  "new_pool = \<lparr>pl_MaxOpen = 0, pl_MaxIdle = 2, pl_MaxLifetime = 0, pl_MaxIdleTime = 0\<rparr>"

definition cap_idle :: "pool \<Rightarrow> pool" where
  "cap_idle p = (if 0 < pl_MaxOpen p \<and> pl_MaxOpen p < pl_MaxIdle p then p\<lparr>pl_MaxIdle := pl_MaxOpen p\<rparr> else p)"

definition SetMaxOpenConns :: "int \<Rightarrow> pool \<Rightarrow> pool" where
  "SetMaxOpenConns n p = cap_idle (p\<lparr>pl_MaxOpen := max 0 n\<rparr>)"

definition SetMaxIdleConns :: "int \<Rightarrow> pool \<Rightarrow> pool" where
  "SetMaxIdleConns n p = cap_idle (p\<lparr>pl_MaxIdle := max 0 n\<rparr>)"

definition ping :: "unit sql" where
  "ping = query (\<lambda>_. Inr ())"

definition db_Connect :: "(string \<Rightarrow> string option) \<Rightarrow> (sql_error \<Rightarrow> string) \<Rightarrow> Config \<Rightarrow> db \<Rightarrow> (string + pool) \<times> db" where
  "db_Connect sql_open err_string cfg d =
     (case sql_open (DatabaseURL cfg) of
        Some e \<Rightarrow> (Inl (''open postgres connection: '' @ e), d)
      | None \<Rightarrow>
          (let p = (SetMaxIdleConns (DBMaxIdleConns cfg) (SetMaxOpenConns (DBMaxOpenConns cfg) new_pool))
                 \<lparr>pl_MaxLifetime := 30 * minute, pl_MaxIdleTime := 5 * minute\<rparr>
           in case ping d of
                (Inl e, d') \<Rightarrow> (Inl (''ping postgres: '' @ err_string e @ [CHR 0x0A]
                  @ ''  Is Postgres running? Try: docker compose up -d postgres''), d')
              | (Inr _, d') \<Rightarrow> (Inr p, d')))"

subsection \<open>Probes\<close>

record Status =
  st_Status :: string
  st_Database :: string
  st_Timestamp :: string
  st_Uptime :: string

text \<open>\<open>json\<close> encodes the status, \<open>timestamp\<close> and \<open>uptime\<close> are the formatted times; the header set is
  the content type.\<close>

definition health_Handler ::
  "(Status \<Rightarrow> bytes) \<Rightarrow> string \<Rightarrow> string \<Rightarrow> db \<Rightarrow> (string \<times> http_response) \<times> db" where
  "health_Handler json timestamp uptime d =
     (let status = \<lparr>st_Status = ''ok'', st_Database = ''ok'', st_Timestamp = timestamp, st_Uptime = uptime\<rparr>;
          (r, d') = ping d;
          (status1, code) = (case r of
             Inl _ \<Rightarrow> (status\<lparr>st_Status := ''degraded'', st_Database := ''unreachable''\<rparr>, 503)
           | Inr _ \<Rightarrow> (status, 200))
      in ((''application/json'', \<lparr>hr_status = code, hr_body = json status1\<rparr>), d'))"

definition ReadyHandler :: http_response where
  "ReadyHandler = \<lparr>hr_status = 200, hr_body = ''ready''\<rparr>"

subsection \<open>Listeners\<close>

definition server_tls :: tls_Config where
  "server_tls = \<lparr>tc_MinVersion = VersionTLS13, tc_MaxVersion = VersionTLS13, tc_CipherSuites = [0x1302, 0x1303],
     tc_InsecureSkipVerify = False\<rparr>"

text \<open>The libraries' answers are error texts or \<open>None\<close>; the result is the configuration listened with.\<close>

definition NewTLSListener ::
  "(string \<Rightarrow> string \<Rightarrow> string option) \<Rightarrow> (tls_Config \<Rightarrow> string \<Rightarrow> string option) \<Rightarrow> string \<Rightarrow> string \<Rightarrow> string \<Rightarrow> string + tls_Config" where
  "NewTLSListener load_pair listen addr certFile keyFile =
     (case load_pair certFile keyFile of
        Some e \<Rightarrow> Inl (''load tls cert: '' @ e)
      | None \<Rightarrow>
          (case listen server_tls addr of
             Some e \<Rightarrow> Inl (''tls listen on '' @ addr @ '': '' @ e)
           | None \<Rightarrow> Inr server_tls))"

text \<open>\<open>serve\<close> is the result of \<^verbatim>\<open>srv.Serve\<close>; \<open>None\<close> is a server that is still running.\<close>

definition StartGRPCServer ::
  "(string \<Rightarrow> string \<Rightarrow> string option) \<Rightarrow> (string \<Rightarrow> string option) \<Rightarrow> string option \<Rightarrow> string \<Rightarrow> string \<Rightarrow> string \<Rightarrow> string option" where
  "StartGRPCServer load_creds tcp_listen serve addr certFile keyFile =
     (case load_creds certFile keyFile of
        Some e \<Rightarrow> Some (''grpc tls: '' @ e)
      | None \<Rightarrow> (case tcp_listen addr of Some e \<Rightarrow> Some (''grpc listen: '' @ e) | None \<Rightarrow> serve))"

text \<open>The accept loop over the results of \<^verbatim>\<open>Accept\<close>, each with whether the context is done at that moment:
  the connections handed to goroutines, and whether the loop has returned.\<close>

fun AcceptLoop :: "(bool \<times> (string + 'c)) list \<Rightarrow> 'c list \<times> bool" where
  "AcceptLoop [] = ([], False)"
| "AcceptLoop ((cancelled, Inl e) # rs) = (if cancelled then ([], True) else AcceptLoop rs)"
| "AcceptLoop ((cancelled, Inr c) # rs) = (let (cs, returned) = AcceptLoop rs in (c # cs, returned))"

subsection \<open>Start-up\<close>

record startup_env =
  se_logger :: "string option"
  se_viper :: "(string \<times> string) list \<Rightarrow> string + Config"
  se_sql_open :: "string \<Rightarrow> string option"
  se_err :: "sql_error \<Rightarrow> string"
  se_vault_ready :: bool
  se_vault_login :: "string \<Rightarrow> string \<Rightarrow> string + login_response"
  se_mkdir :: "string \<Rightarrow> string option"
  se_inet_in :: "string \<Rightarrow> inet option"
  se_load_pair :: "string \<Rightarrow> string \<Rightarrow> string option"
  se_listen :: "tls_Config \<Rightarrow> string \<Rightarrow> string option"
  se_tcp_listen :: "string \<Rightarrow> string option"
  se_serve :: "string option"

datatype startup_error =
  LoggerFailed string | ConfigFailed config_error | DatabaseFailed string | VaultFailed string
| AuditDirFailed string | ListenerFailed string

record ('l, 'v) process =
  pr_server :: "('l, 'v) server"
  pr_pool :: pool
  pr_tls :: tls_Config
  pr_config :: Config
  pr_grpc :: "string option" \<comment> \<open>why the goroutine of the gRPC server ends the process\<close>

definition dev_mode :: "Config \<Rightarrow> bool" where
  "dev_mode cfg \<longleftrightarrow> cfg_VaultDevMode cfg \<or> VaultToken cfg \<noteq> []"

definition main_start ::
  "startup_env \<Rightarrow> 'v \<Rightarrow> fsys \<Rightarrow> nets \<Rightarrow> db \<Rightarrow> (startup_error + ('l, 'v) process) \<times> db" where
  "main_start E v fs nets d =
     (case se_logger E of
        Some e \<Rightarrow> (Inl (LoggerFailed e), d)
      | None \<Rightarrow>
     (case Load (se_viper E) of
        Inl e \<Rightarrow> (Inl (ConfigFailed e), d)
      | Inr cfg \<Rightarrow>
     (case db_Connect (se_sql_open E) (se_err E) cfg d of
        (Inl e, d1) \<Rightarrow> (Inl (DatabaseFailed e), d1)
      | (Inr pl, d1) \<Rightarrow>
     (case vault_New (se_vault_ready E) (se_vault_login E) cfg of
        Inl e \<Rightarrow> (Inl (VaultFailed e), d1)
      | Inr vc \<Rightarrow>
     (case se_mkdir E (cfg_AuditLogDir cfg) of
        Some e \<Rightarrow> (Inl (AuditDirFailed e), d1)
      | None \<Rightarrow>
     (let guard = NewDiskGuard (AuditDiskMaxPct cfg);
          d2 = snd (CleanupOrphanedSessions (se_inet_in E) (cfg_ProxyNodeIP cfg) d1);
          grpc = StartGRPCServer (se_load_pair E) (se_tcp_listen E) (se_serve E) (GRPCListenAddr cfg) (TLSCertFile cfg) (TLSKeyFile cfg)
      in case NewTLSListener (se_load_pair E) (se_listen E) (ProxyListenAddr cfg) (TLSCertFile cfg) (TLSKeyFile cfg) of
           Inl e \<Rightarrow> (Inl (ListenerFailed e), d2)
         | Inr tls \<Rightarrow>
             (Inr \<lparr>pr_server =
                 \<lparr>sv_limiter = New_limiter (RateLimitPerMin cfg), sv_guard = guard, sv_db = d2, sv_vault_client = vc,
                  sv_vault = v, sv_heap = [], sv_fs = fs, sv_nets = nets, sv_manager = NewConnectionManager,
                  sv_ProxyNodeIP = cfg_ProxyNodeIP cfg, sv_AuditLogDir = cfg_AuditLogDir cfg, sv_VaultDevMode = dev_mode cfg\<rparr>,
                pr_pool = pl, pr_tls = tls, pr_config = cfg, pr_grpc = grpc\<rparr>, d2)))))))"

subsection \<open>Properties\<close>

lemma pool_limits:
  assumes "1 \<le> n"
  shows "let p = SetMaxIdleConns k (SetMaxOpenConns n new_pool) in pl_MaxOpen p = n \<and> 0 \<le> pl_MaxIdle p \<and> pl_MaxIdle p \<le> n"
  using assms by (auto simp: SetMaxIdleConns_def SetMaxOpenConns_def cap_idle_def new_pool_def Let_def)

lemma pool_bounded:
  assumes "db_Connect so es cfg d = (Inr p, d')" "valid_config cfg"
  shows "1 \<le> pl_MaxOpen p \<and> pl_MaxOpen p \<le> 200 \<and> 0 \<le> pl_MaxIdle p \<and> pl_MaxIdle p \<le> pl_MaxOpen p"
proof -
  have v: "1 \<le> DBMaxOpenConns cfg" "DBMaxOpenConns cfg \<le> 200"
    using assms(2) by (auto simp: valid_config_def validate_def split: if_splits)
  have "p = (SetMaxIdleConns (DBMaxIdleConns cfg) (SetMaxOpenConns (DBMaxOpenConns cfg) new_pool))
      \<lparr>pl_MaxLifetime := 30 * minute, pl_MaxIdleTime := 5 * minute\<rparr>"
    using assms(1) by (auto simp: db_Connect_def Let_def split: option.splits prod.splits sum.splits)
  then show ?thesis using pool_limits [OF v(1), of "DBMaxIdleConns cfg"] v by (simp add: Let_def)
qed

lemma ping_db: "snd (ping d) = d\<lparr>outages := outages (snd (ping d))\<rparr>"
  unfolding ping_def by (rule query_db)

lemma db_Connect_db: "\<exists>xs. snd (db_Connect so es cfg d) = d\<lparr>outages := xs\<rparr>"
proof -
  obtain r d' where p: "ping d = (r, d')" by (rule prod.exhaust)
  have "\<exists>xs. d' = d\<lparr>outages := xs\<rparr>" using ping_db [of d] unfolding p snd_conv by blast
  moreover have "\<exists>xs. d = d\<lparr>outages := xs\<rparr>" by (rule exI [of _ "outages d"]) simp
  ultimately show ?thesis unfolding db_Connect_def Let_def p by (cases r) (simp_all split: option.split)
qed

text \<open>The Vault client of a started process has a token it obtained as the configuration says.\<close>

lemma vault_New_token:
  assumes "vault_New ready login cfg = Inr vc"
  shows "if dev_mode cfg then vc_token vc = VaultToken cfg
    else login (VaultRoleID cfg) (VaultSecretID cfg) = Inr (Auth (vc_token vc)) \<and> vc_renews vc"
  using assms
  by (auto simp: vault_New_def dev_mode_def loginAppRole_def setToken_def Let_def split: if_splits sum.splits login_response.splits prod.splits)

definition no_active_session :: "inet \<Rightarrow> db \<Rightarrow> bool" where
  "no_active_session node d \<longleftrightarrow> list_all (\<lambda>a. \<not> (a_proxy_node_ip a = node \<and> a_status a = ''active'')) (sessions d)"

lemma cleanup_no_active:
  assumes "outages d = []" "ii ip = Some node"
  shows "no_active_session node (snd (CleanupOrphanedSessions ii ip d))"
  using assms by (simp add: CleanupOrphanedSessions_def run_stmt_up no_active_session_def set_status_def list.pred_map comp_def)
    (simp add: list_all_iff)

text \<open>The way through the start-up sequence.\<close>

lemma main_start_cases:
  assumes "main_start E v fs nets d = (Inr pr, d')"
  obtains cfg pl vc d1 where "Load (se_viper E) = Inr cfg" "db_Connect (se_sql_open E) (se_err E) cfg d = (Inr pl, d1)"
    "vault_New (se_vault_ready E) (se_vault_login E) cfg = Inr vc"
    "pr_config pr = cfg" "pr_pool pr = pl" "pr_tls pr = server_tls" "sv_vault_client (pr_server pr) = vc"
    "sv_VaultDevMode (pr_server pr) = dev_mode cfg" "sv_manager (pr_server pr) = NewConnectionManager"
    "sv_limiter (pr_server pr) = New_limiter (RateLimitPerMin cfg)" "sv_ProxyNodeIP (pr_server pr) = cfg_ProxyNodeIP cfg"
    "sv_db (pr_server pr) = snd (CleanupOrphanedSessions (se_inet_in E) (cfg_ProxyNodeIP cfg) d1)" "d' = sv_db (pr_server pr)"
proof -
  obtain cfg where cfg: "Load (se_viper E) = Inr cfg"
    using assms by (auto simp: main_start_def split: option.splits sum.splits)
  obtain rp d1 where con: "db_Connect (se_sql_open E) (se_err E) cfg d = (rp, d1)" by (rule prod.exhaust)
  obtain pl where pl: "rp = Inr pl" using assms cfg con by (auto simp: main_start_def split: option.splits sum.splits)
  obtain vc where vc: "vault_New (se_vault_ready E) (se_vault_login E) cfg = Inr vc"
    using assms cfg con pl by (auto simp: main_start_def split: option.splits sum.splits)
  show thesis
    by (rule that [OF cfg con [unfolded pl] vc])
      (use assms cfg con pl vc in \<open>auto simp: main_start_def NewTLSListener_def Let_def split: option.splits\<close>)
qed

lemma db_Connect_outcome:
  assumes "db_Connect so es cfg d = (r, d1)"
  shows "schema_ok d \<Longrightarrow> schema_ok d1" "outages d = [] \<Longrightarrow> outages d1 = []"
  using db_Connect_db [of so es cfg d] assms
  by (auto simp: db_Connect_def ping_def query_up Let_def split: option.splits sum.splits)

lemma up_Cleanup: "outages d = [] \<Longrightarrow> outages (snd (CleanupOrphanedSessions ii ip d)) = []"
  by (simp add: CleanupOrphanedSessions_def run_stmt_up set_status_def split: option.split)

lemma main_start_db:
  assumes "main_start E v fs nets d = (Inr pr, d')" "schema_ok d"
  shows "schema_ok (sv_db (pr_server pr))" "outages d = [] \<Longrightarrow> outages (sv_db (pr_server pr)) = []"
    "sv_manager (pr_server pr) = NewConnectionManager"
  using assms(1)
  by (rule main_start_cases; use assms(2) db_Connect_outcome schema_ok_Cleanup up_Cleanup in simp)+

text \<open>C21. What a process that has started guarantees: its configuration passed validation, the database
  pool is bounded, the listener speaks TLS 1.3 only, the Vault client holds the configured static token
  or one that an AppRole login returned, no session is registered for killing and no address has spent
  any of its rate; the database satisfies its constraints, and once the database answered the clean-up no
  session of this node is left active.\<close>

theorem startup_establishes:
  assumes "main_start E v fs nets d = (Inr pr, d')" "schema_ok d"
  shows "let cfg = pr_config pr; sv = pr_server pr; pl = pr_pool pr in
    valid_config cfg \<and> 1 \<le> pl_MaxOpen pl \<and> pl_MaxOpen pl \<le> 200 \<and> pl_MaxIdle pl \<le> pl_MaxOpen pl
    \<and> tc_MinVersion (pr_tls pr) = VersionTLS13 \<and> tc_MaxVersion (pr_tls pr) = VersionTLS13
    \<and> (if sv_VaultDevMode sv then vc_token (sv_vault_client sv) = VaultToken cfg
       else se_vault_login E (VaultRoleID cfg) (VaultSecretID cfg) = Inr (Auth (vc_token (sv_vault_client sv))))
    \<and> cm_sessions (sv_manager sv) = (\<lambda>_. None) \<and> limiters (sv_limiter sv) = (\<lambda>_. None)
    \<and> sv_db sv = d' \<and> schema_ok d'
    \<and> (outages d = [] \<longrightarrow> (\<forall>node. se_inet_in E (sv_ProxyNodeIP sv) = Some node \<longrightarrow> no_active_session node d'))"
proof -
  obtain cfg pl vc d1 where cfg: "Load (se_viper E) = Inr cfg" and con: "db_Connect (se_sql_open E) (se_err E) cfg d = (Inr pl, d1)"
    and vc: "vault_New (se_vault_ready E) (se_vault_login E) cfg = Inr vc"
    and pr: "pr_config pr = cfg" "pr_pool pr = pl" "pr_tls pr = server_tls" "sv_vault_client (pr_server pr) = vc"
      "sv_VaultDevMode (pr_server pr) = dev_mode cfg" "sv_manager (pr_server pr) = NewConnectionManager"
      "sv_limiter (pr_server pr) = New_limiter (RateLimitPerMin cfg)" "sv_ProxyNodeIP (pr_server pr) = cfg_ProxyNodeIP cfg"
    and db: "sv_db (pr_server pr) = snd (CleanupOrphanedSessions (se_inet_in E) (cfg_ProxyNodeIP cfg) d1)" "d' = sv_db (pr_server pr)"
    using assms(1) by (rule main_start_cases)
  have valid: "valid_config cfg" by (rule Load_valid [OF cfg])
  note pool = pool_bounded [OF con valid] and token = vault_New_token [OF vc]
  have "no_active_session node (sv_db (pr_server pr))" if "outages d = []" "se_inet_in E (cfg_ProxyNodeIP cfg) = Some node" for node
    unfolding db by (rule cleanup_no_active) (use db_Connect_outcome(2) [OF con] that in simp_all)
  then show ?thesis
    unfolding Let_def pr db(2) using valid pool token main_start_db(1) [OF assms]
    by (auto simp: server_tls_def NewConnectionManager_def New_limiter_def split: if_splits)
qed

definition demo_startup :: startup_env where
  "demo_startup = \<lparr>se_logger = None, se_viper = (\<lambda>_. Inr (demo_config\<lparr>VaultRoleID := ''r'', VaultSecretID := ''s''\<rparr>)),
     se_sql_open = (\<lambda>_. None), se_err = (\<lambda>_. []), se_vault_ready = True, se_vault_login = (\<lambda>_ _. Inr (Auth ''t'')),
     se_mkdir = (\<lambda>_. None), se_inet_in = demo_inet, se_load_pair = (\<lambda>_ _. None), se_listen = (\<lambda>_ _. None),
     se_tcp_listen = (\<lambda>_. None), se_serve = None\<rparr>"

lemma demo_starts: "\<exists>pr d'. main_start demo_startup () demo_fs (\<lambda>_. \<lparr>n_ctx_done = False, n_ssh_open = False\<rparr>) demo_sessions =
    (Inr pr :: startup_error + (unit, unit) process, d')"
  by (simp add: main_start_def demo_startup_def Load_def validate_def demo_config_def db_Connect_def ping_def query_up demo_sessions_def
      vault_New_def loginAppRole_def setToken_def NewTLSListener_def Let_def)

theorem startup_establishes_witness:
  "\<exists>pr d'. main_start demo_startup () demo_fs (\<lambda>_. \<lparr>n_ctx_done = False, n_ssh_open = False\<rparr>) demo_sessions =
    (Inr pr :: startup_error + (unit, unit) process, d')
    \<and> (let cfg = pr_config pr; sv = pr_server pr; pl = pr_pool pr in
    valid_config cfg \<and> 1 \<le> pl_MaxOpen pl \<and> pl_MaxOpen pl \<le> 200 \<and> pl_MaxIdle pl \<le> pl_MaxOpen pl
    \<and> tc_MinVersion (pr_tls pr) = VersionTLS13 \<and> tc_MaxVersion (pr_tls pr) = VersionTLS13
    \<and> (if sv_VaultDevMode sv then vc_token (sv_vault_client sv) = VaultToken cfg
       else se_vault_login demo_startup (VaultRoleID cfg) (VaultSecretID cfg) = Inr (Auth (vc_token (sv_vault_client sv))))
    \<and> cm_sessions (sv_manager sv) = (\<lambda>_. None) \<and> limiters (sv_limiter sv) = (\<lambda>_. None)
    \<and> sv_db sv = d' \<and> schema_ok d'
    \<and> (outages demo_sessions = [] \<longrightarrow> (\<forall>node. se_inet_in demo_startup (sv_ProxyNodeIP sv) = Some node \<longrightarrow> no_active_session node d')))"
proof -
  obtain pr :: "(unit, unit) process" and d' where st: "main_start demo_startup () demo_fs (\<lambda>_. \<lparr>n_ctx_done = False, n_ssh_open = False\<rparr>) demo_sessions = (Inr pr, d')"
    using demo_starts by blast
  have "schema_ok demo_sessions" by (simp add: demo_node)
  from startup_establishes [OF st this] st show ?thesis by blast
qed

text \<open>The health probe tells the load balancer exactly whether the database answers.\<close>

lemma health_exact:
  "fst (health_Handler json ts up d) =
     (''application/json'', if outages d \<noteq> [] \<and> hd (outages d)
        then \<lparr>hr_status = 503, hr_body = json \<lparr>st_Status = ''degraded'', st_Database = ''unreachable'', st_Timestamp = ts, st_Uptime = up\<rparr>\<rparr>
        else \<lparr>hr_status = 200, hr_body = json \<lparr>st_Status = ''ok'', st_Database = ''ok'', st_Timestamp = ts, st_Uptime = up\<rparr>\<rparr>)"
  by (cases "outages d") (simp_all add: health_Handler_def ping_def query_def run_stmt_def Let_def)

text \<open>The accept loop runs under a context that is never cancelled, so it does not return, not even when
  the listener is closed and every \<^verbatim>\<open>Accept\<close> fails.\<close>

lemma AcceptLoop_never_returns: "list_all (\<lambda>r. \<not> fst r) rs \<Longrightarrow> \<not> snd (AcceptLoop rs)"
  by (induction rs rule: AcceptLoop.induct) (auto simp: Let_def case_prod_unfold)

lemma AcceptLoop_serves_all: "list_all (\<lambda>r. \<not> fst r) rs \<Longrightarrow> fst (AcceptLoop rs) = [c. Inr c \<leftarrow> map snd rs]"
  by (induction rs rule: AcceptLoop.induct) (auto simp: Let_def case_prod_unfold)

end
