(* ===== verification/Zttp_System.thy ===== *)
theory Zttp_System
  imports Zttp_Console Zttp_Process
begin

text \<open>
  The server as a whole: all connections of a node, each with the handler that serves it, over one
  database, one Vault, one file system, one rate limiter, one disk guard and one kill switch.

  \<^verbatim>\<open>AcceptLoop\<close> starts one goroutine per connection. The state of such a goroutine is the point of
  \<^verbatim>\<open>handleConnection\<close> it has reached (\<open>phase\<close>); the goroutines of a bridged session keep the state of
  \<^verbatim>\<open>bridge_step\<close> apart from what they share with the others. A step of the system is one stretch of
  one goroutine: a request with its login, a visit to the menu, the authorization of a target, the
  setup of a session, a turn of a bridge, the return from it, a round of the admin console, or a tick
  of one of the background loops. Any sequence of enabled steps is a run, so all interleavings of
  these stretches are covered; in particular others may run between the authorization of a target
  and the registration of the session. What comes from outside (the bytes a peer sends, the time,
  fresh identifiers, the answers of the SSH library) is part of the event.
\<close>

subsection \<open>State\<close>

datatype phase =
  Away
| Menu User
| Wants User string bool \<comment> \<open>at the head of \<^verbatim>\<open>connectToTarget\<close>\<close>
| Granted User string AuthorizedAccess bool \<comment> \<open>after its step 5\<close>
| Bridged User bool uuid
| InConsole User bool "AdminLogger option" nat console
| Hung User \<comment> \<open>a handler that does not return\<close>
| Crashed User

record ('sg, 'b) live =
  lv_user :: User
  lv_host :: string
  lv_signer :: "'sg EphemeralSigner"
  lv_bridge :: "'b bridge"

record ('l, 'v, 'sg, 'b) system =
  sy_server :: "('l, 'v) server"
  sy_phase :: "nat \<Rightarrow> phase"
  sy_conn :: "nat \<Rightarrow> conn"
  sy_live :: "uuid \<rightharpoonup> ('sg, 'b) live"

text \<open>The libraries the handlers call, and the configuration.\<close>

record ('l, 'v, 'sg, 'b) sys_env =
  en_mk :: "int \<Rightarrow> int \<Rightarrow> 'l"
  en_lim :: "instant \<Rightarrow> 'l \<Rightarrow> bool \<times> 'l"
  en_json :: "bytes \<Rightarrow> string + ConnectRequest"
  en_req_err :: "request_error \<Rightarrow> string"
  en_bcmp :: "bytes \<Rightarrow> bytes \<Rightarrow> bool"
  en_cfg :: Config
  en_err :: "sql_error \<Rightarrow> string"
  en_kv_get :: "'v kv_getter"
  en_parse_key :: "bytes \<Rightarrow> string + 'sg"
  en_sha :: "bytes \<Rightarrow> bytes"
  en_uuid_string :: "uuid \<Rightarrow> string"
  en_nano :: "instant \<Rightarrow> string"
  en_inet_in :: "string \<Rightarrow> inet option"
  en_newLimiter :: "int \<Rightarrow> int \<Rightarrow> 'b"
  en_waitN :: "'b \<Rightarrow> nat \<Rightarrow> io_error option \<times> 'b"
  en_fold :: "rune \<Rightarrow> rune \<Rightarrow> bool"

datatype ('v, 'sg) event =
  EvConnect nat instant auth_clock string conn "('v, 'sg) console_env"
| EvMenu nat "rd list" "('v, 'sg) console_env"
| EvAuthorize nat "rd list"
| EvOpen nat "rd list" "'sg ssh_world" ssh_setup sink instant uuid
| EvBridge uuid bridge_action
| EvReturn nat "rd list"
| EvConsole nat "rd list" "('v, 'sg) console_env"
| EvSweep instant
| EvDisk "statfs option"
| EvRenew "string + login_response"

subsection \<open>Steps\<close>

text \<open>The connection with the bytes its peer sends next.\<close>

definition input :: "('l, 'v, 'sg, 'b) system \<Rightarrow> nat \<Rightarrow> rd list \<Rightarrow> conn" where
  "input s k xs = (sy_conn s k)\<lparr>c_in := xs\<rparr>"

definition goes :: "nat \<Rightarrow> phase \<Rightarrow> conn \<Rightarrow> ('l, 'v) server \<Rightarrow> ('l, 'v, 'sg, 'b) system \<Rightarrow> ('l, 'v, 'sg, 'b) system" where
  "goes k ph c sv s = s\<lparr>sy_server := sv, sy_phase := (sy_phase s)(k := ph),
     sy_conn := (sy_conn s)(k := (if ph = Away then conn_close c else c))\<rparr>"

text \<open>Where \<^verbatim>\<open>connectToTarget\<close> and the console return to: the menu loop or the end of the handler.\<close>

definition return_to :: "User \<Rightarrow> bool \<Rightarrow> phase" where
  "return_to user interactive = (if interactive then Menu user else Away)"

definition enters_console ::
  "('v, 'sg) console_env \<Rightarrow> nat \<Rightarrow> User \<Rightarrow> bool \<Rightarrow> conn \<Rightarrow> ('l, 'v) server \<Rightarrow> ('l, 'v, 'sg, 'b) system \<Rightarrow> ('l, 'v, 'sg, 'b) system" where
  "enters_console CE k user interactive c sv s =
     (let (al, sv') = console_open CE (usr_Username user) sv
      in goes k (InConsole user interactive al 1 console_init) c sv' s)"

definition sys_connect ::
  "('l, 'v, 'sg, 'b) sys_env \<Rightarrow> nat \<Rightarrow> instant \<Rightarrow> auth_clock \<Rightarrow> string \<Rightarrow> conn \<Rightarrow> ('v, 'sg) console_env \<Rightarrow>
   ('l, 'v, 'sg, 'b) system \<Rightarrow> ('l, 'v, 'sg, 'b) system" where
  "sys_connect E k now clk addr c CE s =
     (case handleConnection (en_mk E) (en_lim E) (en_json E) (en_req_err E) (en_bcmp E) (en_cfg E) now clk addr c (sy_server s) of
        (Refused, c', sv) \<Rightarrow> goes k Away c' sv s
      | (ToAdminConsole user, c', sv) \<Rightarrow> enters_console CE k user False c' sv s
      | (ToGateway user, c', sv) \<Rightarrow> goes k (Menu user) c' sv s
      | (ToTarget user target, c', sv) \<Rightarrow> goes k (Wants user target False) c' sv s)"

definition sys_menu ::
  "('l, 'v, 'sg, 'b) sys_env \<Rightarrow> nat \<Rightarrow> rd list \<Rightarrow> ('v, 'sg) console_env \<Rightarrow> User \<Rightarrow>
   ('l, 'v, 'sg, 'b) system \<Rightarrow> ('l, 'v, 'sg, 'b) system" where
  "sys_menu E k xs CE user s =
     (let sv = sy_server s; (nx, c', d) = gateway_round (en_err E) user (input s k xs) (sv_db sv); sv' = sv\<lparr>sv_db := d\<rparr> in
      case nx of
        GatewayLeft \<Rightarrow> goes k Away c' sv' s
      | GatewayAdmin u \<Rightarrow> enters_console CE k u True c' sv' s
      | GatewayTarget u target \<Rightarrow> goes k (Wants u target True) c' sv' s)"

definition sys_authorize ::
  "nat \<Rightarrow> rd list \<Rightarrow> User \<Rightarrow> string \<Rightarrow> bool \<Rightarrow> ('l, 'v, 'sg, 'b) system \<Rightarrow> ('l, 'v, 'sg, 'b) system" where
  "sys_authorize k xs user target interactive s =
     (let sv = sy_server s; c = input s k xs in
      case Authorize (usr_ID user) (usr_Role user) target (sv_db sv) of
        (Inl e, d) \<Rightarrow> goes k (return_to user interactive) (deny rbac_denied interactive c) (sv\<lparr>sv_db := d\<rparr>) s
      | (Inr acc, d) \<Rightarrow> goes k (Granted user target acc interactive) c (sv\<lparr>sv_db := d\<rparr>) s)"

definition sys_open ::
  "('l, 'v, 'sg, 'b) sys_env \<Rightarrow> nat \<Rightarrow> rd list \<Rightarrow> 'sg ssh_world \<Rightarrow> ssh_setup \<Rightarrow> sink \<Rightarrow> instant \<Rightarrow> uuid \<Rightarrow>
   User \<Rightarrow> string \<Rightarrow> AuthorizedAccess \<Rightarrow> bool \<Rightarrow> ('l, 'v, 'sg, 'b) system \<Rightarrow> ('l, 'v, 'sg, 'b) system" where
  "sys_open E k xs net ssh backendStdin now sid user target acc interactive s =
     (case connect_granted (en_kv_get E) (en_parse_key E) (en_sha E) net (en_uuid_string E) (en_nano E) (en_inet_in E) (en_newLimiter E)
             ssh backendStdin now sid user acc interactive (input s k xs) (sy_server s) of
        (Inl _, c', sv) \<Rightarrow> goes k (return_to user interactive) c' sv s
      | (Inr (signer, b), c', sv) \<Rightarrow>
          (goes k (Bridged user interactive sid) c' (sv\<lparr>sv_manager := b_manager b, sv_nets := b_nets b\<rparr>) s)
            \<lparr>sy_live := (sy_live s)(sid \<mapsto> \<lparr>lv_user = user, lv_host = target, lv_signer = signer, lv_bridge = b\<rparr>)\<rparr>)"

text \<open>A bridge works on the shared database, files, kill switch and connections.\<close>

definition attach :: "('l, 'v) server \<Rightarrow> 'b bridge \<Rightarrow> 'b bridge" where
  "attach sv b = b\<lparr>b_nets := sv_nets sv, b_fs := sv_fs sv, b_db := sv_db sv, b_manager := sv_manager sv\<rparr>"

definition detach :: "'b bridge \<Rightarrow> ('l, 'v) server \<Rightarrow> ('l, 'v) server" where
  "detach b sv = sv\<lparr>sv_nets := b_nets b, sv_fs := b_fs b, sv_db := b_db b, sv_manager := b_manager b\<rparr>"

definition sys_bridge ::
  "('l, 'v, 'sg, 'b) sys_env \<Rightarrow> uuid \<Rightarrow> bridge_action \<Rightarrow> ('sg, 'b) live \<Rightarrow> ('l, 'v, 'sg, 'b) system \<Rightarrow> ('l, 'v, 'sg, 'b) system option" where
  "sys_bridge E sid a l s =
     map_option (\<lambda>b. s\<lparr>sy_server := detach b (sy_server s), sy_live := (sy_live s)(sid \<mapsto> l\<lparr>lv_bridge := b\<rparr>)\<rparr>)
       (bridge_step (en_fold E) (en_waitN E) (en_sha E) a (attach (sy_server s) (lv_bridge l)))"

text \<open>The return from the bridge; the client's connection carries on where the session left it.\<close>

definition sys_return ::
  "('l, 'v, 'sg, 'b) sys_env \<Rightarrow> nat \<Rightarrow> rd list \<Rightarrow> User \<Rightarrow> bool \<Rightarrow> ('sg, 'b) live \<Rightarrow> string + unit \<Rightarrow>
   ('l, 'v, 'sg, 'b) system \<Rightarrow> ('l, 'v, 'sg, 'b) system" where
  "sys_return E k xs user interactive l res s =
     (let b = lv_bridge l;
          (c', sv) = connect_finish (en_sha E) res interactive (lv_signer l) (b_writer b) ((input s k xs)\<lparr>c_out := b_client b\<rparr>) (sy_server s)
      in goes k (return_to user interactive) c' sv s)"

definition sys_console ::
  "nat \<Rightarrow> rd list \<Rightarrow> ('v, 'sg) console_env \<Rightarrow> User \<Rightarrow> bool \<Rightarrow> AdminLogger option \<Rightarrow> nat \<Rightarrow> console \<Rightarrow>
   ('l, 'v, 'sg, 'b) system \<Rightarrow> ('l, 'v, 'sg, 'b) system" where
  "sys_console k xs CE user interactive al n co s =
     (case console_turn CE (usr_Username user) al n co (sy_server s) (input s k xs) of
        (Inr co', sv, c') \<Rightarrow> goes k (InConsole user interactive al (n + 1) co') c' sv s
      | (Inl x, sv, c') \<Rightarrow>
          goes k (case x of ConsolePanicked \<Rightarrow> Crashed user | ConsoleHung \<Rightarrow> Hung user | _ \<Rightarrow> return_to user interactive)
            c' (console_close CE (usr_Username user) al x sv) s)"

fun system_step ::
  "('l, 'v, 'sg, 'b) sys_env \<Rightarrow> ('v, 'sg) event \<Rightarrow> ('l, 'v, 'sg, 'b) system \<Rightarrow> ('l, 'v, 'sg, 'b) system option" where
  "system_step E (EvConnect k now clk addr c CE) s =
     (if sy_phase s k = Away then Some (sys_connect E k now clk addr c CE s) else None)"
| "system_step E (EvMenu k xs CE) s =
     (case sy_phase s k of Menu user \<Rightarrow> Some (sys_menu E k xs CE user s) | _ \<Rightarrow> None)"
| "system_step E (EvAuthorize k xs) s =
     (case sy_phase s k of Wants user target interactive \<Rightarrow> Some (sys_authorize k xs user target interactive s) | _ \<Rightarrow> None)"
| "system_step E (EvOpen k xs net ssh stdin now sid) s =
     (case sy_phase s k of
        Granted user target acc interactive \<Rightarrow> Some (sys_open E k xs net ssh stdin now sid user target acc interactive s)
      | _ \<Rightarrow> None)"
| "system_step E (EvBridge sid a) s =
     (case sy_live s sid of Some l \<Rightarrow> sys_bridge E sid a l s | None \<Rightarrow> None)"
| "system_step E (EvReturn k xs) s =
     (case sy_phase s k of
        Bridged user interactive sid \<Rightarrow>
          (case sy_live s sid of
             Some l \<Rightarrow> (case b_main (lv_bridge l) of MainDone res \<Rightarrow> Some (sys_return E k xs user interactive l res s) | _ \<Rightarrow> None)
           | None \<Rightarrow> None)
      | _ \<Rightarrow> None)"
| "system_step E (EvConsole k xs CE) s =
     (case sy_phase s k of
        InConsole user interactive al n co \<Rightarrow> Some (sys_console k xs CE user interactive al n co s) | _ \<Rightarrow> None)"
| "system_step E (EvSweep now) s =
     Some (s\<lparr>sy_server := (sy_server s)\<lparr>sv_limiter := Cleanup now (sv_limiter (sy_server s))\<rparr>\<rparr>)"
| "system_step E (EvDisk st) s =
     Some (s\<lparr>sy_server := (sy_server s)\<lparr>sv_guard := monitor st (sv_guard (sy_server s))\<rparr>\<rparr>)"
| "system_step E (EvRenew r) s =
     (if vc_renews (sv_vault_client (sy_server s))
      then Some (s\<lparr>sy_server := (sy_server s)\<lparr>sv_vault_client := renewLoop [r] (sv_vault_client (sy_server s))\<rparr>\<rparr>) else None)"

definition sys_init :: "('l, 'v) process \<Rightarrow> ('l, 'v, 'sg, 'b) system" where
  "sys_init pr = \<lparr>sy_server = pr_server pr, sy_phase = (\<lambda>_. Away),
     sy_conn = (\<lambda>_. \<lparr>c_in = [], c_out = empty_sink, c_deadline = False, c_closed = True\<rparr>), sy_live = Map.empty\<rparr>"

subsection \<open>What a step does to the database\<close>

text \<open>Who exists, who may reach what, and which sessions were registered for whom.\<close>

definition identities :: "db \<Rightarrow> User set" where
  "identities d = (\<lambda>r. \<lparr>usr_ID = u_id r, usr_Username = u_username r, usr_Role = u_role r\<rparr>) ` set (users d)"

definition can_reach :: "db \<Rightarrow> uuid \<Rightarrow> string \<Rightarrow> string \<Rightarrow> bool" where
  "can_reach d uid role host \<longleftrightarrow> (\<exists>s \<in> set (servers d). s_hostname s = host \<and> uid \<in> u_id ` set (users d) \<and> may_access d uid role s)"

definition registered :: "db \<Rightarrow> (uuid \<times> uuid) set" where
  "registered d = (\<lambda>a. (a_session_id a, a_user_id a)) ` set (sessions d)"

lemma registered_set: "registered d = set (map (\<lambda>a. (a_session_id a, a_user_id a)) (sessions d))"
  by (simp add: registered_def)

definition placed :: "db \<Rightarrow> (uuid \<times> inet) set" where
  "placed d = (\<lambda>a. (a_session_id a, a_proxy_node_ip a)) ` set (sessions d)"

lemma placed_set: "placed d = set (map (\<lambda>a. (a_session_id a, a_proxy_node_ip a)) (sessions d))"
  by (simp add: placed_def)

text \<open>Every step keeps the schema, the identities, the registered sessions with their nodes and a database that is up;
  the steps outside the console keep the rights as well, and the status of all sessions but those of \<open>S\<close>.\<close>

definition db_grows :: "db \<Rightarrow> db \<Rightarrow> bool" where
  "db_grows d d' \<longleftrightarrow> (schema_ok d \<longrightarrow> schema_ok d') \<and> identities d \<subseteq> identities d' \<and> registered d \<subseteq> registered d'
     \<and> placed d \<subseteq> placed d'
     \<and> (outages d = [] \<longrightarrow> outages d' = [])"

definition same_rights :: "db \<Rightarrow> db \<Rightarrow> bool" where
  "same_rights d d' \<longleftrightarrow> identities d' = identities d \<and> can_reach d' = can_reach d"

definition db_served :: "uuid set \<Rightarrow> db \<Rightarrow> db \<Rightarrow> bool" where
  "db_served S d d' \<longleftrightarrow> db_grows d d' \<and> same_rights d d'
     \<and> (\<forall>k. k \<notin> S \<longrightarrow> status_of d k \<noteq> None \<longrightarrow> status_of d' k = status_of d k)"

lemma db_served_refl [simp]: "db_served S d d"
  by (simp add: db_served_def db_grows_def same_rights_def)

lemma db_served_trans: "db_served S d e \<Longrightarrow> db_served S e f \<Longrightarrow> db_served S d f"
  unfolding db_served_def db_grows_def same_rights_def by (simp, blast)

lemma db_served_sessions:
  assumes "schema_ok d \<longrightarrow> schema_ok (d\<lparr>sessions := ss\<rparr>)" "registered d \<subseteq> registered (d\<lparr>sessions := ss\<rparr>)"
    and "placed d \<subseteq> placed (d\<lparr>sessions := ss\<rparr>)"
    and "\<And>k. k \<notin> S \<Longrightarrow> status_of d k \<noteq> None \<Longrightarrow> status_of (d\<lparr>sessions := ss\<rparr>) k = status_of d k"
  shows "db_served S d (d\<lparr>sessions := ss\<rparr>)"
  using assms by (simp add: db_served_def db_grows_def same_rights_def identities_def can_reach_def may_access_def fun_eq_iff)

lemma db_served_outages: "outages d = x # xs \<Longrightarrow> db_served S d (d\<lparr>outages := ys\<rparr>)"
  by (simp add: db_served_def db_grows_def same_rights_def identities_def can_reach_def may_access_def registered_def placed_def status_of_def fun_eq_iff)

lemma db_served_stmt: "(\<And>e. db_served S e (snd (f e))) \<Longrightarrow> db_served S d (snd (run_stmt f d))"
  by (auto simp: run_stmt_def intro: db_served_outages db_served_trans [OF db_served_outages] split: list.split)

lemma db_served_query: "db_served S d (snd (query q d))"
  unfolding query_def by (rule db_served_stmt) simp

lemma db_served_Terminate: "db_served {sid} d (snd (Terminate sid st d))"
  unfolding Terminate_def
proof (rule db_served_stmt)
  fix e :: db
  let ?ss = "map (\<lambda>a. if a_session_id a = sid then a\<lparr>a_status := st\<rparr> else a) (sessions e)"
  have "schema_ok e \<longrightarrow> schema_ok (set_status (\<lambda>a. a_session_id a = sid) st e)"
    if "\<not> (st \<notin> session_statuses \<and> sid \<in> a_session_id ` set (sessions e))"
    using that by (intro impI schema_ok_set_status) auto
  moreover have keys: "map (\<lambda>a. (a_session_id a, a_user_id a)) ?ss = map (\<lambda>a. (a_session_id a, a_user_id a)) (sessions e)" by simp
  have new: "sessions (e\<lparr>sessions := ?ss\<rparr>) = ?ss" by simp
  have "registered (e\<lparr>sessions := ?ss\<rparr>) = registered e" by (simp only: registered_set new keys)
  moreover have nodes: "map (\<lambda>a. (a_session_id a, a_proxy_node_ip a)) ?ss = map (\<lambda>a. (a_session_id a, a_proxy_node_ip a)) (sessions e)" by simp
  have "placed (e\<lparr>sessions := ?ss\<rparr>) = placed e" by (simp only: placed_set new nodes)
  moreover have "status_of (e\<lparr>sessions := ?ss\<rparr>) k = status_of e k" if "k \<noteq> sid" for k
    using find_map_status [of k sid st "sessions e"] that by (simp add: status_of_def)
  ultimately show "db_served {sid} e (snd (if st \<notin> session_statuses \<and> sid \<in> a_session_id ` set (sessions e) then (Inl ConstraintViolation, e)
      else (Inr (), set_status (\<lambda>a. a_session_id a = sid) st e)))"
    using db_served_sessions [of e ?ss "{sid}"] by (simp add: set_status_def)
qed

lemma find_append_Some: "find P xs = Some x \<Longrightarrow> find P (xs @ ys) = Some x"
  by (induction xs) (auto split: if_splits)

lemma status_of_append: "status_of d k = Some st \<Longrightarrow> status_of (d\<lparr>sessions := sessions d @ ss\<rparr>) k = Some st"
  by (auto simp: status_of_def dest: find_append_Some)

lemma db_served_Register: "db_served {} d (snd (Register ii now sid uid srv ip d))"
  unfolding Register_def
  by (rule db_served_stmt)
    (auto split: option.split intro!: db_served_sessions simp: registered_def placed_def status_of_append, auto simp: schema_ok_def)

lemma auth_frame_served:
  assumes "auth_frame name d d'" "outages d = [] \<longrightarrow> outages d' = []"
  shows "db_served {} d d'"
proof -
  have "map (\<lambda>r. \<lparr>usr_ID = u_id r, usr_Username = u_username r, usr_Role = u_role r\<rparr>) (users d') =
      map (\<lambda>r. \<lparr>usr_ID = u_id r, usr_Username = u_username r, usr_Role = u_role r\<rparr>) (users d)"
    using assms(1) by (auto simp: auth_frame_def same_identity_def list_all2_conv_all_nth list_eq_iff_nth_eq)
  then have "identities d' = identities d" unfolding identities_def by (metis set_map)
  moreover have "can_reach d' = can_reach d"
    using may_access_view [OF auth_frame_view [OF assms(1), unfolded same_rbac_view_def]] assms(1)
    by (simp add: can_reach_def auth_frame_def fun_eq_iff)
  ultimately show ?thesis
    using assms auth_frame_schema [OF assms(1)] by (simp add: db_served_def db_grows_def same_rights_def auth_frame_def registered_def placed_def status_of_def)
qed

subsection \<open>What the handlers do\<close>

lemma up_Authenticate: "outages d = [] \<Longrightarrow> outages (ao_db (Authenticate bcmp cfg clk d name pw)) = []"
  by (auto simp: Authenticate_def select_user_def query_up atomicIncrementAndMaybeLock_def update_failed_def reset_failed_def run_stmt_up
      Let_def split: sum.splits prod.split sql_error.split list.splits option.splits if_splits)

text \<open>The handler up to where it goes on: it touches the rate limiter and the rows that a login may touch.\<close>

lemma handleConnection_serves:
  assumes "handleConnection mk lim json_dec req_err bcmp cfg now clk addr c sv = (rt, c', sv')" "schema_ok (sv_db sv)"
  shows "db_served {} (sv_db sv) (sv_db sv')" "sv_manager sv' = sv_manager sv" "sv_nets sv' = sv_nets sv"
    and "rt \<in> {ToAdminConsole u, ToGateway u, ToTarget u t} \<Longrightarrow> u \<in> identities (sv_db sv)"
    and "rt = ToAdminConsole u \<Longrightarrow> usr_Role u = ''security-admin''"
proof -
  have served: "db_served {} (sv_db sv) (ao_db (Authenticate bcmp cfg clk (sv_db sv) name pw))" for name pw
    by (rule auth_frame_served [OF auth_frame_Authenticate [OF assms(2)]]) (use up_Authenticate in blast)
  have ident: "u \<in> identities (sv_db sv)" if "ao_result (Authenticate bcmp cfg clk (sv_db sv) name pw) = Inr u" for name pw u
    using Authenticate_Inr [OF that] by (auto simp: identities_def)
  show "db_served {} (sv_db sv) (sv_db sv')" "sv_manager sv' = sv_manager sv" "sv_nets sv' = sv_nets sv"
    "rt \<in> {ToAdminConsole u, ToGateway u, ToTarget u t} \<Longrightarrow> u \<in> identities (sv_db sv)"
    "rt = ToAdminConsole u \<Longrightarrow> usr_Role u = ''security-admin''"
    using assms(1) served ident
    by (auto simp: handleConnection_def Let_def split: prod.splits if_splits sum.splits)
qed

lemma handleGatewayMenu_serves: "db_served {} d (snd (snd (handleGatewayMenu es uid role c d)))"
proof -
  have "snd (snd (handleGatewayMenu es uid role c d)) = snd (query (\<lambda>d. Inr (accessible_rows d uid) :: sql_error + gatewayServerOption list) d)"
    by (auto simp: handleGatewayMenu_def queryAccessibleServers_def split: sum.split prod.split)
  then show ?thesis using db_served_query by simp
qed

text \<open>The menu leads into the console only an administrator, or a user who may reach a server of that name.\<close>

lemma handleGatewayMenu_selects:
  assumes "handleGatewayMenu es (usr_ID u) (usr_Role u) c d = (Selected admin_console_name, c', d')" "schema_ok d" "u \<in> identities d"
  shows "usr_Role u = ''security-admin'' \<or> can_reach d (usr_ID u) (usr_Role u) admin_console_name"
proof -
  obtain r where r: "r \<in> set (users d)" "usr_ID u = u_id r" "usr_Role u = u_role r" using assms(3) by (auto simp: identities_def)
  obtain opts d1 where q: "queryAccessibleServers (usr_ID u) (usr_Role u) d = (Inr opts, d1)"
    and sel: "fst (gateway_loop opts 0 c) = Selected admin_console_name"
    using assms(1) by (auto simp: handleGatewayMenu_def split: sum.splits prod.splits)
  obtain rows d2 where qq: "query (\<lambda>d. Inr (accessible_rows d (usr_ID u)) :: sql_error + gatewayServerOption list) d = (Inr rows, d2)"
    and opts: "opts = (if usr_Role u = ''security-admin'' then [\<lparr>go_hostname = admin_console_name, go_environment = ''system''\<rparr>] else []) @ rows"
    using q by (auto simp: queryAccessibleServers_def Let_def split: sum.splits prod.splits)
  have "accessible_rows (d\<lparr>outages := ys\<rparr>) x = accessible_rows d x" for ys x by (simp add: accessible_rows_def)
  then have rows: "rows = accessible_rows d (u_id r)" using query_Inr [OF qq] r(2) by auto
  have "admin_console_name \<in> go_hostname ` set opts"
    using gateway_loop_result [of 0 opts c] sel by auto
  then show ?thesis
    using rows opts accessible_set [OF assms(2) r(1)] r by (auto simp: can_reach_def intro: sym split: if_splits)
qed

lemma Authorize_serves: "db_served {} d (snd (Authorize uid role host d))"
proof -
  have "snd (Authorize uid role host d) = snd (select_access role host uid d)"
    by (auto simp: Authorize_def split: prod.split sum.split sql_error.split)
  then show ?thesis unfolding select_access_def by (simp add: db_served_query)
qed

lemma Authorize_can_reach:
  "Authorize uid role host d = (Inr acc, d') \<Longrightarrow> schema_ok d \<Longrightarrow> can_reach d uid role host"
  using Authorize_Inr [of uid role host d acc d'] by (auto simp: can_reach_def)

lemma Bridge_start_serves:
  "Bridge_start ii nl ssh now cfg stdin cl w cm fs d = Inl (e, d') \<Longrightarrow> db_served {} d d'"
  "Bridge_start ii nl ssh now cfg stdin cl w cm fs d = Inr b \<Longrightarrow> db_served {} d (b_db b)"
  using db_served_Register [of d ii now "bc_SessionID cfg" "bc_UserID cfg" "bc_ServerID cfg" "bc_ProxyNodeIP cfg"]
  by (auto simp: Bridge_start_def split: if_splits sum.splits prod.splits)

lemma connect_granted_fails:
  assumes "connect_granted kv_get parse_key sha net us nano ii nl ssh stdin now sid user acc i c sv = (Inl x, c', sv')"
  shows "db_served {} (sv_db sv) (sv_db sv')" "sv_manager sv' = sv_manager sv" "sv_nets sv' = sv_nets sv"
  using assms Bridge_start_serves(1)
  by (auto simp: connect_granted_def Let_def split: sum.splits prod.splits if_splits option.splits)

text \<open>A new session: its row is fresh and belongs to the user, its handle is registered and its loops run.\<close>

lemma Bridge_start_opens:
  assumes "Bridge_start ii nl ssh now cfg stdin cl w cm fs d = Inr b"
  shows "b_SessionID b = bc_SessionID cfg" "b_main b = MainBlocked"
    "b_manager b = cm_Register (bc_SessionID cfg) (session_handle (bc_SessionID cfg)) cm"
    "b_nets b = w(bc_SessionID cfg := \<lparr>n_ctx_done = False, n_ssh_open = True\<rparr>)"
    "bc_SessionID cfg \<notin> fst ` registered d" "(bc_SessionID cfg, bc_UserID cfg) \<in> registered (b_db b)"
    "\<exists>node. ii (IP_String (bc_ProxyNodeIP cfg)) = Some node \<and> (bc_SessionID cfg, node) \<in> placed (b_db b)"
  using assms
  by (auto simp: Bridge_start_def Register_def run_stmt_def registered_def placed_def image_image
      split: if_splits sum.splits prod.splits option.splits list.splits)

lemma Bridge_start_inv:
  assumes "Bridge_start ii nl ssh now cfg stdin cl w cm fs d = Inr b"
  shows "schema_ok d \<Longrightarrow> outages d = [] \<Longrightarrow> bridge_inv b" "b_fs b = fs"
proof -
  obtain d1 where reg: "Register ii now (bc_SessionID cfg) (bc_UserID cfg) (bc_ServerID cfg) (bc_ProxyNodeIP cfg) d = (Inr (), d1)"
    using assms by (auto simp: Bridge_start_def split: if_splits sum.splits prod.splits)
  show "b_fs b = fs" using assms reg by (auto simp: Bridge_start_def split: if_splits)
  assume d: "schema_ok d" "outages d = []"
  then have "schema_ok d1" "outages d1 = []"
    using schema_ok_Register [OF d(1)] up_Register [OF d(2)] reg by (metis snd_conv)+
  moreover have "status_of d1 (bc_SessionID cfg) \<noteq> None"
    using reg d(2) by (auto simp: Register_def run_stmt_up status_of_def find_None_iff split: option.splits if_splits)
  ultimately show "bridge_inv b" using assms reg
    by (auto simp: Bridge_start_def bridge_inv_def session_status_def cm_Register_def maxMiss_def split: if_splits)
qed

text \<open>A turn of a bridge writes the status of its own session, its handle and its connection only.\<close>

lemma bridge_step_frame:
  assumes "bridge_step sf waitN sha a b = Some b'"
  shows "b_SessionID b' = b_SessionID b" "db_served {b_SessionID b} (b_db b) (b_db b')"
    "k \<noteq> b_SessionID b \<Longrightarrow> handles_ok (b_manager b) \<Longrightarrow> cm_sessions (b_manager b') k = cm_sessions (b_manager b) k"
    "k \<noteq> b_SessionID b \<Longrightarrow> handles_ok (b_manager b) \<Longrightarrow> b_nets b' k = b_nets b k"
    "cm_sessions (b_manager b') (b_SessionID b) \<in> {None, cm_sessions (b_manager b) (b_SessionID b)}"
    "b_main b' = MainDone r \<Longrightarrow> b_main b = MainDone r \<or> cm_sessions (b_manager b') (b_SessionID b) = None"
    "b_main b = MainDone r \<Longrightarrow> b_main b' = MainDone r"
proof -
  have kill: "h = session_handle (b_SessionID b)" if "handles_ok (b_manager b)" "cm_sessions (b_manager b) (b_SessionID b) = Some h" for h
    using that by (simp add: handles_ok_def)
  show "b_SessionID b' = b_SessionID b" "db_served {b_SessionID b} (b_db b) (b_db b')"
    "k \<noteq> b_SessionID b \<Longrightarrow> handles_ok (b_manager b) \<Longrightarrow> cm_sessions (b_manager b') k = cm_sessions (b_manager b) k"
    "cm_sessions (b_manager b') (b_SessionID b) \<in> {None, cm_sessions (b_manager b) (b_SessionID b)}"
    "b_main b' = MainDone r \<Longrightarrow> b_main b = MainDone r \<or> cm_sessions (b_manager b') (b_SessionID b) = None"
    "b_main b = MainDone r \<Longrightarrow> b_main b' = MainDone r"
    using assms db_served_Terminate
    by (cases a; auto simp: keepalive_tick_def close_ssh_def bridge_finish_def cm_Terminate_def cm_Deregister_def Let_def case_prod_beta
      split: if_splits option.splits sum.splits keepalive.splits)+
  show "k \<noteq> b_SessionID b \<Longrightarrow> handles_ok (b_manager b) \<Longrightarrow> b_nets b' k = b_nets b k"
    using assms kill
    by (cases a; auto simp: keepalive_tick_def close_ssh_def bridge_finish_def cm_Terminate_def session_handle_def Let_def case_prod_beta
      split: if_splits option.splits sum.splits keepalive.splits)
qed

subsection \<open>The invariant\<close>

fun who :: "phase \<Rightarrow> User option" where
  "who Away = None"
| "who (Menu u) = Some u"
| "who (Wants u t i) = Some u"
| "who (Granted u t acc i) = Some u"
| "who (Bridged u i sid) = Some u"
| "who (InConsole u i al n co) = Some u"
| "who (Hung u) = Some u"
| "who (Crashed u) = Some u"

fun place_ok :: "(uuid \<rightharpoonup> ('sg, 'b) live) \<Rightarrow> phase \<Rightarrow> bool" where
  "place_ok lv (InConsole u i al n co) = console_ok co"
| "place_ok lv (Bridged u i sid) = (\<exists>l. lv sid = Some l \<and> lv_user l = u)"
| "place_ok lv (Crashed u) = False"
| "place_ok lv _ = True"

definition phase_ok :: "db \<Rightarrow> (uuid \<rightharpoonup> ('sg, 'b) live) \<Rightarrow> phase \<Rightarrow> bool" where
  "phase_ok d lv ph \<longleftrightarrow> set_option (who ph) \<subseteq> identities d \<and> place_ok lv ph"

definition running :: "'b bridge \<Rightarrow> bool" where
  "running b \<longleftrightarrow> (\<forall>r. b_main b \<noteq> MainDone r)"

text \<open>Every identity a handler acts under is an account; every session has its row, under its user; every
  handle of the kill switch belongs to a session that is running.\<close>

definition live_ok :: "db \<Rightarrow> uuid \<Rightarrow> ('sg, 'b) live \<Rightarrow> bool" where
  "live_ok d sid l \<longleftrightarrow> b_SessionID (lv_bridge l) = sid \<and> (sid, usr_ID (lv_user l)) \<in> registered d \<and> lv_user l \<in> identities d"

definition sys_inv :: "('l, 'v, 'sg, 'b) system \<Rightarrow> bool" where
  "sys_inv s \<longleftrightarrow> schema_ok (sv_db (sy_server s)) \<and> handles_ok (sv_manager (sy_server s))
     \<and> (\<forall>k. phase_ok (sv_db (sy_server s)) (sy_live s) (sy_phase s k))
     \<and> (\<forall>sid l. sy_live s sid = Some l \<longrightarrow> live_ok (sv_db (sy_server s)) sid l)
     \<and> (\<forall>sid. cm_sessions (sv_manager (sy_server s)) sid \<noteq> None \<longrightarrow> (\<exists>l. sy_live s sid = Some l \<and> running (lv_bridge l)))"

lemma phase_ok_mono: "phase_ok d lv ph \<Longrightarrow> db_grows d d' \<Longrightarrow> phase_ok d' lv ph"
  by (auto simp: phase_ok_def db_grows_def)

lemma live_ok_mono: "live_ok d sid l \<Longrightarrow> db_grows d d' \<Longrightarrow> live_ok d' sid l"
  by (auto simp: live_ok_def db_grows_def)

lemma db_served_grows: "db_served S d d' \<Longrightarrow> db_grows d d'"
  by (simp add: db_served_def)

lemma goes_fields [simp]:
  "sy_server (goes k ph c sv s) = sv" "sy_live (goes k ph c sv s) = sy_live s"
  "sy_phase (goes k ph c sv s) = (sy_phase s)(k := ph)"
  by (simp_all add: goes_def)

lemma goes_inv:
  assumes "sys_inv s" "db_grows (sv_db (sy_server s)) (sv_db sv)" "phase_ok (sv_db sv) (sy_live s) ph"
    and "handles_ok (sv_manager sv)"
    and "\<And>sid. cm_sessions (sv_manager sv) sid \<noteq> None \<Longrightarrow> cm_sessions (sv_manager (sy_server s)) sid \<noteq> None"
  shows "sys_inv (goes k ph c sv s)"
proof -
  have "schema_ok (sv_db sv)" using assms(1,2) by (simp add: sys_inv_def db_grows_def)
  then show ?thesis
    using assms(1,3-5) unfolding sys_inv_def
    by (auto intro: phase_ok_mono [OF _ assms(2)] live_ok_mono [OF _ assms(2)])
qed

lemma same_manager: "sys_inv s \<Longrightarrow> sv_manager sv = sv_manager (sy_server s) \<Longrightarrow> handles_ok (sv_manager sv)"
  by (simp add: sys_inv_def)

lemma inv_user: "sys_inv s \<Longrightarrow> who (sy_phase s k) = Some u \<Longrightarrow> u \<in> identities (sv_db (sy_server s))"
  unfolding sys_inv_def phase_ok_def by (metis option.set_intros subsetD)

lemma return_to_ok: "u \<in> identities d \<Longrightarrow> phase_ok d lv (return_to u i)"
  by (simp add: phase_ok_def return_to_def)

lemma enters_console_inv:
  assumes "sys_inv s" "db_grows (sv_db (sy_server s)) (sv_db sv)" "u \<in> identities (sv_db sv)" "sv_manager sv = sv_manager (sy_server s)"
  shows "sys_inv (enters_console CE k u i c sv s)"
proof -
  obtain al sv' where op: "console_open CE (usr_Username u) sv = (al, sv')" by (rule prod.exhaust)
  then have "node sv' = node sv" using node_open_close(1) [of CE "usr_Username u" sv] by simp
  then show ?thesis unfolding enters_console_def op Let_def prod.case
    using assms by (intro goes_inv) (auto simp: node_def phase_ok_def console_init_ok sys_inv_def)
qed

lemma sys_connect_inv:
  assumes "sys_inv s"
  shows "sys_inv (sys_connect E k now clk addr c CE s)"
proof -
  let ?sv = "sy_server s"
  obtain rt c' sv where h: "handleConnection (en_mk E) (en_lim E) (en_json E) (en_req_err E) (en_bcmp E) (en_cfg E) now clk addr c ?sv = (rt, c', sv)"
    by (rule prod_cases3)
  have "schema_ok (sv_db ?sv)" using assms by (simp add: sys_inv_def)
  note hc = handleConnection_serves [OF h this]
  have g: "db_grows (sv_db ?sv) (sv_db sv)" and i: "identities (sv_db sv) = identities (sv_db ?sv)"
    using hc(1) by (simp_all add: db_served_def same_rights_def)
  show ?thesis
    using assms hc(2) hc(4) i
    by (cases rt) (auto simp: sys_connect_def h phase_ok_def intro!: goes_inv enters_console_inv g same_manager)
qed

text \<open>Another server state that has grown from the present one.\<close>

lemma server_inv:
  assumes "sys_inv s" "db_grows (sv_db (sy_server s)) (sv_db sv)" "sv_manager sv = sv_manager (sy_server s)"
  shows "sys_inv (s\<lparr>sy_server := sv\<rparr>)"
proof -
  have "schema_ok (sv_db sv)" using assms(1,2) by (simp add: sys_inv_def db_grows_def)
  then show ?thesis
    using assms(1,3) unfolding sys_inv_def
    by (auto intro: phase_ok_mono [OF _ assms(2)] live_ok_mono [OF _ assms(2)])
qed

lemma sys_menu_inv:
  assumes "sys_inv s" "sy_phase s k = Menu u"
  shows "sys_inv (sys_menu E k xs CE u s)"
proof -
  let ?sv = "sy_server s"
  obtain x c' d where h: "handleGatewayMenu (en_err E) (usr_ID u) (usr_Role u) (input s k xs) (sv_db ?sv) = (x, c', d)"
    by (rule prod_cases3)
  have served: "db_served {} (sv_db ?sv) d" using handleGatewayMenu_serves [of "sv_db ?sv" "en_err E"] h by (metis snd_conv)
  have "u \<in> identities (sv_db ?sv)" by (rule inv_user [OF assms(1), of k]) (simp add: assms(2))
  then have u: "u \<in> identities d" using served by (simp add: db_served_def same_rights_def)
  show ?thesis
    using assms(1) u db_served_grows [OF served]
    by (cases x) (auto simp: sys_menu_def gateway_round_def h Let_def phase_ok_def intro!: goes_inv enters_console_inv same_manager)
qed

lemma sys_authorize_inv:
  assumes "sys_inv s" "sy_phase s k = Wants u t i"
  shows "sys_inv (sys_authorize k xs u t i s)"
proof -
  let ?sv = "sy_server s"
  obtain x d where h: "Authorize (usr_ID u) (usr_Role u) t (sv_db ?sv) = (x, d)" by (rule prod.exhaust)
  have served: "db_served {} (sv_db ?sv) d" using Authorize_serves [of "sv_db ?sv"] h by (metis snd_conv)
  have "u \<in> identities (sv_db ?sv)" by (rule inv_user [OF assms(1), of k]) (simp add: assms(2))
  then have u: "u \<in> identities d" using served by (simp add: db_served_def same_rights_def)
  show ?thesis
    using assms(1) u db_served_grows [OF served]
    by (cases x) (auto simp: sys_authorize_def h Let_def intro!: goes_inv same_manager return_to_ok, simp add: phase_ok_def)
qed

text \<open>The two outcomes of a setup.\<close>

lemma sys_open_cases:
  assumes "sy_phase s k = Granted u t acc i"
  obtains (failed) c' sv where "sys_open E k xs net ssh stdin now sid u t acc i s = goes k (return_to u i) c' sv s"
      "db_served {} (sv_db (sy_server s)) (sv_db sv)" "sv_manager sv = sv_manager (sy_server s)" "sv_nets sv = sv_nets (sy_server s)"
  | (opened) c' sv sg b where "sys_open E k xs net ssh stdin now sid u t acc i s =
        (goes k (Bridged u i sid) c' sv s)\<lparr>sy_live := (sy_live s)(sid \<mapsto> \<lparr>lv_user = u, lv_host = t, lv_signer = sg, lv_bridge = b\<rparr>)\<rparr>"
      "db_served {} (sv_db (sy_server s)) (sv_db sv)" "sv_manager sv = cm_Register sid (session_handle sid) (sv_manager (sy_server s))"
      "sv_nets sv = (sv_nets (sy_server s))(sid := \<lparr>n_ctx_done = False, n_ssh_open = True\<rparr>)"
      "b_SessionID b = sid" "b_main b = MainBlocked"
      "sid \<notin> fst ` registered (sv_db (sy_server s))" "(sid, usr_ID u) \<in> registered (sv_db sv)"
      "cf_allowedCmds (b_filter b) = go_slice (aa_AllowedCmds acc)"
      "attach sv b = b" "schema_ok (sv_db (sy_server s)) \<Longrightarrow> outages (sv_db (sy_server s)) = [] \<Longrightarrow> bridge_inv b"
      "\<exists>node. en_inet_in E (IP_String (ParseIP (sv_ProxyNodeIP (sy_server s)))) = Some node \<and> (sid, node) \<in> placed (sv_db sv)"
      "sv_ProxyNodeIP sv = sv_ProxyNodeIP (sy_server s)"
proof -
  let ?sv = "sy_server s"
  obtain r c' sv where h: "connect_granted (en_kv_get E) (en_parse_key E) (en_sha E) net (en_uuid_string E) (en_nano E) (en_inet_in E)
      (en_newLimiter E) ssh stdin now sid u acc i (input s k xs) ?sv = (r, c', sv)" by (rule prod_cases3)
  show thesis
  proof (cases r)
    case (Inl x)
    show thesis by (rule failed [of c' sv]) (use h Inl connect_granted_fails [OF h [unfolded Inl]] in \<open>auto simp: sys_open_def\<close>)
  next
    case (Inr p)
    then obtain sg b where r: "r = Inr (sg, b)" by (cases p) auto
    from connect_granted_bridged [OF h [unfolded r]] obtain w fs vc hp where
      br: "Bridge_start (en_inet_in E) (en_newLimiter E) ssh now \<lparr>bc_SessionID = sid, bc_UserID = usr_ID u, bc_ServerID = aa_ServerID acc,
        bc_ProxyNodeIP = ParseIP (sv_ProxyNodeIP ?sv), bc_AllowedCmds = aa_AllowedCmds acc, bc_AuditWriter = w\<rparr>
        stdin (c_out c') (sv_nets ?sv) (sv_manager ?sv) fs (sv_db ?sv) = Inr b"
      and sv: "sv = ?sv\<lparr>sv_vault_client := vc, sv_heap := hp, sv_fs := fs, sv_db := b_db b\<rparr>" by metis
    show thesis
      by (rule opened [where c' = c' and sv = "sv\<lparr>sv_manager := b_manager b, sv_nets := b_nets b\<rparr>" and sg = sg and b = b])
        (use h Bridge_start_serves(2) [OF br] Bridge_start_opens [OF br] Bridge_start_inv [OF br] Bridge_start_row(1) [OF br] in \<open>simp_all add: r sys_open_def sv attach_def\<close>)
  qed
qed

lemma fresh_session: "sys_inv s \<Longrightarrow> sid \<notin> fst ` registered (sv_db (sy_server s)) \<Longrightarrow> sy_live s sid = None"
  by (cases "sy_live s sid") (force simp: sys_inv_def live_ok_def)+

lemma sys_open_inv:
  assumes "sys_inv s" "sy_phase s k = Granted u t acc i"
  shows "sys_inv (sys_open E k xs net ssh stdin now sid u t acc i s)"
proof -
  have u: "u \<in> identities (sv_db (sy_server s))" by (rule inv_user [OF assms(1), of k]) (simp add: assms(2))
  show ?thesis
    using assms(2)
  proof (cases rule: sys_open_cases [of s k u t acc i E xs net ssh stdin now sid])
    case (failed c' sv)
    then have "u \<in> identities (sv_db sv)" using u by (simp add: db_served_def same_rights_def)
    with failed assms(1) show ?thesis
      by (auto intro!: goes_inv same_manager return_to_ok db_served_grows)
  next
    case (opened c' sv sg b)
    let ?l = "\<lparr>lv_user = u, lv_host = t, lv_signer = sg, lv_bridge = b\<rparr>" and ?s = "goes k Away c' sv s"
    note g = db_served_grows [OF opened(2)]
    have uid: "u \<in> identities (sv_db sv)" using u opened(2) by (simp add: db_served_def same_rights_def)
    have new: "sy_live s sid = None" by (rule fresh_session [OF assms(1) opened(7)])
    have "schema_ok (sv_db sv)" using assms(1) g by (simp add: sys_inv_def db_grows_def)
    moreover have "handles_ok (sv_manager sv)" using assms(1) opened(3) by (auto simp: sys_inv_def handles_ok_def cm_Register_def)
    moreover have "phase_ok (sv_db sv) ((sy_live s)(sid \<mapsto> ?l)) (sy_phase s j)" for j
    proof -
      have "phase_ok (sv_db sv) (sy_live s) (sy_phase s j)" by (rule phase_ok_mono [OF _ g]) (use assms(1) in \<open>simp add: sys_inv_def\<close>)
      then show ?thesis using new by (cases "sy_phase s j") (auto simp: phase_ok_def)
    qed
    moreover have "live_ok (sv_db sv) x l" if "sy_live s x = Some l" for x l
      by (rule live_ok_mono [OF _ g]) (use that assms(1) in \<open>simp add: sys_inv_def\<close>)
    moreover have "live_ok (sv_db sv) sid ?l" using opened uid by (simp add: live_ok_def)
    moreover have "phase_ok (sv_db sv) ((sy_live s)(sid \<mapsto> ?l)) (Bridged u i sid)" using uid by (simp add: phase_ok_def)
    moreover have "running b" using opened by (simp add: running_def)
    moreover have "\<forall>x. cm_sessions (sv_manager (sy_server s)) x \<noteq> None \<longrightarrow> (\<exists>l. sy_live s x = Some l \<and> running (lv_bridge l))"
      using assms(1) unfolding sys_inv_def by blast
    ultimately show ?thesis
      unfolding opened(1) sys_inv_def using opened(3) new by (simp add: cm_Register_def)
  qed
qed

lemma attach_fields [simp]:
  "b_SessionID (attach sv b) = b_SessionID b" "b_db (attach sv b) = sv_db sv" "b_manager (attach sv b) = sv_manager sv"
  "b_nets (attach sv b) = sv_nets sv" "b_fs (attach sv b) = sv_fs sv" "b_main (attach sv b) = b_main b"
  "b_in (attach sv b) = b_in b" "b_out (attach sv b) = b_out b" "b_writer (attach sv b) = b_writer b" "b_keepalive (attach sv b) = b_keepalive b"
  by (simp_all add: attach_def)

lemma detach_fields [simp]:
  "sv_db (detach b sv) = b_db b" "sv_manager (detach b sv) = b_manager b" "sv_nets (detach b sv) = b_nets b" "sv_fs (detach b sv) = b_fs b"
  by (simp_all add: detach_def)

lemma sys_bridge_inv:
  assumes "sys_inv s" "sy_live s sid = Some l" "sys_bridge E sid a l s = Some s'"
  shows "sys_inv s'"
proof -
  let ?sv = "sy_server s"
  obtain b where st: "bridge_step (en_fold E) (en_waitN E) (en_sha E) a (attach ?sv (lv_bridge l)) = Some b"
    and s': "s' = s\<lparr>sy_server := detach b ?sv, sy_live := (sy_live s)(sid \<mapsto> l\<lparr>lv_bridge := b\<rparr>)\<rparr>"
    using assms(3) by (auto simp: sys_bridge_def)
  have inv: "schema_ok (sv_db ?sv)" "handles_ok (sv_manager ?sv)" "live_ok (sv_db ?sv) sid l"
    and reg: "cm_sessions (sv_manager ?sv) k \<noteq> None \<Longrightarrow> \<exists>m. sy_live s k = Some m \<and> running (lv_bridge m)" for k
    using assms(1,2) unfolding sys_inv_def by blast+
  have sid: "b_SessionID (lv_bridge l) = sid" using inv(3) by (simp add: live_ok_def)
  note fr = bridge_step_frame [OF st, unfolded attach_fields sid]
  note g = db_served_grows [OF fr(2)]
  have "schema_ok (b_db b)" using inv(1) g by (simp add: db_grows_def)
  moreover have "handles_ok (b_manager b)"
    unfolding handles_ok_def
  proof (intro allI impI)
    fix k h assume "cm_sessions (b_manager b) k = Some h"
    then have "cm_sessions (sv_manager ?sv) k = Some h" using fr(3,5) inv(2) by (cases "k = sid") auto
    then show "h = session_handle k" using inv(2) by (simp add: handles_ok_def)
  qed
  moreover have "phase_ok (b_db b) ((sy_live s)(sid \<mapsto> l\<lparr>lv_bridge := b\<rparr>)) (sy_phase s k)" for k
  proof -
    have "phase_ok (b_db b) (sy_live s) (sy_phase s k)"
      by (rule phase_ok_mono [OF _ g]) (use assms(1) in \<open>simp add: sys_inv_def\<close>)
    then show ?thesis using assms(2) by (cases "sy_phase s k") (auto simp: phase_ok_def)
  qed
  moreover have "live_ok (b_db b) k m" if "sy_live s k = Some m" for k m
    by (rule live_ok_mono [OF _ g]) (use that assms(1) in \<open>simp add: sys_inv_def\<close>)
  moreover have "live_ok (b_db b) sid (l\<lparr>lv_bridge := b\<rparr>)"
    using live_ok_mono [OF inv(3) g] fr(1) by (simp add: live_ok_def)
  moreover have "\<exists>m. ((sy_live s)(sid \<mapsto> l\<lparr>lv_bridge := b\<rparr>)) k = Some m \<and> running (lv_bridge m)" if "cm_sessions (b_manager b) k \<noteq> None" for k
  proof (cases "k = sid")
    case True
    then have "running (lv_bridge l)" using reg [of sid] fr(5) that assms(2) by auto
    then have "running b" using fr(6) that True by (auto simp: running_def)
    then show ?thesis using True by simp
  next
    case False
    then show ?thesis using reg [of k] fr(3) inv(2) that by simp
  qed
  ultimately show ?thesis unfolding s' sys_inv_def by simp
qed

lemma sys_return_inv:
  assumes "sys_inv s" "sy_phase s k = Bridged u i sid"
  shows "sys_inv (sys_return E k xs u i l r s)"
proof -
  have "u \<in> identities (sv_db (sy_server s))" by (rule inv_user [OF assms(1), of k]) (simp add: assms(2))
  then show ?thesis using assms(1)
    by (auto simp: sys_return_def connect_finish_def Let_def case_prod_beta db_grows_def intro!: goes_inv return_to_ok same_manager)
qed

text \<open>What the console writes makes the database grow.\<close>

lemma db_grows_trans: "db_grows d e \<Longrightarrow> db_grows e f \<Longrightarrow> db_grows d f"
  by (auto simp: db_grows_def)

lemma db_grows_override:
  "db_grows d (d\<lparr>users := map (\<lambda>u. if u_id u = uid then u\<lparr>u_override := True\<rparr> else u) (users d)\<rparr>)" (is "db_grows d (d\<lparr>users := ?us\<rparr>)")
proof -
  let ?id = "\<lambda>r. \<lparr>usr_ID = u_id r, usr_Username = u_username r, usr_Role = u_role r\<rparr>"
  have "map ?id ?us = map ?id (users d)" by simp
  then have "?id ` set ?us = ?id ` set (users d)" by (metis set_map)
  then have "identities (d\<lparr>users := ?us\<rparr>) = identities d" by (simp add: identities_def)
  then show ?thesis using schema_ok_override [of d uid] by (simp add: db_grows_def registered_def placed_def)
qed

interpretation growing_console: console_writes "\<lambda>s t. db_grows (fst s) (fst t)" "\<lambda>_. True" E for E :: "('v, 'sg) console_env"
proof
  show "db_grows (fst x) (fst y) \<Longrightarrow> db_grows (fst y) (fst z) \<Longrightarrow> db_grows (fst x) (fst z)"
    for x y z :: "db \<times> nets ConnectionManager \<times> nets"
    by (rule db_grows_trans)
  show "db_grows (fst (d, cw)) (fst (d\<lparr>users := map (\<lambda>u. if u_id u = uid then u\<lparr>u_override := True\<rparr> else u) (users d)\<rparr>, cw))"
    for d uid and cw :: "nets ConnectionManager \<times> nets"
    using db_grows_override by simp
qed (auto simp: db_grows_def identities_def registered_def placed_def schema_ok_more_users schema_ok_more_servers,
    auto simp: schema_ok_def)

lemma console_turn_serves:
  assumes "console_ok co" "console_turn CE a al n co sv c = (r, sv', c')" "handles_ok (sv_manager sv)"
  shows "db_grows (sv_db sv) (sv_db sv')" "handles_ok (sv_manager sv')"
    "spared_or_killed (sv_manager sv, sv_nets sv) (sv_manager sv', sv_nets sv') j"
    "cm_sessions (sv_manager sv') j \<noteq> None \<Longrightarrow> cm_sessions (sv_manager sv) j \<noteq> None"
proof -
  show "db_grows (sv_db sv) (sv_db sv')" using growing_console.R_console_turn [OF assms(1,2)] by simp
  have kills: "handles_ok (sv_manager sv') \<and> (\<forall>j. spared_or_killed (sv_manager sv, sv_nets sv) (sv_manager sv', sv_nets sv') j)"
    using kills_console.R_console_turn [OF assms(1,2)] assms(3) by (simp add: only_kills_def node_def)
  then show "handles_ok (sv_manager sv')" by blast
  show fate: "spared_or_killed (sv_manager sv, sv_nets sv) (sv_manager sv', sv_nets sv') j" using kills by blast
  show "cm_sessions (sv_manager sv') j \<noteq> None \<Longrightarrow> cm_sessions (sv_manager sv) j \<noteq> None"
    using fate by (auto simp: spared_or_killed_def)
qed

lemma sys_console_inv:
  assumes "sys_inv s" "sy_phase s k = InConsole u i al n co"
  shows "sys_inv (sys_console k xs CE u i al n co s)"
proof -
  let ?sv = "sy_server s"
  obtain r sv c' where t: "console_turn CE (usr_Username u) al n co ?sv (input s k xs) = (r, sv, c')" by (rule prod_cases3)
  have "phase_ok (sv_db ?sv) (sy_live s) (InConsole u i al n co)" using assms unfolding sys_inv_def by metis
  then have ok: "console_ok co" "u \<in> identities (sv_db ?sv)" by (simp_all add: phase_ok_def)
  have h: "handles_ok (sv_manager ?sv)" using assms(1) by (simp add: sys_inv_def)
  note ct = console_turn_serves [OF ok(1) t h]
  have u: "u \<in> identities (sv_db sv)" using ct(1) ok(2) by (auto simp: db_grows_def)
  show ?thesis
  proof (cases r)
    case (Inr co')
    then show ?thesis using assms(1) ct u console_turn_ok [OF ok(1) t]
      by (auto simp: sys_console_def t phase_ok_def intro!: goes_inv)
  next
    case (Inl x)
    have cl: "sv_db (console_close CE (usr_Username u) al x sv) = sv_db sv" "sv_manager (console_close CE (usr_Username u) al x sv) = sv_manager sv"
      by (simp_all add: console_close_def)
    have "x \<noteq> ConsolePanicked" using console_turn_ok [OF ok(1) t] Inl by simp
    then have "phase_ok (sv_db sv) (sy_live s) (case x of ConsolePanicked \<Rightarrow> Crashed u | ConsoleHung \<Rightarrow> Hung u | _ \<Rightarrow> return_to u i)"
      using u return_to_ok [of u] by (cases x) (simp_all add: phase_ok_def [of _ _ "Hung u"])
    then show ?thesis using assms(1) ct unfolding sys_console_def t Inl by (auto simp: cl intro!: goes_inv)
  qed
qed

lemma sys_inv_step:
  assumes "sys_inv s" "system_step E ev s = Some s'"
  shows "sys_inv s'"
proof (cases ev)
  case (EvRenew r)
  then show ?thesis using assms by (auto intro!: server_inv simp: db_grows_def split: if_splits)
next
  case (EvSweep now)
  then show ?thesis using assms by (auto intro!: server_inv simp: db_grows_def)
next
  case (EvDisk st)
  then show ?thesis using assms by (auto intro!: server_inv simp: db_grows_def)
qed (use assms in \<open>auto intro: sys_connect_inv sys_menu_inv sys_authorize_inv sys_open_inv sys_bridge_inv sys_return_inv sys_console_inv
    split: if_splits phase.splits option.splits main_state.splits\<close>)

end
