(* ===== verification/Zttp_Monitor.thy ===== *)
theory Zttp_Monitor
  imports Zttp_System
begin

text \<open>
  The specification of the server as a reference monitor, and the proof that the system refines it:
  \<open>view\<close> is what the monitor sees of a state, and every step of the system is, through that view, a
  few steps of the monitor or none.
\<close>

subsection \<open>The reference monitor\<close>

text \<open>
  What the server is for, without how it does it: accounts and rights, connections with the identity
  they act under, permissions that were given, consoles and sessions. An identity comes from an
  account. A session is opened for the holder of a permission, and a permission is given only to who
  may reach the host at that moment. Accounts and rights change only while a console is open; a
  console opens to an administrator or to who may reach a host of the console's name.
\<close>

record refmon =
  m_may :: "uuid \<Rightarrow> string \<Rightarrow> string \<Rightarrow> bool"
  m_accounts :: "User set"
  m_who :: "nat \<rightharpoonup> User"
  m_granted :: "nat \<rightharpoonup> string"
  m_admin :: "nat set"
  m_open :: "uuid \<rightharpoonup> User \<times> string"

inductive mstep :: "refmon \<Rightarrow> refmon \<Rightarrow> bool" where
  login: "m_who m k = None \<Longrightarrow> u \<in> m_accounts m \<Longrightarrow> mstep m (m\<lparr>m_who := (m_who m)(k \<mapsto> u)\<rparr>)"
| permit: "m_who m k = Some u \<Longrightarrow> m_may m (usr_ID u) (usr_Role u) host \<Longrightarrow> mstep m (m\<lparr>m_granted := (m_granted m)(k \<mapsto> host)\<rparr>)"
| admit: "m_who m k = Some u \<Longrightarrow> m_granted m k = Some host \<Longrightarrow> m_open m sid = None \<Longrightarrow>
    mstep m (m\<lparr>m_granted := (m_granted m)(k := None), m_open := (m_open m)(sid \<mapsto> (u, host))\<rparr>)"
| drop: "mstep m (m\<lparr>m_granted := (m_granted m)(k := None)\<rparr>)"
| finish: "mstep m (m\<lparr>m_open := (m_open m)(sid := None)\<rparr>)"
| administer: "m_who m k = Some u \<Longrightarrow> usr_Role u = ''security-admin'' \<or> m_may m (usr_ID u) (usr_Role u) admin_console_name \<Longrightarrow>
    mstep m (m\<lparr>m_admin := insert k (m_admin m)\<rparr>)"
| change: "k \<in> m_admin m \<Longrightarrow> m_accounts m \<subseteq> A \<Longrightarrow> mstep m (m\<lparr>m_may := M, m_accounts := A\<rparr>)"
| leave: "mstep m (m\<lparr>m_admin := m_admin m - {k}\<rparr>)"
| logout: "k \<notin> m_admin m \<Longrightarrow> m_granted m k = None \<Longrightarrow> mstep m (m\<lparr>m_who := (m_who m)(k := None)\<rparr>)"

inductive_cases mstepE: "mstep m m'"

fun granted_in :: "phase \<Rightarrow> string option" where
  "granted_in (Granted u t acc i) = Some t"
| "granted_in _ = None"

fun in_console :: "phase \<Rightarrow> bool" where
  "in_console (InConsole u i al n co) = True"
| "in_console (Hung u) = True"
| "in_console _ = False"

definition open_sessions :: "(uuid \<rightharpoonup> ('sg, 'b) live) \<Rightarrow> uuid \<rightharpoonup> User \<times> string" where
  "open_sessions lv sid = (case lv sid of
     Some l \<Rightarrow> (if running (lv_bridge l) then Some (lv_user l, lv_host l) else None) | None \<Rightarrow> None)"

definition view :: "('l, 'v, 'sg, 'b) system \<Rightarrow> refmon" where
  "view s = \<lparr>m_may = can_reach (sv_db (sy_server s)), m_accounts = identities (sv_db (sy_server s)),
     m_who = (\<lambda>k. who (sy_phase s k)), m_granted = (\<lambda>k. granted_in (sy_phase s k)),
     m_admin = {k. in_console (sy_phase s k)}, m_open = open_sessions (sy_live s)\<rparr>"

lemma view_fields [simp]:
  "m_may (view s) = can_reach (sv_db (sy_server s))" "m_accounts (view s) = identities (sv_db (sy_server s))"
  "m_who (view s) k = who (sy_phase s k)" "m_granted (view s) k = granted_in (sy_phase s k)"
  "k \<in> m_admin (view s) \<longleftrightarrow> in_console (sy_phase s k)" "m_open (view s) = open_sessions (sy_live s)"
  by (simp_all add: view_def)

text \<open>What the monitor sees of a connection that moves on.\<close>

definition moved :: "nat \<Rightarrow> phase \<Rightarrow> refmon \<Rightarrow> refmon" where
  "moved k ph m = m\<lparr>m_who := (m_who m)(k := who ph), m_granted := (m_granted m)(k := granted_in ph),
     m_admin := (if in_console ph then insert k (m_admin m) else m_admin m - {k})\<rparr>"

lemma view_goes:
  "same_rights (sv_db (sy_server s)) (sv_db sv) \<Longrightarrow> view (goes k ph c sv s) = moved k ph (view s)"
  by (auto simp: view_def moved_def same_rights_def fun_eq_iff)

text \<open>Going back to the menu or away gives up what the connection had.\<close>

lemma step_drop: "mstep\<^sup>*\<^sup>* m (m\<lparr>m_granted := (m_granted m)(k := None), m_admin := m_admin m - {k}\<rparr>)"
proof -
  let ?m = "m\<lparr>m_granted := (m_granted m)(k := None), m_admin := m_admin m - {k}\<rparr>"
  have "mstep m (m\<lparr>m_granted := (m_granted m)(k := None)\<rparr>)" by (rule mstep.drop)
  moreover have "mstep (m\<lparr>m_granted := (m_granted m)(k := None)\<rparr>) ?m"
    using mstep.leave [of "m\<lparr>m_granted := (m_granted m)(k := None)\<rparr>" k] by simp
  ultimately show ?thesis by (meson converse_rtranclp_into_rtranclp r_into_rtranclp)
qed

lemma moved_idle:
  assumes "\<not> in_console ph" "granted_in ph = None" "who ph = m_who m k \<or> who ph = None"
  shows "mstep\<^sup>*\<^sup>* m (moved k ph m)"
proof -
  let ?m = "m\<lparr>m_granted := (m_granted m)(k := None), m_admin := m_admin m - {k}\<rparr>"
  have "mstep\<^sup>*\<^sup>* ?m (moved k ph m)"
  proof (cases "who ph = m_who m k")
    case True
    then have "moved k ph m = ?m" using assms by (simp add: moved_def fun_upd_idem)
    then show ?thesis by simp
  next
    case False
    then have "moved k ph m = ?m\<lparr>m_who := (m_who ?m)(k := None)\<rparr>" using assms by (simp add: moved_def)
    then show ?thesis using mstep.logout [of k ?m] by (simp add: r_into_rtranclp)
  qed
  then show ?thesis by (rule rtranclp_trans [OF step_drop])
qed

lemma moved_login:
  assumes "m_who m k = None" "u \<in> m_accounts m" "m_granted m k = None" "k \<notin> m_admin m"
    and "who ph = Some u" "granted_in ph = None" "in_console ph \<Longrightarrow> usr_Role u = ''security-admin''"
  shows "mstep\<^sup>*\<^sup>* m (moved k ph m)"
proof -
  let ?m = "m\<lparr>m_who := (m_who m)(k \<mapsto> u)\<rparr>"
  have 1: "mstep m ?m" by (rule mstep.login [OF assms(1,2)])
  show ?thesis
  proof (cases "in_console ph")
    case True
    then have "moved k ph m = ?m\<lparr>m_admin := insert k (m_admin ?m)\<rparr>" using assms by (simp add: moved_def fun_upd_idem)
    moreover have "mstep ?m (?m\<lparr>m_admin := insert k (m_admin ?m)\<rparr>)" by (rule mstep.administer [of _ _ u]) (use assms True in simp_all)
    ultimately show ?thesis using 1 by (metis converse_rtranclp_into_rtranclp r_into_rtranclp)
  next
    case False
    then have "moved k ph m = ?m" using assms by (simp add: moved_def fun_upd_idem)
    then show ?thesis using 1 by (simp add: r_into_rtranclp)
  qed
qed

lemma moved_enter:
  assumes "m_who m k = Some u" "m_granted m k = None" "who ph = Some u" "granted_in ph = None" "in_console ph"
    and "usr_Role u = ''security-admin'' \<or> m_may m (usr_ID u) (usr_Role u) admin_console_name"
  shows "mstep\<^sup>*\<^sup>* m (moved k ph m)"
proof -
  have "moved k ph m = m\<lparr>m_admin := insert k (m_admin m)\<rparr>" using assms by (simp add: moved_def fun_upd_idem)
  then show ?thesis using mstep.administer [OF assms(1,6)] by (simp add: r_into_rtranclp)
qed

lemma moved_permit:
  assumes "m_who m k = Some u" "k \<notin> m_admin m" "m_may m (usr_ID u) (usr_Role u) t"
  shows "mstep\<^sup>*\<^sup>* m (moved k (Granted u t acc i) m)"
proof -
  have "moved k (Granted u t acc i) m = m\<lparr>m_granted := (m_granted m)(k \<mapsto> t)\<rparr>" using assms by (simp add: moved_def fun_upd_idem)
  then show ?thesis using mstep.permit [OF assms(1,3)] by (simp add: r_into_rtranclp)
qed

lemma enters_console_goes:
  obtains al sv' where "enters_console CE k u i c sv s = goes k (InConsole u i al 1 console_init) c sv' s" "sv_db sv' = sv_db sv"
proof -
  obtain al sv' where op: "console_open CE (usr_Username u) sv = (al, sv')" by (rule prod.exhaust)
  then have "node sv' = node sv" using node_open_close(1) [of CE "usr_Username u" sv] by simp
  then show thesis by (intro that [of al sv']) (simp_all add: enters_console_def op node_def)
qed

lemma simulates_connect:
  assumes "sys_inv s" "sy_phase s k = Away"
  shows "mstep\<^sup>*\<^sup>* (view s) (view (sys_connect E k now clk addr c CE s))"
proof -
  let ?sv = "sy_server s"
  obtain rt c' sv where h: "handleConnection (en_mk E) (en_lim E) (en_json E) (en_req_err E) (en_bcmp E) (en_cfg E) now clk addr c ?sv = (rt, c', sv)"
    by (rule prod_cases3)
  have "schema_ok (sv_db ?sv)" using assms by (simp add: sys_inv_def)
  note hc = handleConnection_serves [OF h this]
  have same: "same_rights (sv_db ?sv) (sv_db sv)" using hc(1) by (simp add: db_served_def)
  have login: "mstep\<^sup>*\<^sup>* (view s) (moved k ph (view s))"
    if "u \<in> identities (sv_db ?sv)" "who ph = Some u" "granted_in ph = None" "in_console ph \<Longrightarrow> usr_Role u = ''security-admin''" for u ph
    by (rule moved_login [of _ _ u]) (use assms(2) that in simp_all)
  show ?thesis
  proof (cases rt)
    case Refused
    then show ?thesis using assms(2) by (simp add: sys_connect_def h view_goes [OF same] moved_idle)
  next
    case (ToAdminConsole u)
    obtain al sv' where e: "enters_console CE k u False c' sv s = goes k (InConsole u False al 1 console_init) c' sv' s" "sv_db sv' = sv_db sv"
      by (rule enters_console_goes)
    have "same_rights (sv_db ?sv) (sv_db sv')" using same e(2) by simp
    from view_goes [OF this] login [of u] hc(4,5) [of u] show ?thesis using ToAdminConsole by (simp add: sys_connect_def h e)
  next
    case (ToGateway u)
    then show ?thesis using login [of u "Menu u"] hc(4) [of u] by (simp add: sys_connect_def h view_goes [OF same])
  next
    case (ToTarget u t)
    then show ?thesis using login [of u "Wants u t False"] hc(4) [of u t] by (simp add: sys_connect_def h view_goes [OF same])
  qed
qed

lemma simulates_menu:
  assumes "sys_inv s" "sy_phase s k = Menu u"
  shows "mstep\<^sup>*\<^sup>* (view s) (view (sys_menu E k xs CE u s))"
proof -
  let ?sv = "sy_server s"
  obtain x c' d where h: "handleGatewayMenu (en_err E) (usr_ID u) (usr_Role u) (input s k xs) (sv_db ?sv) = (x, c', d)"
    by (rule prod_cases3)
  have "db_served {} (sv_db ?sv) d" using handleGatewayMenu_serves [of "sv_db ?sv" "en_err E"] h by (metis snd_conv)
  then have same: "same_rights (sv_db ?sv) (sv_db (?sv\<lparr>sv_db := d\<rparr>))" by (simp add: db_served_def)
  have u: "u \<in> identities (sv_db ?sv)" by (rule inv_user [OF assms(1), of k]) (simp add: assms(2))
  have idle: "mstep\<^sup>*\<^sup>* (view s) (moved k ph (view s))" if "\<not> in_console ph" "granted_in ph = None" "who ph = Some u \<or> who ph = None" for ph
    by (rule moved_idle) (use assms(2) that in auto)
  show ?thesis
  proof (cases "x = Selected admin_console_name")
    case True
    obtain al sv' where e: "enters_console CE k u True c' (?sv\<lparr>sv_db := d\<rparr>) s = goes k (InConsole u True al 1 console_init) c' sv' s"
      "sv_db sv' = sv_db (?sv\<lparr>sv_db := d\<rparr>)" by (rule enters_console_goes)
    have sr: "same_rights (sv_db ?sv) (sv_db sv')" using same e(2) by simp
    have "usr_Role u = ''security-admin'' \<or> can_reach (sv_db ?sv) (usr_ID u) (usr_Role u) admin_console_name"
      by (rule handleGatewayMenu_selects [OF h [unfolded True] _ u]) (use assms(1) in \<open>simp add: sys_inv_def\<close>)
    then have "mstep\<^sup>*\<^sup>* (view s) (moved k (InConsole u True al 1 console_init) (view s))"
      by (intro moved_enter [of _ _ u]) (use assms(2) in simp_all)
    then show ?thesis using True by (simp add: sys_menu_def gateway_round_def h e(1) view_goes [OF sr])
  next
    case False
    then show ?thesis using idle
      by (cases x) (simp_all add: sys_menu_def gateway_round_def h view_goes [OF same])
  qed
qed

lemma simulates_authorize:
  assumes "sys_inv s" "sy_phase s k = Wants u t i"
  shows "mstep\<^sup>*\<^sup>* (view s) (view (sys_authorize k xs u t i s))"
proof -
  let ?sv = "sy_server s"
  obtain x d where h: "Authorize (usr_ID u) (usr_Role u) t (sv_db ?sv) = (x, d)" by (rule prod.exhaust)
  have "db_served {} (sv_db ?sv) d" using Authorize_serves [of "sv_db ?sv"] h by (metis snd_conv)
  then have same: "same_rights (sv_db ?sv) (sv_db (?sv\<lparr>sv_db := d\<rparr>))" by (simp add: db_served_def)
  show ?thesis
  proof (cases x)
    case (Inl e)
    have "mstep\<^sup>*\<^sup>* (view s) (moved k (return_to u i) (view s))"
      by (rule moved_idle) (use assms(2) in \<open>simp_all add: return_to_def\<close>)
    then show ?thesis using Inl by (simp add: sys_authorize_def h view_goes [OF same])
  next
    case (Inr acc)
    have "can_reach (sv_db ?sv) (usr_ID u) (usr_Role u) t"
      by (rule Authorize_can_reach [OF h [unfolded Inr]]) (use assms(1) in \<open>simp add: sys_inv_def\<close>)
    then have "mstep\<^sup>*\<^sup>* (view s) (moved k (Granted u t acc i) (view s))" by (intro moved_permit) (use assms(2) in simp_all)
    then show ?thesis using Inr by (simp add: sys_authorize_def h view_goes [OF same])
  qed
qed

lemma simulates_open:
  assumes "sys_inv s" "sy_phase s k = Granted u t acc i"
  shows "mstep\<^sup>*\<^sup>* (view s) (view (sys_open E k xs net ssh stdin now sid u t acc i s))"
  using assms(2)
proof (cases rule: sys_open_cases [of s k u t acc i E xs net ssh stdin now sid])
  case (failed c' sv)
  have same: "same_rights (sv_db (sy_server s)) (sv_db sv)" using failed(2) by (simp add: db_served_def)
  have "mstep\<^sup>*\<^sup>* (view s) (moved k (return_to u i) (view s))"
    by (rule moved_idle) (use assms(2) in \<open>simp_all add: return_to_def\<close>)
  then show ?thesis by (simp add: failed(1) view_goes [OF same])
next
  case (opened c' sv sg b)
  have same: "same_rights (sv_db (sy_server s)) (sv_db sv)" using opened(2) by (simp add: db_served_def)
  have new: "sy_live s sid = None" by (rule fresh_session [OF assms(1) opened(7)])
  have "view (sys_open E k xs net ssh stdin now sid u t acc i s) =
      (moved k (Bridged u i sid) (view s))\<lparr>m_open := (m_open (view s))(sid \<mapsto> (u, t))\<rparr>"
    using same opened(6) by (auto simp: opened(1) view_def moved_def same_rights_def open_sessions_def running_def fun_eq_iff)
  also have "\<dots> = (view s)\<lparr>m_granted := (m_granted (view s))(k := None), m_open := (m_open (view s))(sid \<mapsto> (u, t))\<rparr>"
    using assms(2) by (auto simp: moved_def view_def fun_eq_iff)
  finally have v: "view (sys_open E k xs net ssh stdin now sid u t acc i s) = \<dots>" .
  have "mstep (view s) \<dots>" by (rule mstep.admit) (use assms(2) new in \<open>simp_all add: open_sessions_def\<close>)
  then show ?thesis unfolding v by (rule r_into_rtranclp)
qed

lemma simulates_bridge:
  assumes "sys_inv s" "sy_live s sid = Some l" "sys_bridge E sid a l s = Some s'"
  shows "mstep\<^sup>*\<^sup>* (view s) (view s')"
proof -
  let ?sv = "sy_server s"
  obtain b where st: "bridge_step (en_fold E) (en_waitN E) (en_sha E) a (attach ?sv (lv_bridge l)) = Some b"
    and s': "s' = s\<lparr>sy_server := detach b ?sv, sy_live := (sy_live s)(sid \<mapsto> l\<lparr>lv_bridge := b\<rparr>)\<rparr>"
    using assms(3) by (auto simp: sys_bridge_def)
  note fr = bridge_step_frame [OF st, unfolded attach_fields]
  have same: "identities (b_db b) = identities (sv_db ?sv)" "can_reach (b_db b) = can_reach (sv_db ?sv)"
    using fr(2) by (simp_all add: db_served_def same_rights_def)
  have stays: "\<not> running b" if "\<not> running (lv_bridge l)" using that fr(7) by (auto simp: running_def)
  have v: "view s' = (view s)\<lparr>m_open := (open_sessions (sy_live s))(sid := (if running b then Some (lv_user l, lv_host l) else None))\<rparr>"
    by (auto simp: s' view_def same open_sessions_def fun_eq_iff)
  show ?thesis
  proof (cases "running b")
    case True
    then have "open_sessions (sy_live s) sid = Some (lv_user l, lv_host l)" using stays assms(2) by (auto simp: open_sessions_def)
    then have "view s' = view s" using True unfolding v by (simp add: fun_upd_idem view_def)
    then show ?thesis by simp
  next
    case False
    then have "view s' = (view s)\<lparr>m_open := (m_open (view s))(sid := None)\<rparr>" unfolding v by simp
    then show ?thesis using mstep.finish [of "view s" sid] by (simp add: r_into_rtranclp)
  qed
qed

lemma simulates_return:
  assumes "sy_phase s k = Bridged u i sid"
  shows "mstep\<^sup>*\<^sup>* (view s) (view (sys_return E k xs u i l r s))"
proof -
  obtain c' sv where f: "connect_finish (en_sha E) r i (lv_signer l) (b_writer (lv_bridge l)) ((input s k xs)\<lparr>c_out := b_client (lv_bridge l)\<rparr>)
      (sy_server s) = (c', sv)" by (rule prod.exhaust)
  have same: "same_rights (sv_db (sy_server s)) (sv_db sv)"
    using f by (auto simp: connect_finish_def Let_def case_prod_beta same_rights_def)
  have "mstep\<^sup>*\<^sup>* (view s) (moved k (return_to u i) (view s))"
    by (rule moved_idle) (use assms in \<open>simp_all add: return_to_def\<close>)
  then show ?thesis by (simp add: sys_return_def f view_goes [OF same])
qed

text \<open>A round of the console may change rights and accounts; its connection is in a console all the while.\<close>

lemma view_console:
  "view (goes k ph c sv s) = moved k ph ((view s)\<lparr>m_may := can_reach (sv_db sv), m_accounts := identities (sv_db sv)\<rparr>)"
  by (auto simp: view_def moved_def fun_eq_iff)

lemma simulates_console:
  assumes "sys_inv s" "sy_phase s k = InConsole u i al n co"
  shows "mstep\<^sup>*\<^sup>* (view s) (view (sys_console k xs CE u i al n co s))"
proof -
  let ?sv = "sy_server s"
  obtain r sv c' where t: "console_turn CE (usr_Username u) al n co ?sv (input s k xs) = (r, sv, c')" by (rule prod_cases3)
  have "phase_ok (sv_db ?sv) (sy_live s) (InConsole u i al n co)" using assms unfolding sys_inv_def by metis
  then have ok: "console_ok co" by (simp add: phase_ok_def)
  have "db_grows (sv_db ?sv) (sv_db sv)"
    by (rule console_turn_serves(1) [OF ok t]) (use assms(1) in \<open>simp add: sys_inv_def\<close>)
  then have grows: "identities (sv_db ?sv) \<subseteq> identities (sv_db sv)" by (simp add: db_grows_def)
  let ?m = "(view s)\<lparr>m_may := can_reach (sv_db sv), m_accounts := identities (sv_db sv)\<rparr>"
  have change: "mstep (view s) ?m" by (rule mstep.change [of k]) (use assms(2) grows in simp_all)
  have stay: "moved k ph ?m = ?m" if "in_console ph" "granted_in ph = None" "who ph = Some u" for ph
    using that assms(2) by (auto simp: moved_def view_def fun_eq_iff)
  have home: "mstep\<^sup>*\<^sup>* ?m (moved k (return_to u i) ?m)"
    by (rule moved_idle) (use assms(2) in \<open>simp_all add: return_to_def\<close>)
  have all: "mstep\<^sup>*\<^sup>* ?m (moved k ph ?m)" if "ph = return_to u i \<or> in_console ph \<and> granted_in ph = None \<and> who ph = Some u" for ph
    using that home stay by auto
  show ?thesis
  proof (cases r)
    case (Inr co')
    have "view (sys_console k xs CE u i al n co s) = moved k (InConsole u i al (n + 1) co') ?m"
      by (simp add: sys_console_def t Inr view_console)
    then show ?thesis using converse_rtranclp_into_rtranclp [OF change all] by simp
  next
    case (Inl x)
    have db: "sv_db (console_close CE (usr_Username u) al y sv) = sv_db sv" for y by (simp add: console_close_def)
    have "x \<noteq> ConsolePanicked" using console_turn_ok [OF ok t] Inl by simp
    moreover define ph where "ph = (case x of ConsolePanicked \<Rightarrow> Crashed u | ConsoleHung \<Rightarrow> Hung u | _ \<Rightarrow> return_to u i)"
    ultimately have ph: "ph = return_to u i \<or> in_console ph \<and> granted_in ph = None \<and> who ph = Some u" by (cases x) auto
    have "view (sys_console k xs CE u i al n co s) = moved k ph ?m"
      by (simp add: sys_console_def t Inl view_console db ph_def)
    then show ?thesis using converse_rtranclp_into_rtranclp [OF change all [OF ph]] by simp
  qed
qed

lemma simulates_step:
  assumes "sys_inv s" "system_step E ev s = Some s'"
  shows "mstep\<^sup>*\<^sup>* (view s) (view s')"
proof -
  have same: "view (s\<lparr>sy_server := sv\<rparr>) = view s" if "sv_db sv = sv_db (sy_server s)" for sv
    using that by (simp add: view_def)
  show ?thesis
    using assms
    by (cases ev) (auto simp: same simulates_connect simulates_menu simulates_authorize simulates_open simulates_return simulates_console
        intro: simulates_bridge split: if_splits phase.splits option.splits main_state.splits)
qed

interpretation server_machine: simulation "system_step E" sys_inv mstep view
  by unfold_locales (auto intro: sys_inv_step simulates_step)

end
