(* ===== verification/Zttp_Runs.thy ===== *)
theory Zttp_Runs
  imports Zttp_Monitor
begin

text \<open>
  What holds in every state that a started process can reach: the invariant of each session on the
  shared state, where a session comes from, and what a kill does.
\<close>

subsection \<open>Sessions while the database is up\<close>

text \<open>As long as no statement fails, every session satisfies the invariant of its bridge on the shared
  state, whatever the others do in between.\<close>

definition sys_up :: "('l, 'v, 'sg, 'b) system \<Rightarrow> bool" where
  "sys_up s \<longleftrightarrow> sys_inv s \<and> outages (sv_db (sy_server s)) = []
     \<and> (\<forall>sid l. sy_live s sid = Some l \<longrightarrow> bridge_inv (attach (sy_server s) (lv_bridge l)))"

text \<open>What the others may do to a session: it keeps its status, and it is left alone or killed.\<close>

definition quiet :: "('l, 'v) server \<Rightarrow> ('l, 'v) server \<Rightarrow> uuid \<Rightarrow> bool" where
  "quiet sv sv' k \<longleftrightarrow> (status_of (sv_db sv) k \<noteq> None \<longrightarrow> status_of (sv_db sv') k = status_of (sv_db sv) k)
     \<and> spared_or_killed (sv_manager sv, sv_nets sv) (sv_manager sv', sv_nets sv') k"

definition undisturbed :: "('l, 'v, 'sg, 'b) system \<Rightarrow> ('l, 'v, 'sg, 'b) system \<Rightarrow> uuid \<Rightarrow> bool" where
  "undisturbed s s' sid \<longleftrightarrow> sy_live s' sid = sy_live s sid \<and> quiet (sy_server s) (sy_server s') sid
     \<and> db_grows (sv_db (sy_server s)) (sv_db (sy_server s'))"

lemma undisturbed_served:
  assumes "sy_live s' sid = sy_live s sid" "db_served {} (sv_db (sy_server s)) (sv_db (sy_server s'))"
    and "sv_manager (sy_server s') = sv_manager (sy_server s)" "sv_nets (sy_server s') = sv_nets (sy_server s)"
  shows "undisturbed s s' sid"
  using assms by (simp add: undisturbed_def quiet_def db_served_def)

lemma enters_console_fields [simp]:
  "sy_live (enters_console CE k u i c sv s) = sy_live s" "sv_db (sy_server (enters_console CE k u i c sv s)) = sv_db sv"
  "sv_manager (sy_server (enters_console CE k u i c sv s)) = sv_manager sv" "sv_nets (sy_server (enters_console CE k u i c sv s)) = sv_nets sv"
  using node_open_close(1) [of CE "usr_Username u" sv] by (simp_all add: enters_console_def case_prod_unfold Let_def node_def)

lemma undisturbed_connect: "sys_inv s \<Longrightarrow> undisturbed s (sys_connect E k now clk addr c CE s) sid"
proof -
  assume "sys_inv s"
  then have ok: "schema_ok (sv_db (sy_server s))" by (simp add: sys_inv_def)
  obtain rt c' sv where h: "handleConnection (en_mk E) (en_lim E) (en_json E) (en_req_err E) (en_bcmp E) (en_cfg E) now clk addr c (sy_server s) = (rt, c', sv)"
    by (rule prod_cases3)
  show ?thesis
    by (rule undisturbed_served) (use handleConnection_serves(1-3) [OF h ok] in \<open>cases rt; simp add: sys_connect_def h\<close>)+
qed

lemma undisturbed_menu: "undisturbed s (sys_menu E k xs CE u s) sid"
proof -
  obtain x c' d where h: "handleGatewayMenu (en_err E) (usr_ID u) (usr_Role u) (input s k xs) (sv_db (sy_server s)) = (x, c', d)"
    by (rule prod_cases3)
  have served: "db_served {} (sv_db (sy_server s)) d" using handleGatewayMenu_serves [of "sv_db (sy_server s)" "en_err E"] h by (metis snd_conv)
  show ?thesis
    by (rule undisturbed_served) (use served in \<open>cases x; simp add: sys_menu_def gateway_round_def h Let_def\<close>)+
qed

lemma undisturbed_authorize: "undisturbed s (sys_authorize k xs u t i s) sid"
proof -
  obtain x d where h: "Authorize (usr_ID u) (usr_Role u) t (sv_db (sy_server s)) = (x, d)" by (rule prod.exhaust)
  have served: "db_served {} (sv_db (sy_server s)) d" using Authorize_serves [of "sv_db (sy_server s)"] h by (metis snd_conv)
  show ?thesis
    by (rule undisturbed_served) (use served in \<open>cases x; simp add: sys_authorize_def h Let_def\<close>)+
qed

lemma undisturbed_open:
  assumes "sys_inv s" "sy_phase s k = Granted u t acc i" "sy_live s j \<noteq> None"
  shows "undisturbed s (sys_open E k xs net ssh stdin now sid u t acc i s) j"
  using assms(2)
proof (cases rule: sys_open_cases [of s k u t acc i E xs net ssh stdin now sid])
  case (failed c' sv)
  then show ?thesis by (intro undisturbed_served) simp_all
next
  case (opened c' sv sg b)
  have "j \<noteq> sid" using fresh_session [OF assms(1) opened(7)] assms(3) by auto
  then show ?thesis using opened(2-4) by (simp add: opened(1) undisturbed_def quiet_def db_served_def spared_or_killed_def cm_Register_def)
qed

lemma undisturbed_bridge:
  assumes "sys_inv s" "sy_live s sid = Some l" "sys_bridge E sid a l s = Some s'" "j \<noteq> sid"
  shows "undisturbed s s' j"
proof -
  let ?sv = "sy_server s"
  obtain b where st: "bridge_step (en_fold E) (en_waitN E) (en_sha E) a (attach ?sv (lv_bridge l)) = Some b"
    and s': "s' = s\<lparr>sy_server := detach b ?sv, sy_live := (sy_live s)(sid \<mapsto> l\<lparr>lv_bridge := b\<rparr>)\<rparr>"
    using assms(3) by (auto simp: sys_bridge_def)
  have h: "handles_ok (sv_manager ?sv)" and sid: "b_SessionID (lv_bridge l) = sid" using assms(1,2) by (auto simp: sys_inv_def live_ok_def)
  note fr = bridge_step_frame [OF st, unfolded attach_fields sid]
  show ?thesis using fr(2-4) h assms(4) by (simp add: s' undisturbed_def quiet_def db_served_def spared_or_killed_def)
qed

lemma undisturbed_return: "undisturbed s (sys_return E k xs u i l r s) sid"
  by (rule undisturbed_served) (simp_all add: sys_return_def connect_finish_def Let_def case_prod_beta)

lemma undisturbed_console:
  assumes "sys_inv s" "sy_phase s k = InConsole u i al n co"
  shows "undisturbed s (sys_console k xs CE u i al n co s) sid"
proof -
  let ?sv = "sy_server s" and ?s = "sys_console k xs CE u i al n co s"
  obtain r sv c' where t: "console_turn CE (usr_Username u) al n co ?sv (input s k xs) = (r, sv, c')" by (rule prod_cases3)
  have "phase_ok (sv_db ?sv) (sy_live s) (InConsole u i al n co)" using assms unfolding sys_inv_def by metis
  then have ok: "console_ok co" by (simp add: phase_ok_def)
  have "handles_ok (sv_manager ?sv)" using assms(1) by (simp add: sys_inv_def)
  note ct = console_turn_serves [OF ok t this]
  have "node (sy_server ?s) = node sv" by (cases r) (simp_all add: sys_console_def t)
  then have sv: "sv_db (sy_server ?s) = sv_db sv" "sv_manager (sy_server ?s) = sv_manager sv" "sv_nets (sy_server ?s) = sv_nets sv"
    by (simp_all add: node_def)
  have "sessions (sv_db sv) = sessions (sv_db ?sv)" using sessions_console.R_console_turn [OF ok t] by (simp add: keeps_sessions_def)
  then have "quiet ?sv (sy_server ?s) sid"
    using ct(3) [of sid] by (simp add: quiet_def sv status_of_def)
  moreover have "sy_live ?s = sy_live s" by (cases r) (simp_all add: sys_console_def t)
  ultimately show ?thesis using ct(1) by (simp add: undisturbed_def sv)
qed

lemma step_undisturbed:
  assumes "sys_inv s" "system_step E ev s = Some s'" "sy_live s sid \<noteq> None" "\<And>a. ev \<noteq> EvBridge sid a"
  shows "undisturbed s s' sid"
proof -
  have same: "undisturbed s (s\<lparr>sy_server := sv\<rparr>) sid"
    if "sv_db sv = sv_db (sy_server s)" "sv_manager sv = sv_manager (sy_server s)" "sv_nets sv = sv_nets (sy_server s)" for sv
    by (rule undisturbed_served) (simp_all add: that)
  show ?thesis
  proof (cases ev)
    case (EvBridge j a)
    then have "sid \<noteq> j" using assms(4) by blast
    then show ?thesis using EvBridge assms(1,2) undisturbed_bridge [OF assms(1)] by (auto split: option.splits)
  qed (use assms same in \<open>auto simp: undisturbed_connect undisturbed_menu undisturbed_authorize undisturbed_open undisturbed_return
      undisturbed_console split: if_splits phase.splits option.splits main_state.splits\<close>)
qed

text \<open>A turn of the session's own bridge.\<close>

lemma step_own:
  assumes "system_step E (EvBridge sid a) s = Some s'" "sy_live s sid = Some l"
  obtains b where "bridge_step (en_fold E) (en_waitN E) (en_sha E) a (attach (sy_server s) (lv_bridge l)) = Some b"
    "sy_live s' sid = Some (l\<lparr>lv_bridge := b\<rparr>)" "attach (sy_server s') b = b" "sv_db (sy_server s') = b_db b"
  using assms that by (auto simp: sys_bridge_def attach_def)

text \<open>The only new sessions are those that were just set up.\<close>

lemma step_new:
  assumes "sys_inv s" "system_step E ev s = Some s'" "sy_live s sid = None" "sy_live s' sid = Some l"
  obtains k xs net ssh stdin now acc i where "ev = EvOpen k xs net ssh stdin now sid" "sy_phase s k = Granted (lv_user l) (lv_host l) acc i"
    "cf_allowedCmds (b_filter (lv_bridge l)) = go_slice (aa_AllowedCmds acc)"
    "outages (sv_db (sy_server s)) = [] \<Longrightarrow> bridge_inv (attach (sy_server s') (lv_bridge l))"
    "db_grows (sv_db (sy_server s)) (sv_db (sy_server s'))"
proof (cases "\<exists>k xs net ssh stdin now j u t acc i. ev = EvOpen k xs net ssh stdin now j \<and> sy_phase s k = Granted u t acc i")
  case True
  then obtain k xs net ssh stdin now j u t acc i where ev: "ev = EvOpen k xs net ssh stdin now j" and ph: "sy_phase s k = Granted u t acc i" by blast
  have s': "s' = sys_open E k xs net ssh stdin now j u t acc i s" using assms(2) ev ph by simp
  from ph show thesis
  proof (cases rule: sys_open_cases [of s k u t acc i E xs net ssh stdin now j])
    case (failed c' sv)
    then show thesis using assms(3,4) by (simp add: s')
  next
    case (opened c' sv sg b)
    then have "j = sid" "l = \<lparr>lv_user = u, lv_host = t, lv_signer = sg, lv_bridge = b\<rparr>"
      using assms(3,4) by (auto simp: s' split: if_splits)
    then show thesis
      by (intro that [of k xs net ssh stdin now acc i])
        (use ev ph opened assms(1) db_served_grows [OF opened(2)] in \<open>auto simp: s' sys_inv_def\<close>)
  qed
next
  case False
  then have "sy_live s' sid = None" using assms(1-3)
    by (cases ev) (auto simp: sys_bridge_def sys_connect_def sys_menu_def sys_authorize_def sys_return_def sys_console_def Let_def case_prod_beta
        split: if_splits phase.splits option.splits main_state.splits prod.splits route.splits gateway_next.splits sum.splits)
  then show thesis using assms(4) by simp
qed

lemma bridge_inv_quiet:
  assumes "bridge_inv (attach sv b)" "quiet sv sv' (b_SessionID b)" "schema_ok (sv_db sv')" "outages (sv_db sv') = []"
  shows "bridge_inv (attach sv' b)"
proof -
  have st: "session_status (attach sv' b) = session_status (attach sv b)"
    using assms(1,2) by (auto simp: quiet_def bridge_inv_def session_status_def)
  show ?thesis using assms st unfolding bridge_inv_def attach_fields quiet_def spared_or_killed_def by auto
qed

lemma undisturbed_grows: "undisturbed s s' sid \<Longrightarrow> db_grows (sv_db (sy_server s)) (sv_db (sy_server s'))"
  by (simp add: undisturbed_def)

lemma grows_open:
  assumes "sy_phase s k = Granted u t acc i"
  shows "db_grows (sv_db (sy_server s)) (sv_db (sy_server (sys_open E k xs net ssh stdin now sid u t acc i s)))"
  using assms
  by (cases rule: sys_open_cases [of s k u t acc i E xs net ssh stdin now sid]) (auto dest: db_served_grows)

lemma grows_bridge: "sys_bridge E sid a l s = Some s' \<Longrightarrow> db_grows (sv_db (sy_server s)) (sv_db (sy_server s'))"
  by (auto simp: sys_bridge_def dest!: bridge_step_frame(2) db_served_grows)

lemma step_grows:
  assumes "sys_inv s" "system_step E ev s = Some s'"
  shows "db_grows (sv_db (sy_server s)) (sv_db (sy_server s'))"
proof -
  have refl: "db_grows d d" for d by (simp add: db_grows_def)
  show ?thesis
  proof (cases ev)
    case (EvOpen k xs net ssh stdin now sid)
    then show ?thesis using assms grows_open by (auto split: phase.splits)
  next
    case (EvBridge sid a)
    then show ?thesis using assms grows_bridge by (auto split: option.splits)
  qed (use assms refl undisturbed_grows [OF undisturbed_connect] undisturbed_grows [OF undisturbed_menu]
      undisturbed_grows [OF undisturbed_authorize] undisturbed_grows [OF undisturbed_return] undisturbed_grows [OF undisturbed_console]
      in \<open>auto split: if_splits phase.splits option.splits main_state.splits\<close>)
qed

lemma sys_up_step:
  assumes "sys_up s" "system_step E ev s = Some s'"
  shows "sys_up s'"
proof -
  have inv: "sys_inv s" and up: "outages (sv_db (sy_server s)) = []" using assms(1) by (simp_all add: sys_up_def)
  have inv': "sys_inv s'" by (rule sys_inv_step [OF inv assms(2)])
  have d': "schema_ok (sv_db (sy_server s'))" "outages (sv_db (sy_server s')) = []"
    using inv' step_grows [OF inv assms(2)] up by (simp_all add: sys_inv_def db_grows_def)
  have "bridge_inv (attach (sy_server s') (lv_bridge l'))" if l': "sy_live s' sid = Some l'" for sid l'
  proof (cases "sy_live s sid")
    case None
    show ?thesis by (rule step_new [OF inv assms(2) None l']) (use up in blast)
  next
    case (Some l)
    then have b: "bridge_inv (attach (sy_server s) (lv_bridge l))" and id: "b_SessionID (lv_bridge l) = sid"
      using assms(1) by (auto simp: sys_up_def sys_inv_def live_ok_def)
    show ?thesis
    proof (cases "\<exists>a. ev = EvBridge sid a")
      case True
      then obtain a where ev: "ev = EvBridge sid a" by blast
      obtain b' where "bridge_step (en_fold E) (en_waitN E) (en_sha E) a (attach (sy_server s) (lv_bridge l)) = Some b'"
        "sy_live s' sid = Some (l\<lparr>lv_bridge := b'\<rparr>)" "attach (sy_server s') b' = b'"
        by (rule step_own [OF assms(2) [unfolded ev] Some])
      then show ?thesis using bridge_inv_step [OF b] l' by simp
    next
      case False
      then have "undisturbed s s' sid" by (intro step_undisturbed [OF inv assms(2)]) (use Some in auto)
      then show ?thesis using bridge_inv_quiet [OF b _ d'] l' Some id by (simp add: undisturbed_def)
    qed
  qed
  then show ?thesis using inv' d' by (simp add: sys_up_def)
qed

interpretation server_up: guarded_machine "system_step E" sys_up
  by unfold_locales (rule sys_up_step)

subsection \<open>Where a session comes from\<close>

lemma filter_byte_cmds: "cf_allowedCmds (fst (filter_byte sf f c)) = cf_allowedCmds f"
  by (simp add: filter_byte_def forward_byte_def Let_def case_prod_beta)

lemma filter_loop_cmds: "cf_allowedCmds (fst (filter_loop sf f p)) = cf_allowedCmds f"
  by (induction p arbitrary: f) (auto simp: Let_def case_prod_beta filter_byte_cmds)

text \<open>No turn of a bridge changes the whitelist of its filter.\<close>

lemma bridge_step_cmds:
  assumes "bridge_step sf waitN sha a b = Some b'"
  shows "cf_allowedCmds (b_filter b') = cf_allowedCmds (b_filter b)"
proof -
  have "cf_allowedCmds (b_filter (stdin_chunk sf waitN p b)) = cf_allowedCmds (b_filter b)" for p
    by (simp add: stdin_chunk_def filter_Write_def filter_loop_cmds Let_def case_prod_beta)
  then show ?thesis using assms
    by (cases a) (auto simp: keepalive_tick_def close_ssh_def bridge_finish_def Let_def case_prod_beta
        split: if_splits option.splits sum.splits prod.splits keepalive.splits)
qed

text \<open>Who a session is for, where it leads and what it may run.\<close>

definition has_session :: "uuid \<Rightarrow> User \<Rightarrow> string \<Rightarrow> string list \<Rightarrow> ('l, 'v, 'sg, 'b) system \<Rightarrow> bool" where
  "has_session sid u host cmds s \<longleftrightarrow> (\<exists>l. sy_live s sid = Some l \<and> lv_user l = u \<and> lv_host l = host
     \<and> cf_allowedCmds (b_filter (lv_bridge l)) = cmds)"

lemma has_session_new:
  assumes "sys_inv s" "system_step E ev s = Some s'" "\<not> has_session sid u host cmds s" "has_session sid u host cmds s'"
  shows "\<exists>k acc i. sy_phase s k = Granted u host acc i \<and> cmds = go_slice (aa_AllowedCmds acc)"
proof -
  obtain l' where l': "sy_live s' sid = Some l'" "lv_user l' = u" "lv_host l' = host" "cf_allowedCmds (b_filter (lv_bridge l')) = cmds"
    using assms(4) by (auto simp: has_session_def)
  show ?thesis
  proof (cases "sy_live s sid")
    case None
    show ?thesis by (rule step_new [OF assms(1,2) None l'(1)]) (use l' in auto)
  next
    case (Some l)
    have "has_session sid u host cmds s"
    proof (cases "\<exists>a. ev = EvBridge sid a")
      case True
      then obtain a where ev: "ev = EvBridge sid a" by blast
      obtain b where "bridge_step (en_fold E) (en_waitN E) (en_sha E) a (attach (sy_server s) (lv_bridge l)) = Some b"
        "sy_live s' sid = Some (l\<lparr>lv_bridge := b\<rparr>)"
        by (rule step_own [OF assms(2) [unfolded ev] Some])
      then show ?thesis using bridge_step_cmds l' Some by (fastforce simp: has_session_def attach_def)
    next
      case False
      then have "undisturbed s s' sid" by (intro step_undisturbed [OF assms(1,2)]) (use Some in auto)
      then have "sy_live s sid = Some l'" using l'(1) by (simp add: undisturbed_def)
      then show ?thesis using l' by (simp add: has_session_def)
    qed
    then show ?thesis using assms(3) by contradiction
  qed
qed

definition holds_grant :: "nat \<Rightarrow> User \<Rightarrow> string \<Rightarrow> AuthorizedAccess \<Rightarrow> ('l, 'v, 'sg, 'b) system \<Rightarrow> bool" where
  "holds_grant k u host acc s \<longleftrightarrow> (\<exists>i. sy_phase s k = Granted u host acc i)"

lemma enters_console_phase: "sy_phase (enters_console CE k u i c sv s) j = Granted u' t acc i' \<Longrightarrow> j \<noteq> k \<and> sy_phase s j = Granted u' t acc i'"
  by (auto simp: enters_console_def case_prod_unfold Let_def split: if_splits)

lemma holds_grant_new:
  assumes "system_step E ev s = Some s'" "\<not> holds_grant k u host acc s" "holds_grant k u host acc s'"
  shows "(\<exists>i. sy_phase s k = Wants u host i) \<and> fst (Authorize (usr_ID u) (usr_Role u) host (sv_db (sy_server s))) = Inr acc"
  using assms
  by (cases ev) (auto simp: holds_grant_def sys_connect_def sys_menu_def sys_authorize_def sys_open_def sys_bridge_def sys_return_def sys_console_def
      return_to_def Let_def case_prod_beta dest!: enters_console_phase
      split: if_splits phase.splits option.splits main_state.splits prod.splits route.splits gateway_next.splits sum.splits console_exit.splits)

subsection \<open>Properties\<close>

lemma sys_init_inv:
  assumes "main_start SE v fs nets d = (Inr pr, d')" "schema_ok d"
  shows "sys_inv (sys_init pr)" "outages d = [] \<Longrightarrow> sys_up (sys_init pr)"
  using main_start_db [OF assms]
  by (simp_all add: sys_up_def sys_inv_def sys_init_def phase_ok_def handles_ok_def NewConnectionManager_def)

text \<open>C1. The whole server implements the reference monitor: every run of a process that has started, whatever
  its clients send and however their handlers, the sessions, the consoles and the background loops interleave, is a run of
  the monitor. So an identity is only ever taken from an account by a login, a session is only opened for a permission, a
  permission is only given while the policy or a grant opens the host to that user, a console only opens to
  an administrator or to who may reach a host of its name, and accounts and rights only change while a
  console is open.\<close>

theorem server_refines_monitor:
  assumes "main_start SE v fs nets d = (Inr pr, d')" "schema_ok d"
    and "s0 = sys_init pr" "reaches (system_step E) s0 s"
  shows "mstep\<^sup>*\<^sup>* (view s0) (view s)"
  by (rule server_machine.refines [OF assms(4)]) (simp add: assms(3) sys_init_inv(1) [OF assms(1,2)])

definition demo_env :: "(unit, unit, unit, int) sys_env" where
  "demo_env = \<lparr>en_mk = (\<lambda>_ _. ()), en_lim = (\<lambda>_ l. (True, l)), en_json = (\<lambda>_. Inr demo_request), en_req_err = (\<lambda>_. []),
     en_bcmp = demo_cmp, en_cfg = demo_config, en_err = (\<lambda>_. []), en_kv_get = demo_kv, en_parse_key = (\<lambda>_. Inr ()), en_sha = (\<lambda>_. []),
     en_uuid_string = (\<lambda>_. ''s''), en_nano = (\<lambda>_. ''t''), en_inet_in = (\<lambda>_. Some (Inet ''10.1.1.1'' 32)), en_newLimiter = (\<lambda>r b. b),
     en_waitN = demo_wait, en_fold = (\<lambda>_ _. False)\<rparr>"

text \<open>A run: a process starts, jdoe logs in for the machine dev-01, is authorized and gets a session.\<close>

definition demo_events :: "(unit, unit) event list" where
  "demo_events = [EvConnect 0 0 demo_clk ''10.0.0.1:5000'' demo_client demo_console_env, EvAuthorize 0 [], EvOpen 0 [] demo_net demo_ssh empty_sink 0 50]"

definition demo_jdoe :: User where
  "demo_jdoe = \<lparr>usr_ID = 1, usr_Username = ''jdoe'', usr_Role = ''sre-tier1''\<rparr>"

abbreviation demo_nets :: nets where
  "demo_nets \<equiv> (\<lambda>_. \<lparr>n_ctx_done = False, n_ssh_open = False\<rparr>)"

lemma demo_process:
  "\<exists>pr d'. main_start demo_startup () demo_fs demo_nets demo_rbac = (Inr pr :: startup_error + (unit, unit) process, d')
     \<and> sv_db (pr_server pr) = demo_rbac \<and> sv_guard (pr_server pr) = NewDiskGuard (AuditDiskMaxPct demo_config)
     \<and> sv_fs (pr_server pr) = demo_fs \<and> \<not> sv_VaultDevMode (pr_server pr)"
  by (simp add: main_start_def demo_startup_def Load_def validate_def demo_config_def db_Connect_def ping_def query_up demo_rbac_ok
      vault_New_def loginAppRole_def setToken_def NewTLSListener_def dev_mode_def CleanupOrphanedSessions_def run_stmt_up set_status_def Let_def split: option.split)
   (simp add: demo_rbac_def)

lemma demo_auth:
  "ao_result (Authenticate demo_cmp demo_config demo_clk demo_rbac ''jdoe'' ''pw'') = Inr demo_jdoe"
  "ao_db (Authenticate demo_cmp demo_config demo_clk demo_rbac ''jdoe'' ''pw'') = demo_rbac"
  by (simp_all add: Authenticate_def select_user_def query_def run_stmt_def reset_failed_def demo_rbac_def VerifyPassword_def demo_cmp_def demo_jdoe_def)

text \<open>The route, the authorization and the setup of the example.\<close>

lemma demo_run_opens:
  fixes pr :: "(unit, unit) process"
  assumes "sv_db (pr_server pr) = demo_rbac" "sv_guard (pr_server pr) = NewDiskGuard (AuditDiskMaxPct demo_config)"
    "sv_fs (pr_server pr) = demo_fs" "\<not> sv_VaultDevMode (pr_server pr)"
  shows "\<exists>s l. run_opt (system_step demo_env) demo_events (sys_init pr) = Some s \<and> sy_live s 50 = Some l \<and> lv_user l = demo_jdoe
    \<and> lv_host l = ''dev-01'' \<and> b_main (lv_bridge l) = MainBlocked \<and> cm_sessions (sv_manager (sy_server s)) 50 \<noteq> None"
proof -
  let ?E = demo_env and ?s0 = "sys_init pr :: (unit, unit, unit, int) system"
  let ?acc = "access_of demo_rbac ''sre-tier1'' (hd (servers demo_rbac))"
  obtain c1 sv1 where h: "handleConnection (en_mk ?E) (en_lim ?E) (en_json ?E) (en_req_err ?E) (en_bcmp ?E) (en_cfg ?E) 0 demo_clk ''10.0.0.1:5000'' demo_client
      (pr_server pr) = (ToTarget demo_jdoe ''dev-01'', c1, sv1)"
    and sv1: "sv_db sv1 = demo_rbac" "sv_fs sv1 = demo_fs" "sv_VaultDevMode sv1 = False"
    using assms demo_read demo_auth
    by (simp add: handleConnection_def demo_env_def Allow_def NewDiskGuard_def ShouldRejectNewConnections_def demo_request_def admin_console_name_def Let_def)
  define s1 where "s1 = goes 0 (Wants demo_jdoe ''dev-01'' False) c1 sv1 ?s0"
  have 1: "system_step ?E (EvConnect 0 0 demo_clk ''10.0.0.1:5000'' demo_client demo_console_env) ?s0 = Some s1"
    using h by (simp add: s1_def sys_connect_def sys_init_def)
  define s2 where "s2 = goes 0 (Granted demo_jdoe ''dev-01'' ?acc False) (input s1 0 []) sv1 s1"
  have same: "sv1\<lparr>sv_db := demo_rbac\<rparr> = sv1" using sv1(1) by simp
  have "Authorize (usr_ID demo_jdoe) (usr_Role demo_jdoe) ''dev-01'' (sv_db (sy_server s1)) = (Inr ?acc, demo_rbac)"
    using demo_authorized sv1(1) by (simp add: s1_def demo_jdoe_def)
  then have 2: "system_step ?E (EvAuthorize 0 []) s1 = Some s2"
    using same by (simp add: s1_def s2_def sys_authorize_def Let_def)
  obtain sg b c3 sv3 where g: "connect_granted (en_kv_get ?E) (en_parse_key ?E) (en_sha ?E) demo_net (en_uuid_string ?E) (en_nano ?E) (en_inet_in ?E)
      (en_newLimiter ?E) demo_ssh empty_sink 0 50 demo_jdoe ?acc False (input s2 0 []) (sy_server s2) = (Inr (sg, b), c3, sv3)"
    and b: "b_main b = MainBlocked" "cm_sessions (b_manager b) 50 \<noteq> None"
    using sv1
    by (simp add: s2_def demo_env_def connect_granted_def FetchPrivateKey_def FetchHostFingerprint_def demo_kv_def demo_jdoe_def
      ssh_Dial_def StrictHostKeyCallback_def computeFingerprint_def demo_net_def NewWriter_def fs_create_def demo_fs_def
      Bridge_start_def demo_ssh_def Register_def run_stmt_def access_of_def nth_append cm_Register_def Let_def)
     (simp add: demo_rbac_def cm_Register_def)
  define s3 where "s3 = sys_open ?E 0 [] demo_net demo_ssh empty_sink 0 50 demo_jdoe ''dev-01'' ?acc False s2"
  have 3: "system_step ?E (EvOpen 0 [] demo_net demo_ssh empty_sink 0 50) s2 = Some s3" by (simp add: s2_def s3_def)
  have "run_opt (system_step ?E) demo_events ?s0 = Some s3" using 1 2 3 by (simp add: demo_events_def del: system_step.simps)
  moreover have "sy_live s3 50 = Some \<lparr>lv_user = demo_jdoe, lv_host = ''dev-01'', lv_signer = sg, lv_bridge = b\<rparr>"
    "sv_manager (sy_server s3) = b_manager b"
    using g by (simp_all add: s3_def sys_open_def)
  ultimately show ?thesis using b by (intro exI [of _ s3] exI) auto
qed

lemma demo_reaches:
  "\<exists>pr d' s0 s l. main_start demo_startup () demo_fs demo_nets demo_rbac = (Inr pr :: startup_error + (unit, unit) process, d')
     \<and> s0 = (sys_init pr :: (unit, unit, unit, int) system) \<and> reaches (system_step demo_env) s0 s
     \<and> sy_live s 50 = Some l \<and> lv_user l = demo_jdoe \<and> lv_host l = ''dev-01'' \<and> b_main (lv_bridge l) = MainBlocked
     \<and> cm_sessions (sv_manager (sy_server s)) 50 \<noteq> None"
proof -
  obtain pr :: "(unit, unit) process" and d' where pr: "main_start demo_startup () demo_fs demo_nets demo_rbac = (Inr pr, d')"
    "sv_db (pr_server pr) = demo_rbac" "sv_guard (pr_server pr) = NewDiskGuard (AuditDiskMaxPct demo_config)"
    "sv_fs (pr_server pr) = demo_fs" "\<not> sv_VaultDevMode (pr_server pr)"
    using demo_process by blast
  from demo_run_opens [OF pr(2-5)] pr(1) show ?thesis unfolding reaches_iff_run by blast
qed

theorem server_refines_monitor_witness:
  "\<exists>pr d' s0 s l. main_start demo_startup () demo_fs demo_nets demo_rbac = (Inr pr :: startup_error + (unit, unit) process, d')
     \<and> s0 = (sys_init pr :: (unit, unit, unit, int) system) \<and> reaches (system_step demo_env) s0 s \<and> sy_live s 50 = Some l
     \<and> mstep\<^sup>*\<^sup>* (view s0) (view s)"
proof -
  obtain pr :: "(unit, unit) process" and d' s0 s l where pr: "main_start demo_startup () demo_fs demo_nets demo_rbac = (Inr pr, d')"
    "s0 = (sys_init pr :: (unit, unit, unit, int) system)" "reaches (system_step demo_env) s0 s" "sy_live s 50 = Some l"
    using demo_reaches by blast
  from server_refines_monitor [OF pr(1) demo_rbac_ok(1) pr(2,3)] pr show ?thesis by blast
qed

text \<open>C2. Every session was permitted: whenever a process that has started serves a session, there was a moment at which the handler of
  some connection, acting for the session's user, asked the policy engine for the session's host and was
  granted it, because the policy or a grant opened that host to the user at that moment; the
  session runs under the whitelist of the user's role as it was then, and the user is an account.\<close>

theorem session_was_permitted:
  assumes "main_start SE v fs nets d = (Inr pr, d')" "schema_ok d"
    and "s0 = sys_init pr" "reaches (system_step E) s0 s" "sy_live s sid = Some l" "u = lv_user l"
  shows "\<exists>t k i. reaches (system_step E) s0 t \<and> reaches (system_step E) t s \<and> sy_phase t k = Wants u (lv_host l) i
    \<and> can_reach (sv_db (sy_server t)) (usr_ID u) (usr_Role u) (lv_host l)
    \<and> cf_allowedCmds (b_filter (lv_bridge l)) = go_slice (policy_cmds (sv_db (sy_server t)) (usr_Role u))
    \<and> u \<in> identities (sv_db (sy_server s))"
proof -
  let ?R = "reaches (system_step E)" and ?h = "lv_host l" and ?cmds = "cf_allowedCmds (b_filter (lv_bridge l))"
  have inv: "sys_inv t" if "?R s0 t" for t
    using server_machine.inv_reaches [OF that] sys_init_inv(1) [OF assms(1,2)] assms(3) by simp
  have none: "\<not> has_session sid u ?h ?cmds s0" "\<not> holds_grant k u ?h acc s0" for k acc
    by (simp_all add: has_session_def holds_grant_def assms(3) sys_init_def)
  have "has_session sid u ?h ?cmds s" using assms(5,6) by (simp add: has_session_def)
  from reaches_first [OF assms(4) none(1) this] obtain a ev b where
    ab: "?R s0 a" "\<not> has_session sid u ?h ?cmds a" "system_step E ev a = Some b" "has_session sid u ?h ?cmds b" "?R b s" .
  from has_session_new [OF inv [OF ab(1)] ab(3,2,4)] obtain k acc i where
    g: "sy_phase a k = Granted u ?h acc i" "?cmds = go_slice (aa_AllowedCmds acc)" by blast
  then have "holds_grant k u ?h acc a" by (simp add: holds_grant_def)
  from reaches_first [OF ab(1) none(2) this] obtain t ev' t' where
    t: "?R s0 t" "\<not> holds_grant k u ?h acc t" "system_step E ev' t = Some t'" "holds_grant k u ?h acc t'" "?R t' a" .
  from holds_grant_new [OF t(3,2,4)] obtain j d1 where
    w: "sy_phase t k = Wants u ?h j" and az: "Authorize (usr_ID u) (usr_Role u) ?h (sv_db (sy_server t)) = (Inr acc, d1)"
    by (metis prod.collapse)
  have ok: "schema_ok (sv_db (sy_server t))" using inv [OF t(1)] by (simp add: sys_inv_def)
  have "aa_AllowedCmds acc = policy_cmds (sv_db (sy_server t)) (usr_Role u)"
    using Authorize_Inr [OF az ok] by (auto simp: access_of_def)
  moreover have "?R t s"
    by (rule reaches_trans [OF ab(5) reaches_trans [OF _ reaches_trans [OF t(5)]]]) (use t(3) ab(3) in \<open>auto intro: reaches.intros\<close>)
  moreover have "u \<in> identities (sv_db (sy_server s))"
    using inv [OF assms(4)] assms(5,6) by (auto simp: sys_inv_def live_ok_def)
  ultimately show ?thesis using t(1) w Authorize_can_reach [OF az ok] g(2) by metis
qed

theorem session_was_permitted_witness:
  "\<exists>pr d' s0 s l. main_start demo_startup () demo_fs demo_nets demo_rbac = (Inr pr :: startup_error + (unit, unit) process, d')
     \<and> s0 = (sys_init pr :: (unit, unit, unit, int) system) \<and> reaches (system_step demo_env) s0 s \<and> sy_live s 50 = Some l
     \<and> (\<exists>t k i. reaches (system_step demo_env) s0 t \<and> reaches (system_step demo_env) t s \<and> sy_phase t k = Wants demo_jdoe (lv_host l) i
       \<and> can_reach (sv_db (sy_server t)) (usr_ID demo_jdoe) (usr_Role demo_jdoe) (lv_host l)
       \<and> cf_allowedCmds (b_filter (lv_bridge l)) = go_slice (policy_cmds (sv_db (sy_server t)) (usr_Role demo_jdoe))
       \<and> demo_jdoe \<in> identities (sv_db (sy_server s)))"
proof -
  obtain pr :: "(unit, unit) process" and d' s0 s l where pr: "main_start demo_startup () demo_fs demo_nets demo_rbac = (Inr pr, d')"
    "s0 = (sys_init pr :: (unit, unit, unit, int) system)" "reaches (system_step demo_env) s0 s" "sy_live s 50 = Some l" "demo_jdoe = lv_user l"
    using demo_reaches by metis
  from session_was_permitted [OF pr(1) demo_rbac_ok(1) pr(2-5)] pr show ?thesis by blast
qed

text \<open>C19. Every state of a running process is well formed: the database satisfies its constraints, every
  handler acts under the identity of an account, no handler has crashed, every console is in a valid
  state, every session has its row in the table of sessions, and every handle of the kill switch is that of a
  session whose bridge has not returned.\<close>

theorem system_well_formed:
  assumes "main_start SE v fs nets d = (Inr pr, d')" "schema_ok d"
    and "s0 = sys_init pr" "reaches (system_step E) s0 s" "sv = sy_server s"
  shows "schema_ok (sv_db sv)
    \<and> (\<forall>k u. who (sy_phase s k) = Some u \<longrightarrow> u \<in> identities (sv_db sv))
    \<and> (\<forall>k u. sy_phase s k \<noteq> Crashed u)
    \<and> (\<forall>k u i al n co. sy_phase s k = InConsole u i al n co \<longrightarrow> console_ok co)
    \<and> (\<forall>sid l. sy_live s sid = Some l \<longrightarrow> (sid, usr_ID (lv_user l)) \<in> registered (sv_db sv))
    \<and> (\<forall>sid h. cm_sessions (sv_manager sv) sid = Some h \<longrightarrow>
         h = session_handle sid \<and> (\<exists>l. sy_live s sid = Some l \<and> b_SessionID (lv_bridge l) = sid \<and> running (lv_bridge l)))"
proof -
  have inv: "sys_inv s" using server_machine.inv_reaches [OF assms(4)] sys_init_inv(1) [OF assms(1,2)] assms(3) by simp
  have ph: "place_ok (sy_live s) (sy_phase s k)" for k using inv by (simp add: sys_inv_def phase_ok_def)
  have live: "live_ok (sv_db sv) sid l" if "sy_live s sid = Some l" for sid l using inv that by (simp add: sys_inv_def assms(5))
  show ?thesis
  proof (intro conjI allI impI)
    show "schema_ok (sv_db sv)" using inv by (simp add: sys_inv_def assms(5))
    show "u \<in> identities (sv_db sv)" if "who (sy_phase s k) = Some u" for k u using inv_user [OF inv that] assms(5) by simp
    show "sy_phase s k \<noteq> Crashed u" for k u using ph [of k] by auto
    show "console_ok co" if "sy_phase s k = InConsole u i al n co" for k u i al n co using ph [of k] that by simp
    show "(sid, usr_ID (lv_user l)) \<in> registered (sv_db sv)" if "sy_live s sid = Some l" for sid l using live [OF that] by (simp add: live_ok_def)
    fix sid h assume h: "cm_sessions (sv_manager sv) sid = Some h"
    then show "h = session_handle sid" using inv by (simp add: sys_inv_def handles_ok_def assms(5))
    obtain l where "sy_live s sid = Some l" "running (lv_bridge l)" using inv h by (fastforce simp: sys_inv_def assms(5))
    then show "\<exists>l. sy_live s sid = Some l \<and> b_SessionID (lv_bridge l) = sid \<and> running (lv_bridge l)" using live by (auto simp: live_ok_def)
  qed
qed

theorem system_well_formed_witness:
  "\<exists>pr d' s0 s. main_start demo_startup () demo_fs demo_nets demo_rbac = (Inr pr :: startup_error + (unit, unit) process, d')
     \<and> s0 = (sys_init pr :: (unit, unit, unit, int) system) \<and> reaches (system_step demo_env) s0 s \<and> sy_live s 50 \<noteq> None
     \<and> schema_ok (sv_db (sy_server s))"
proof -
  obtain pr :: "(unit, unit) process" and d' s0 s l where pr: "main_start demo_startup () demo_fs demo_nets demo_rbac = (Inr pr, d')"
    "s0 = (sys_init pr :: (unit, unit, unit, int) system)" "reaches (system_step demo_env) s0 s" "sy_live s 50 = Some l"
    using demo_reaches by blast
  from system_well_formed [OF pr(1) demo_rbac_ok(1) pr(2,3) refl] pr show ?thesis by blast
qed

text \<open>C20. Sessions end cleanly in the whole system: as long as the database is up, whatever else the server does, every
  session has a status, and a session whose bridge has returned has both copy loops stopped, its recording
  closed, no handle in the kill switch and a row that is no longer active.\<close>

theorem ended_sessions_are_closed:
  assumes "main_start SE v fs nets d = (Inr pr, d')" "schema_ok d" "outages d = []"
    and "s0 = sys_init pr" "reaches (system_step E) s0 s" "sy_live s sid = Some l"
  shows "status_of (sv_db (sy_server s)) sid \<noteq> None
    \<and> (b_main (lv_bridge l) = MainDone r \<longrightarrow> b_in (lv_bridge l) = Exited \<and> b_out (lv_bridge l) = Exited \<and> w_closed (b_writer (lv_bridge l))
        \<and> cm_sessions (sv_manager (sy_server s)) sid = None \<and> status_of (sv_db (sy_server s)) sid \<noteq> Some ''active'')"
proof -
  have up: "sys_up s" using server_up.inv_reaches [OF assms(5)] sys_init_inv(2) [OF assms(1-3)] assms(4) by simp
  then have "bridge_inv (attach (sy_server s) (lv_bridge l))" "b_SessionID (lv_bridge l) = sid"
    using assms(6) by (auto simp: sys_up_def sys_inv_def live_ok_def)
  then show ?thesis by (simp add: bridge_inv_def session_status_def)
qed

text \<open>A run of a bridge is a run of the system.\<close>

lemma run_bridge:
  assumes "sy_live s sid = Some l" "run_opt (bridge_step (en_fold E) (en_waitN E) (en_sha E)) as (attach (sy_server s) (lv_bridge l)) = Some b"
  shows "\<exists>s' l'. run_opt (system_step E) (map (EvBridge sid) as) s = Some s' \<and> sy_live s' sid = Some l' \<and> attach (sy_server s') (lv_bridge l') = b"
  using assms
proof (induction as arbitrary: s l)
  case (Cons a as)
  then obtain b1 where st: "bridge_step (en_fold E) (en_waitN E) (en_sha E) a (attach (sy_server s) (lv_bridge l)) = Some b1"
    and run: "run_opt (bridge_step (en_fold E) (en_waitN E) (en_sha E)) as b1 = Some b" by (auto split: option.splits)
  define s1 where "s1 = s\<lparr>sy_server := detach b1 (sy_server s), sy_live := (sy_live s)(sid \<mapsto> l\<lparr>lv_bridge := b1\<rparr>)\<rparr>"
  have "system_step E (EvBridge sid a) s = Some s1" using Cons.prems(1) st by (simp add: sys_bridge_def s1_def)
  moreover have "sy_live s1 sid = Some (l\<lparr>lv_bridge := b1\<rparr>)" "attach (sy_server s1) b1 = b1" by (simp_all add: s1_def attach_def)
  ultimately show ?case using Cons.IH [of s1 "l\<lparr>lv_bridge := b1\<rparr>"] run by simp
qed simp

lemma reaches_run: "reaches f s t \<Longrightarrow> run_opt f as t = Some u \<Longrightarrow> reaches f s u"
  by (meson reaches_iff_run reaches_trans)

theorem ended_sessions_are_closed_witness:
  "\<exists>pr d' s0 s l r. main_start demo_startup () demo_fs demo_nets demo_rbac = (Inr pr :: startup_error + (unit, unit) process, d')
     \<and> s0 = (sys_init pr :: (unit, unit, unit, int) system) \<and> reaches (system_step demo_env) s0 s \<and> sy_live s 50 = Some l
     \<and> b_main (lv_bridge l) = MainDone r \<and> w_closed (b_writer (lv_bridge l)) \<and> status_of (sv_db (sy_server s)) 50 \<noteq> Some ''active''"
proof -
  obtain pr :: "(unit, unit) process" and d' s0 s l where pr: "main_start demo_startup () demo_fs demo_nets demo_rbac = (Inr pr, d')"
    "s0 = (sys_init pr :: (unit, unit, unit, int) system)" "reaches (system_step demo_env) s0 s" "sy_live s 50 = Some l"
    using demo_reaches by blast
  obtain as b r where "run_opt (bridge_step (en_fold demo_env) (en_waitN demo_env) (en_sha demo_env)) as (attach (sy_server s) (lv_bridge l)) = Some b"
    and b: "b_main b = MainDone r" using drain_runs by blast
  from run_bridge [OF pr(4) this(1)] obtain s' l' where
    s': "run_opt (system_step demo_env) (map (EvBridge 50) as) s = Some s'" "sy_live s' 50 = Some l'" "attach (sy_server s') (lv_bridge l') = b" by blast
  have "b_main (lv_bridge l') = MainDone r" using b s'(3) by (metis attach_fields(6))
  moreover have "reaches (system_step demo_env) s0 s'" by (rule reaches_run [OF pr(3) s'(1)])
  ultimately show ?thesis
    using ended_sessions_are_closed [OF pr(1) demo_rbac_ok pr(2) _ s'(2), of demo_env r] pr(1,2) s'(2) by blast
qed

subsection \<open>Kills\<close>

text \<open>A session that was killed stays killed, whatever happens to it or around it.\<close>

definition is_killed :: "uuid \<Rightarrow> ('l, 'v, 'sg, 'b) system \<Rightarrow> bool" where
  "is_killed sid s \<longleftrightarrow> sys_up s \<and> (\<exists>l. sy_live s sid = Some l \<and> killed_inv (attach (sy_server s) (lv_bridge l)))"

lemma killed_inv_attach:
  "killed_inv (attach sv b) \<longleftrightarrow> bridge_inv (attach sv b) \<and> n_ctx_done (sv_nets sv (b_SessionID b)) \<and> \<not> n_ssh_open (sv_nets sv (b_SessionID b))
     \<and> cm_sessions (sv_manager sv) (b_SessionID b) = None \<and> (\<forall>r. b_main b = MainDone r \<longrightarrow> r = revoked)"
  by (simp add: killed_inv_def ctx_done_def ssh_open_def)

lemma is_killed_step:
  assumes "is_killed sid s" "system_step E ev s = Some s'"
  shows "is_killed sid s'"
proof -
  obtain l where up: "sys_up s" and l: "sy_live s sid = Some l" and k: "killed_inv (attach (sy_server s) (lv_bridge l))"
    using assms(1) by (auto simp: is_killed_def)
  have up': "sys_up s'" by (rule sys_up_step [OF up assms(2)])
  have inv: "sys_inv s" and id: "b_SessionID (lv_bridge l) = sid" using up l by (auto simp: sys_up_def sys_inv_def live_ok_def)
  show ?thesis
  proof (cases "\<exists>a. ev = EvBridge sid a")
    case True
    then obtain a where ev: "ev = EvBridge sid a" by blast
    obtain b where "bridge_step (en_fold E) (en_waitN E) (en_sha E) a (attach (sy_server s) (lv_bridge l)) = Some b"
      "sy_live s' sid = Some (l\<lparr>lv_bridge := b\<rparr>)" "attach (sy_server s') b = b"
      by (rule step_own [OF assms(2) [unfolded ev] l])
    then show ?thesis using killed_inv_step [OF k] up' by (simp add: is_killed_def)
  next
    case False
    then have u: "undisturbed s s' sid" by (intro step_undisturbed [OF inv assms(2)]) (use l in auto)
    then have l': "sy_live s' sid = Some l" using l by (simp add: undisturbed_def)
    then have "bridge_inv (attach (sy_server s') (lv_bridge l))" using up' by (simp add: sys_up_def)
    then have "killed_inv (attach (sy_server s') (lv_bridge l))"
      using k u id unfolding killed_inv_attach undisturbed_def quiet_def spared_or_killed_def by auto
    then show ?thesis using l' up' by (simp add: is_killed_def)
  qed
qed

interpretation killed_session: guarded_machine "system_step E" "is_killed sid"
  by unfold_locales (rule is_killed_step)

text \<open>Losing its handle while its bridge runs is what being killed means: by the kill switch or by a console.\<close>

lemma bridge_step_handle:
  assumes "bridge_step sf waitN sha a b = Some b'" "cm_sessions (b_manager b) (b_SessionID b) \<noteq> None"
    and "cm_sessions (b_manager b') (b_SessionID b) = None" "running b'"
  shows "\<exists>reason. a = Kill reason"
  using assms
  by (cases a) (auto simp: keepalive_tick_def close_ssh_def bridge_finish_def running_def Let_def case_prod_beta
      split: if_splits keepalive.splits)

lemma becomes_killed:
  assumes "sys_up s" "system_step E ev s = Some s'" "sy_live s' sid = Some l'" "running (lv_bridge l')"
    and "cm_sessions (sv_manager (sy_server s)) sid \<noteq> None" "cm_sessions (sv_manager (sy_server s')) sid = None"
  shows "is_killed sid s'"
proof -
  have up': "sys_up s'" by (rule sys_up_step [OF assms(1,2)])
  then have b': "bridge_inv (attach (sy_server s') (lv_bridge l'))" and id': "b_SessionID (lv_bridge l') = sid"
    using assms(3) by (auto simp: sys_up_def sys_inv_def live_ok_def)
  have inv: "sys_inv s" using assms(1) by (simp add: sys_up_def)
  obtain l where l: "sy_live s sid = Some l" using inv assms(5) unfolding sys_inv_def by blast
  have b: "bridge_inv (attach (sy_server s) (lv_bridge l))" and id: "b_SessionID (lv_bridge l) = sid"
    using assms(1) l by (auto simp: sys_up_def sys_inv_def live_ok_def)
  show ?thesis
  proof (cases "\<exists>a. ev = EvBridge sid a")
    case True
    then obtain a where ev: "ev = EvBridge sid a" by blast
    obtain c where c: "bridge_step (en_fold E) (en_waitN E) (en_sha E) a (attach (sy_server s) (lv_bridge l)) = Some c"
      "sy_live s' sid = Some (l\<lparr>lv_bridge := c\<rparr>)" "attach (sy_server s') c = c"
      by (rule step_own [OF assms(2) [unfolded ev] l])
    have l': "lv_bridge l' = c" using c(2) assms(3) by simp
    have "cm_sessions (b_manager c) sid = None" using c(3) assms(6) by (metis attach_fields(3))
    then obtain reason where "a = Kill reason" using bridge_step_handle [OF c(1)] assms(4,5) l' id by auto
    then have "killed_inv c" using Kill_killed_inv b c(1) assms(4) l' by (fastforce simp: running_def)
    then show ?thesis using c up' by (simp add: is_killed_def)
  next
    case False
    then have u: "undisturbed s s' sid" by (intro step_undisturbed [OF inv assms(2)]) (use l in auto)
    then have "killed_inv (attach (sy_server s') (lv_bridge l'))"
      using b' id' assms(4-6) unfolding killed_inv_attach undisturbed_def quiet_def spared_or_killed_def running_def by auto
    then show ?thesis using assms(3) up' by (auto simp: is_killed_def)
  qed
qed

text \<open>What is left of a killed session: the target is silent, and five turns end it.\<close>

lemma killed_ends:
  assumes "is_killed sid s2"
  shows "system_step E (EvBridge sid (BackendData now p)) s2 = None
    \<and> (\<exists>as s3 l3. length as \<le> 5 \<and> set as \<subseteq> {BackendEnd, MainWake, ClientEnd, MainFinish}
        \<and> run_opt (system_step E) (map (EvBridge sid) as) s2 = Some s3 \<and> sy_live s3 sid = Some l3
        \<and> b_main (lv_bridge l3) = MainDone revoked \<and> status_of (sv_db (sy_server s3)) sid \<noteq> Some ''active'')"
proof -
  obtain l where l: "sy_live s2 sid = Some l" and k: "killed_inv (attach (sy_server s2) (lv_bridge l))" using assms by (auto simp: is_killed_def)
  let ?b = "attach (sy_server s2) (lv_bridge l)"
  have silent: "system_step E (EvBridge sid (BackendData now p)) s2 = None"
    using k l by (simp add: sys_bridge_def killed_inv_def)
  obtain b r where dr: "run_opt (bridge_step (en_fold E) (en_waitN E) (en_sha E)) (drain ?b) ?b = Some b" "b_main b = MainDone r"
    and small: "length (drain ?b) \<le> 5" "set (drain ?b) \<subseteq> {BackendEnd, MainWake, ClientEnd, MainFinish}"
    using drain_runs [of "en_fold E" "en_waitN E" "en_sha E" ?b] by blast
  obtain s3 l3 where s3: "run_opt (system_step E) (map (EvBridge sid) (drain ?b)) s2 = Some s3" "sy_live s3 sid = Some l3"
    "attach (sy_server s3) (lv_bridge l3) = b" using run_bridge [OF l dr(1)] by blast
  have "is_killed sid s3" by (rule killed_session.inv_run_opt [OF s3(1) assms])
  then have k3: "killed_inv (attach (sy_server s3) (lv_bridge l3))" "b_SessionID (lv_bridge l3) = sid"
    using s3(2) by (auto simp: is_killed_def sys_up_def sys_inv_def live_ok_def)
  have main: "b_main (lv_bridge l3) = MainDone r" using dr(2) s3(3) by (metis attach_fields(6))
  then have "r = revoked" "status_of (sv_db (sy_server s3)) sid \<noteq> Some ''active''"
    using k3 by (auto simp: killed_inv_attach bridge_inv_def session_status_def)
  then show ?thesis using silent small s3(1,2) main by blast
qed


lemma demo_killed:
  assumes "sys_up s" "sy_live s 50 = Some l" "cm_sessions (sv_manager (sy_server s)) 50 \<noteq> None"
  shows "\<exists>s1 l1. system_step demo_env (EvBridge 50 (Kill ''admin-kill'')) s = Some s1 \<and> cm_sessions (sv_manager (sy_server s1)) 50 = None
    \<and> sy_live s1 50 = Some l1 \<and> running (lv_bridge l1)"
proof -
  have id: "b_SessionID (lv_bridge l) = 50" using assms(1,2) by (auto simp: sys_up_def sys_inv_def live_ok_def)
  have "running (lv_bridge l)" using assms by (auto simp: sys_up_def sys_inv_def)
  then show ?thesis using assms(2,3) id
    by (auto simp: sys_bridge_def cm_Terminate_def cm_Deregister_def running_def Let_def)
qed


subsection \<open>A gap\<close>

text \<open>After its authorization a connection attempt does not look at the grants again: whatever an administrator
  revokes between the authorization and the registration of the session, the session opens, and since it has no
  row yet the revocation finds nothing to kill.\<close>

lemma Register_grants:
  "fst (Register ii now sid uid srv ip (d\<lparr>grants := G\<rparr>)) = fst (Register ii now sid uid srv ip d)"
  "snd (Register ii now sid uid srv ip (d\<lparr>grants := G\<rparr>)) = (snd (Register ii now sid uid srv ip d))\<lparr>grants := G\<rparr>"
  by (simp_all add: Register_def run_stmt_def split: list.split option.split)

lemma Bridge_start_grants:
  "Bridge_start ii nl ssh now cfg stdin cl w cm fs d = Inr b \<Longrightarrow>
   Bridge_start ii nl ssh now cfg stdin cl w cm fs (d\<lparr>grants := G\<rparr>) = Inr (b\<lparr>b_db := (b_db b)\<lparr>grants := G\<rparr>\<rparr>)"
  using Register_grants [where d = d and G = G]
  by (auto simp: Bridge_start_def case_prod_beta split: if_splits sum.splits)

lemma revocation_misses_pending_session:
  assumes "connect_granted kv_get parse_key sha net us nano ii nl ssh stdin now sid user acc i c sv = (Inr (sg, b), c', sv')"
  shows "\<exists>sv''. connect_granted kv_get parse_key sha net us nano ii nl ssh stdin now sid user acc i c
      (sv\<lparr>sv_db := (sv_db sv)\<lparr>grants := G\<rparr>\<rparr>) = (Inr (sg, b\<lparr>b_db := (b_db b)\<lparr>grants := G\<rparr>\<rparr>), c', sv'')"
  using assms
  by (auto simp: connect_granted_def Let_def case_prod_beta Bridge_start_grants split: sum.splits option.splits if_splits prod.splits)

end
