(* ===== verification/Zttp_Lifecycle.thy ===== *)
theory Zttp_Lifecycle
  imports Zttp_Runs
begin

text \<open>
  The rest of the life of the proxy process, \<^verbatim>\<open>cmd/proxy/main.go\<close>: the HTTP server beside the proxy, the shutdown
  on a signal, and what a restart finds.

  The HTTP server's multiplexer is that of Go's \<^verbatim>\<open>net/http\<close> with the three patterns that \<^verbatim>\<open>main\<close> registers. A request is its
  method and the segments of its cleaned path, none of them empty.
\<close>

subsection \<open>The HTTP server\<close>

datatype http_target = ToHealth | ToReady | ToTerminate string | WrongMethod | NoPattern

definition mux :: "string \<Rightarrow> string list \<Rightarrow> http_target" where
  "mux verb path =
     (if path = [''healthz''] then ToHealth
      else if path = [''readyz''] then ToReady
      else case path of
          [a, b, session, t] \<Rightarrow>
            (if a = ''api'' \<and> b = ''sessions'' \<and> t = ''terminate''
             then (if verb = ''POST'' then ToTerminate session else WrongMethod) else NoPattern)
        | _ \<Rightarrow> NoPattern)"

definition http_serve ::
  "(Status \<Rightarrow> bytes) \<Rightarrow> string \<Rightarrow> string \<Rightarrow> (string \<Rightarrow> uuid option) \<Rightarrow>
   (string \<Rightarrow> string \<Rightarrow> string \<Rightarrow> 'c \<times> 'w \<times> db \<Rightarrow> (string + unit) \<times> 'c \<times> 'w \<times> db) \<Rightarrow>
   string \<Rightarrow> string list \<Rightarrow> 'c \<times> 'w \<times> db \<Rightarrow> http_response \<times> 'c \<times> 'w \<times> db" where
  "http_serve json timestamp uptime uuid_in kill verb path = (\<lambda>(cm, w, d).
     case mux verb path of
       ToHealth \<Rightarrow> (let ((_, r), d') = health_Handler json timestamp uptime d in (r, cm, w, d'))
     | ToReady \<Rightarrow> (ReadyHandler, cm, w, d)
     | ToTerminate sessionID \<Rightarrow> killSwitchHandler uuid_in kill sessionID (cm, w, d)
     | WrongMethod \<Rightarrow> (http_Error ''Method Not Allowed'' 405, cm, w, d)
     | NoPattern \<Rightarrow> (http_Error ''404 page not found'' 404, cm, w, d))"

text \<open>A request that ends a session has a session's identifier, so the handler's check for a missing one never
  strikes; every other request leaves the sessions and the tables alone.\<close>

lemma mux_session: "mux verb path = ToTerminate s \<Longrightarrow> [] \<notin> set path \<Longrightarrow> s \<noteq> [] \<and> verb = ''POST''"
  by (auto simp: mux_def split: if_splits list.splits)

lemma probes_harmless:
  assumes "http_serve json timestamp uptime uuid_in kill verb path (cm, w, d) = (r, cm', w', d')" "\<And>s. mux verb path \<noteq> ToTerminate s"
  shows "cm' = cm \<and> w' = w \<and> (\<exists>xs. d' = d\<lparr>outages := xs\<rparr>)"
proof -
  have "\<exists>xs. d = d\<lparr>outages := xs\<rparr>" by (rule exI [of _ "outages d"]) simp
  moreover have "\<exists>xs. snd (ping d) = d\<lparr>outages := xs\<rparr>" using ping_db by blast
  ultimately show ?thesis using assms
    by (cases "mux verb path") (auto simp: http_serve_def health_Handler_def Let_def split: prod.splits)
qed

subsection \<open>The address of the node\<close>

text \<open>No step changes the address under which the node registers its sessions.\<close>

lemma console_generate_ip: "sv_ProxyNodeIP (snd (console_generate E n f sv)) = sv_ProxyNodeIP sv"
  by (simp add: console_generate_def case_prod_unfold Let_def)

lemma console_key_ip: "sv_ProxyNodeIP (fst (snd (console_key E n al key co sv c))) = sv_ProxyNodeIP sv"
proof (cases "co_state co")
  case StateAddServerAuto
  then show ?thesis by (cases key) (simp_all add: console_key_def key_server_auto_def Let_def case_prod_unfold console_generate_ip)
next
  case StateAddServerPaste
  then show ?thesis by (cases key) (simp_all add: console_key_def key_server_paste_def Let_def case_prod_unfold)
next
  case StateAddUser
  then show ?thesis by (cases key) (simp_all add: console_key_def key_add_user_def Let_def case_prod_unfold)
next
  case StateAddServerMethod
  then show ?thesis by (simp add: console_key_def key_server_method_def Let_def case_prod_unfold console_generate_ip)
qed (simp_all add: console_key_def key_main_def key_add_server_def key_role_select_def key_assign_def key_back_def key_select_user_def
    key_audit_servers_def key_audit_sessions_def key_audit_choice_def admin_log_def Let_def case_prod_unfold split: sum.split option.split)

lemma console_draw_ip: "sv_ProxyNodeIP (fst (console_draw E n a co sv c)) = sv_ProxyNodeIP sv"
  by (simp add: console_draw_def Let_def case_prod_unfold split: adminState.split)

lemma console_turn_ip:
  assumes "console_turn E a al n co sv c = (r, sv', c')"
  shows "sv_ProxyNodeIP sv' = sv_ProxyNodeIP sv"
  using assms
proof (cases rule: console_turn_cases)
  case (keyed key c1 c2 nx)
  then show ?thesis using console_key_ip [of E n al key co "fst (console_draw E n a co sv c)" c2] console_draw_ip [of E n a co sv c] by simp
qed (auto simp: console_draw_ip)

lemma connect_granted_ip:
  "connect_granted kv_get parse_key sha net us nano ii nl ssh stdin now sid user acc i c sv = (r, c', sv') \<Longrightarrow>
   sv_ProxyNodeIP sv' = sv_ProxyNodeIP sv"
  by (auto simp: connect_granted_def Let_def split: sum.splits prod.splits if_splits option.splits)

lemma enters_console_ip [simp]: "sv_ProxyNodeIP (sy_server (enters_console CE k u i c sv s)) = sv_ProxyNodeIP sv"
  by (simp add: enters_console_def console_open_def admin_log_def Let_def case_prod_unfold split: option.split)

lemma handlers_ip:
  "sv_ProxyNodeIP (sy_server (sys_connect E k now clk addr c CE s)) = sv_ProxyNodeIP (sy_server s)"
  "sv_ProxyNodeIP (sy_server (sys_menu E k xs CE u s)) = sv_ProxyNodeIP (sy_server s)"
  "sv_ProxyNodeIP (sy_server (sys_authorize k xs u t i s)) = sv_ProxyNodeIP (sy_server s)"
  "sv_ProxyNodeIP (sy_server (sys_open E k xs net ssh stdin now sid u t acc i s)) = sv_ProxyNodeIP (sy_server s)"
  "sv_ProxyNodeIP (sy_server (sys_return E k xs u i l r s)) = sv_ProxyNodeIP (sy_server s)"
  "sv_ProxyNodeIP (sy_server (sys_console k xs CE u i al n co s)) = sv_ProxyNodeIP (sy_server s)"
  subgoal by (auto simp: sys_connect_def handleConnection_def Let_def split: prod.split sum.split route.split)
  subgoal by (auto simp: sys_menu_def gateway_round_def Let_def split: prod.split gateway_next.split)
  subgoal by (auto simp: sys_authorize_def Let_def split: prod.split sum.split)
  subgoal by (auto simp: sys_open_def split: prod.split sum.split dest: connect_granted_ip)
  subgoal by (simp add: sys_return_def connect_finish_def Let_def case_prod_beta)
  subgoal by (auto simp: sys_console_def console_close_def admin_log_def Let_def split: prod.split sum.split option.split dest: console_turn_ip)
  done

lemma step_ip: "system_step E ev s = Some s' \<Longrightarrow> sv_ProxyNodeIP (sy_server s') = sv_ProxyNodeIP (sy_server s)"
  by (cases ev) (auto simp: handlers_ip sys_bridge_def detach_def split: if_splits phase.splits option.splits main_state.splits)

subsection \<open>Where the sessions are registered\<close>

definition at_node :: "('l, 'v, 'sg, 'b) sys_env \<Rightarrow> string \<Rightarrow> ('l, 'v, 'sg, 'b) system \<Rightarrow> bool" where
  "at_node E ip s \<longleftrightarrow> sys_inv s \<and> sv_ProxyNodeIP (sy_server s) = ip
     \<and> (\<forall>sid l. sy_live s sid = Some l \<longrightarrow> (\<exists>node. en_inet_in E (IP_String (ParseIP ip)) = Some node \<and> (sid, node) \<in> placed (sv_db (sy_server s))))"

lemma open_places:
  assumes "sys_inv s" "system_step E ev s = Some s'" "sy_live s sid = None" "sy_live s' sid = Some l"
  shows "\<exists>node. en_inet_in E (IP_String (ParseIP (sv_ProxyNodeIP (sy_server s)))) = Some node \<and> (sid, node) \<in> placed (sv_db (sy_server s'))"
proof -
  obtain k xs net ssh stdin now acc i where ev: "ev = EvOpen k xs net ssh stdin now sid" and ph: "sy_phase s k = Granted (lv_user l) (lv_host l) acc i"
    by (rule step_new [OF assms])
  then have s': "s' = sys_open E k xs net ssh stdin now sid (lv_user l) (lv_host l) acc i s" using assms(2) by simp
  from ph show ?thesis
  proof (cases rule: sys_open_cases [of s k "lv_user l" "lv_host l" acc i E xs net ssh stdin now sid])
    case (failed c' sv)
    then show ?thesis using assms(3,4) by (simp add: s')
  next
    case (opened c' sv sg b)
    then show ?thesis by (simp add: s')
  qed
qed

interpretation server_at: guarded_machine "system_step E" "at_node E ip" for E :: "('l, 'v, 'sg, 'b) sys_env" and ip
proof
  fix s s' :: "('l, 'v, 'sg, 'b) system" and ev
  assume inv: "at_node E ip s" and st: "system_step E ev s = Some s'"
  then have sys: "sys_inv s" and at: "sv_ProxyNodeIP (sy_server s) = ip" by (simp_all add: at_node_def)
  have "\<exists>node. en_inet_in E (IP_String (ParseIP ip)) = Some node \<and> (sid, node) \<in> placed (sv_db (sy_server s'))"
    if l': "sy_live s' sid = Some l'" for sid l'
  proof (cases "sy_live s sid")
    case None
    show ?thesis using open_places [OF sys st None l'] at by simp
  next
    case (Some l)
    then show ?thesis using inv step_grows [OF sys st] unfolding at_node_def db_grows_def by blast
  qed
  then show "at_node E ip s'" using sys_inv_step [OF sys st] step_ip [OF st] at by (simp add: at_node_def)
qed

subsection \<open>Shutdown and restart\<close>

text \<open>On a signal \<^verbatim>\<open>main\<close> waits for the HTTP server and returns: the goroutines of the proxy end where they are. What
  remains is outside the process.\<close>

record 'v remains =
  rm_db :: db
  rm_fs :: fsys
  rm_vault :: 'v
  rm_log :: "string list"

definition main_stop :: "string option \<Rightarrow> ('l, 'v, 'sg, 'b) system \<Rightarrow> 'v remains" where
  "main_stop shutdown s = \<lparr>rm_db = sv_db (sy_server s), rm_fs = sv_fs (sy_server s), rm_vault = sv_vault (sy_server s),
     rm_log = [''Shutdown signal received''] @ (case shutdown of Some e \<Rightarrow> [''HTTP server shutdown error''] | None \<Rightarrow> [])
       @ [''ZTTP Proxy shut down cleanly'']\<rparr>"

lemma placed_not_active:
  assumes "schema_ok d" "no_active_session addr d" "(sid, addr) \<in> placed d"
  shows "status_of d sid \<notin> {None, Some ''active''}"
proof -
  obtain a where a: "a \<in> set (sessions d)" "a_session_id a = sid" "a_proxy_node_ip a = addr" using assms(3) by (auto simp: placed_def)
  have "distinct (map a_session_id (sessions d))" using assms(1) by (simp add: schema_ok_def)
  have "b = a" if "b \<in> set (sessions d)" "a_session_id b = sid" for b
    using \<open>distinct (map a_session_id (sessions d))\<close> that a by (metis distinct_map inj_on_def)
  moreover obtain b where "find (\<lambda>a. a_session_id a = sid) (sessions d) = Some b"
    using a(1,2) by (cases "find (\<lambda>a. a_session_id a = sid) (sessions d)") (auto simp: find_None_iff)
  ultimately have "find (\<lambda>a. a_session_id a = sid) (sessions d) = Some a"
    by (metis (mono_tags, lifting) find_Some_iff nth_mem)
  then show ?thesis using assms(2) a by (auto simp: status_of_def no_active_session_def list_all_iff)
qed

text \<open>Start-up leaves accounts, rights and the rows of sessions; only the status of a session may change.\<close>

lemma Cleanup_served: "db_served UNIV d (snd (CleanupOrphanedSessions ii ip d))"
  unfolding CleanupOrphanedSessions_def
proof (rule db_served_stmt)
  fix e :: db
  have "db_served UNIV e (set_status P ''terminated'' e)" for P
  proof -
    let ?ss = "map (\<lambda>a. if P a then a\<lparr>a_status := ''terminated''\<rparr> else a) (sessions e)"
    have keys: "map (\<lambda>a. (a_session_id a, a_user_id a)) ?ss = map (\<lambda>a. (a_session_id a, a_user_id a)) (sessions e)"
      "map (\<lambda>a. (a_session_id a, a_proxy_node_ip a)) ?ss = map (\<lambda>a. (a_session_id a, a_proxy_node_ip a)) (sessions e)" by simp_all
    have new: "sessions (e\<lparr>sessions := ?ss\<rparr>) = ?ss" by simp
    have "registered (e\<lparr>sessions := ?ss\<rparr>) = registered e" "placed (e\<lparr>sessions := ?ss\<rparr>) = placed e"
      by (simp_all only: registered_set placed_set new keys)
    moreover have "schema_ok e \<longrightarrow> schema_ok (set_status P ''terminated'' e)" by (simp add: schema_ok_set_status)
    ultimately show ?thesis using db_served_sessions [of e ?ss UNIV] by (simp add: set_status_def)
  qed
  then show "db_served UNIV e (snd (case ii ip of None \<Rightarrow> (Inl BadInput, e)
      | Some n \<Rightarrow> (Inr (), set_status (\<lambda>a. a_proxy_node_ip a = n \<and> a_status a = ''active'') ''terminated'' e)))"
    by (simp split: option.split)
qed

lemma start_served:
  assumes "main_start SE v fs nets d = (Inr pr, d')"
  shows "db_served UNIV d d'"
  using assms
proof (rule main_start_cases)
  fix cfg pl vc d1
  assume con: "db_Connect (se_sql_open SE) (se_err SE) cfg d = (Inr pl, d1)"
    and d': "sv_db (pr_server pr) = snd (CleanupOrphanedSessions (se_inet_in SE) (cfg_ProxyNodeIP cfg) d1)" "d' = sv_db (pr_server pr)"
  have "d1 = snd (ping d)" using con by (auto simp: db_Connect_def Let_def split: option.splits sum.splits prod.splits)
  then have "db_served UNIV d d1" by (simp add: ping_def db_served_query)
  then show ?thesis unfolding d' by (rule db_served_trans [OF _ Cleanup_served])
qed

text \<open>C18. A restart puts the sessions in order that a shutdown, or the death of the process, has cut off: when a process
  stops in any state and a process with the same address starts on the database it left, every session
  the first one had set up is in the table and none is active, the constraints hold, and accounts and rights are as
  they were.\<close>

theorem restart_recovers:
  assumes "main_start SE v fs nets d = (Inr pr, d')" "schema_ok d" "outages d = []"
    and "s0 = sys_init pr" "reaches (system_step E) s0 s"
    and "main_start SE2 v2 fs2 nets2 (rm_db (main_stop err s)) = (Inr pr2, d2)" "se_inet_in SE2 = en_inet_in E"
    and "sv_ProxyNodeIP (pr_server pr2) = ip" "sv_ProxyNodeIP (pr_server pr) = ip"
    and "\<forall>n. en_inet_in E (IP_String (ParseIP ip)) = Some n \<longrightarrow> en_inet_in E ip = Some n"
  shows "schema_ok d2 \<and> identities d2 = identities (sv_db (sy_server s)) \<and> can_reach d2 = can_reach (sv_db (sy_server s))
    \<and> (\<forall>sid l. sy_live s sid = Some l \<longrightarrow> status_of d2 sid \<notin> {None, Some ''active''})"
proof -
  let ?d = "sv_db (sy_server s)"
  have d: "rm_db (main_stop err s) = ?d" by (simp add: main_stop_def)
  have "sys_up s" using server_up.inv_reaches [OF assms(5)] sys_init_inv(2) [OF assms(1-3)] assms(4) by simp
  then have ok: "schema_ok ?d" and up: "outages ?d = []" by (simp_all add: sys_up_def sys_inv_def)
  have at: "at_node E ip s"
    by (rule server_at.inv_reaches [OF assms(5)]) (use sys_init_inv(1) [OF assms(1,2)] assms(4,9) in \<open>simp add: at_node_def sys_init_def\<close>)
  note served = start_served [OF assms(6), unfolded d]
  have ok2: "schema_ok d2" and rows: "placed ?d \<subseteq> placed d2" using served ok by (simp_all add: db_served_def db_grows_def)
  have "status_of d2 sid \<notin> {None, Some ''active''}" if l: "sy_live s sid = Some l" for sid l
  proof -
    obtain n where n: "en_inet_in E ip = Some n" "(sid, n) \<in> placed d2"
      using at l rows assms(10) unfolding at_node_def by blast
    from assms(6) have "no_active_session n d2"
    proof (rule main_start_cases)
      fix cfg pl vc d1
      assume con: "db_Connect (se_sql_open SE2) (se_err SE2) cfg (rm_db (main_stop err s)) = (Inr pl, d1)"
        and cfg: "sv_ProxyNodeIP (pr_server pr2) = cfg_ProxyNodeIP cfg"
        and d2: "sv_db (pr_server pr2) = snd (CleanupOrphanedSessions (se_inet_in SE2) (cfg_ProxyNodeIP cfg) d1)" "d2 = sv_db (pr_server pr2)"
      have "outages d1 = []" using db_Connect_outcome(2) [OF con] up d by simp
      then show ?thesis unfolding d2 by (rule cleanup_no_active) (use n(1) assms(7,8) cfg in simp)
    qed
    then show ?thesis by (rule placed_not_active [OF ok2 _ n(2)])
  qed
  then show ?thesis using ok2 served by (simp add: db_served_def same_rights_def)
qed

lemma demo_restarts:
  assumes "outages d = []"
  shows "\<exists>pr d'. main_start (demo_startup\<lparr>se_inet_in := en_inet_in demo_env\<rparr>) () fs demo_nets d = (Inr pr :: startup_error + (unit, unit) process, d')
    \<and> sv_ProxyNodeIP (pr_server pr) = cfg_ProxyNodeIP demo_config"
  using assms
  by (simp add: main_start_def demo_startup_def Load_def validate_def demo_config_def db_Connect_def ping_def query_up
      vault_New_def loginAppRole_def setToken_def NewTLSListener_def Let_def)

theorem restart_recovers_witness:
  "\<exists>pr d' s0 s l pr2 d2. main_start demo_startup () demo_fs demo_nets demo_rbac = (Inr pr :: startup_error + (unit, unit) process, d')
     \<and> s0 = (sys_init pr :: (unit, unit, unit, int) system) \<and> reaches (system_step demo_env) s0 s \<and> sy_live s 50 = Some l
     \<and> main_start (demo_startup\<lparr>se_inet_in := en_inet_in demo_env\<rparr>) () demo_fs demo_nets (rm_db (main_stop None s)) =
         (Inr pr2 :: startup_error + (unit, unit) process, d2)
     \<and> identities d2 = identities (sv_db (sy_server s)) \<and> status_of d2 50 \<notin> {None, Some ''active''}"
proof -
  obtain pr :: "(unit, unit) process" and d' s0 s l where pr: "main_start demo_startup () demo_fs demo_nets demo_rbac = (Inr pr, d')"
    "s0 = (sys_init pr :: (unit, unit, unit, int) system)" "reaches (system_step demo_env) s0 s" "sy_live s 50 = Some l"
    using demo_reaches by blast
  have "sys_up s" using server_up.inv_reaches [OF pr(3)] sys_init_inv(2) [OF pr(1) demo_rbac_ok] pr(2) by simp
  then have "outages (rm_db (main_stop None s)) = []" by (simp add: sys_up_def main_stop_def)
  then obtain pr2 :: "(unit, unit) process" and d2 where
    pr2: "main_start (demo_startup\<lparr>se_inet_in := en_inet_in demo_env\<rparr>) () demo_fs demo_nets (rm_db (main_stop None s)) = (Inr pr2, d2)"
      "sv_ProxyNodeIP (pr_server pr2) = cfg_ProxyNodeIP demo_config"
    using demo_restarts by blast
  have ip: "sv_ProxyNodeIP (pr_server pr) = cfg_ProxyNodeIP demo_config"
  proof (rule main_start_cases [OF pr(1)])
    fix cfg
    assume "Load (se_viper demo_startup) = Inr cfg" "sv_ProxyNodeIP (pr_server pr) = cfg_ProxyNodeIP cfg"
    then show ?thesis by (auto simp: demo_startup_def Load_def split: sum.splits option.splits)
  qed
  have inet: "se_inet_in (demo_startup\<lparr>se_inet_in := en_inet_in demo_env\<rparr>) = en_inet_in demo_env" by simp
  have same: "\<forall>n. en_inet_in demo_env (IP_String (ParseIP (cfg_ProxyNodeIP demo_config))) = Some n \<longrightarrow> en_inet_in demo_env (cfg_ProxyNodeIP demo_config) = Some n"
    by (simp add: demo_env_def)
  note restart_recovers [OF pr(1) demo_rbac_ok pr(2,3) pr2(1) inet pr2(2) ip same]
  then show ?thesis using pr pr2(1) by blast
qed

subsection \<open>Kills from outside\<close>

text \<open>What the kill switch service does on a node is what the node's sessions see as a kill: the handler's call of the
  manager and its statement are two turns of the session's bridge.\<close>

lemma kill_is_run:
  assumes "sys_up s" "cm_sessions (sv_manager (sy_server s)) sid = Some h"
  shows "\<exists>s1 s2 l2. system_step E (EvBridge sid (Kill reason)) s = Some s1 \<and> system_step E (EvBridge sid KillMark) s1 = Some s2
    \<and> is_killed sid s1 \<and> sv_manager (sy_server s2) = cm_Deregister sid (sv_manager (sy_server s))
    \<and> sv_nets (sy_server s2) = h_CloseConns h (h_Cancel h (sv_nets (sy_server s)))
    \<and> sv_db (sy_server s2) = snd (Terminate sid ''terminated-kill'' (sv_db (sy_server s))) \<and> sy_live s2 sid = Some l2"
proof -
  obtain l where l: "sy_live s sid = Some l" "running (lv_bridge l)" and id: "b_SessionID (lv_bridge l) = sid"
    using assms by (auto simp: sys_up_def sys_inv_def live_ok_def)
  let ?b1 = "(attach (sy_server s) (lv_bridge l))\<lparr>b_manager := cm_Deregister sid (sv_manager (sy_server s)),
    b_nets := h_CloseConns h (h_Cancel h (sv_nets (sy_server s))), b_killing := True\<rparr>"
  let ?s1 = "s\<lparr>sy_server := detach ?b1 (sy_server s), sy_live := (sy_live s)(sid \<mapsto> l\<lparr>lv_bridge := ?b1\<rparr>)\<rparr>"
  have 1: "system_step E (EvBridge sid (Kill reason)) s = Some ?s1"
    using l(1) id assms(2) by (simp add: sys_bridge_def cm_Terminate_def Let_def)
  have "is_killed sid ?s1"
    by (rule becomes_killed [OF assms(1) 1, where l' = "l\<lparr>lv_bridge := ?b1\<rparr>"]) (use l assms(2) in \<open>simp_all add: running_def cm_Deregister_def detach_def\<close>)
  moreover have "\<exists>s2 l2. system_step E (EvBridge sid KillMark) ?s1 = Some s2 \<and> sv_manager (sy_server s2) = cm_Deregister sid (sv_manager (sy_server s))
    \<and> sv_nets (sy_server s2) = h_CloseConns h (h_Cancel h (sv_nets (sy_server s)))
    \<and> sv_db (sy_server s2) = snd (Terminate sid ''terminated-kill'' (sv_db (sy_server s))) \<and> sy_live s2 sid = Some l2"
    using id by (simp add: sys_bridge_def attach_def detach_def StatusTerminatedKill_def)
  ultimately show ?thesis using 1 by blast
qed


definition demo_node_conn :: "(nets ConnectionManager \<times> nets \<times> db) ClientConn" where
  "demo_node_conn = direct_conn (KillSwitchServer (\<lambda>_. Some 50) (\<lambda>_. ''50'') (\<lambda>_. None) (\<lambda>_. []) 3 [])"


end
