(* ===== verification/Zttp_Cli.thy ===== *)
theory Zttp_Cli
  imports Zttp_Client
begin

text \<open>
  The client's command line: \<^verbatim>\<open>cmd/zttp/main.go\<close>, \<^verbatim>\<open>internal/cli/app.go\<close> and the \<^verbatim>\<open>connect\<close> command of
  \<^verbatim>\<open>internal/cli/connect/connect.go\<close>.

  What the command line library makes of the arguments and the environment is a value of \<open>cli_call\<close>. Without arguments
  the client is a shell that connects to the gateway again and again; after each session it replaces its process by a
  new one, \<^verbatim>\<open>syscall.Exec\<close>, and goes on in the loop when that fails. What the network and the terminal do
  in the rounds to come is a list.
\<close>

subsection \<open>Results as text\<close>

text \<open>The error of \<^verbatim>\<open>RunConnect\<close>, \<open>None\<close> for nil; \<open>io\<close> is the text of a failed read or write.\<close>

fun wait_error_text :: "string \<Rightarrow> wait_error \<Rightarrow> string" where
  "wait_error_text io ReadResponse = ''read proxy response: '' @ io"
| "wait_error_text io DeniedNoMessage = ''proxy denied connection''"
| "wait_error_text io ReadErrorMessage = ''read proxy error message: '' @ io"
| "wait_error_text io (ProxyError msg) = msg"

fun connect_error :: "string \<Rightarrow> connect_result \<Rightarrow> string option" where
  "connect_error io (LoginFailed (RawModeFailed e)) = Some (''login failed: failed to enter raw mode: '' @ e)"
| "connect_error io (LoginFailed StdinFailed) = Some (''login failed: '' @ io)"
| "connect_error io (PromptFailed e) = Some (''password prompt: '' @ e)"
| "connect_error io (ConnectionFailed e) = Some (''proxy connection failed: '' @ e)"
| "connect_error io SendFailed = Some (''send connect request: '' @ io)"
| "connect_error io (ProxyRefused e) = Some (wait_error_text io e)"
| "connect_error io (RawFailed e) = Some (''raw terminal: '' @ e)"
| "connect_error io _ = None"

subsection \<open>Commands\<close>

record round =
  ro_dial :: "tls_Config \<Rightarrow> string \<Rightarrow> string + conn"
  ro_elapsed :: int
  ro_sched :: "pipe_event list"
  ro_io :: string
  ro_exec :: bool \<comment> \<open>whether the process could be replaced\<close>

text \<open>How far the process got: it has exited with a code, it runs, or an action has returned an error or nil.\<close>

datatype client_end = Exited int | Runs | Returned "string option"

definition run_round :: "(ConnectRequest \<Rightarrow> bytes) \<Rightarrow> round \<Rightarrow> string \<Rightarrow> string \<Rightarrow> string \<Rightarrow> tty \<Rightarrow> client_end \<times> tty" where
  "run_round json_enc r proxyAddr hostname username t =
     (let (res, t', _) = RunConnect (ro_dial r) json_enc (ro_elapsed r) (ro_sched r) proxyAddr hostname username t
      in (if res = ExitedLogin then Exited 0 else if res = SessionRunning then Runs else Returned (connect_error (ro_io r) res), t'))"

definition hostname_required :: string where
  "hostname_required = ''hostname required '' @ [CHR 0xE2, CHR 0x80, CHR 0x94] @ '' usage: zttp connect <hostname>''"

definition Command :: "(ConnectRequest \<Rightarrow> bytes) \<Rightarrow> round \<Rightarrow> string list \<Rightarrow> string \<Rightarrow> string \<Rightarrow> tty \<Rightarrow> client_end \<times> tty" where
  "Command json_enc r args proxy user t =
     (case args of
        [] \<Rightarrow> (Returned (Some hostname_required), t)
      | hostname # _ \<Rightarrow> run_round json_enc r proxy hostname user t)"

definition shell_heading :: string where
  "shell_heading = ''=== ZTTP Interactive Shell ==='' @ [CHR 0x0A]"

text \<open>The loop of the shell. A process that was replaced prints its heading and enters the loop.\<close>

fun shell_loop :: "(ConnectRequest \<Rightarrow> bytes) \<Rightarrow> string \<Rightarrow> round list \<Rightarrow> tty \<Rightarrow> client_end \<times> tty" where
  "shell_loop json_enc proxyAddr [] t = (Runs, t)"
| "shell_loop json_enc proxyAddr (r # rs) t =
     (case run_round json_enc r proxyAddr ''zttp-gateway'' [] (tty_print shell_heading t) of
        (Returned err, t1) \<Rightarrow>
          (let t2 = (case err of Some e \<Rightarrow> tty_print (''Connection closed: '' @ e @ [CHR 0x0A]) t1 | None \<Rightarrow> t1);
               t3 = tty_print [CHR 0x0A] t2
           in shell_loop json_enc proxyAddr rs (if ro_exec r then tty_print shell_heading t3 else t3))
      | stopped \<Rightarrow> stopped)"

datatype cli_call =
  CallApp "string list" \<comment> \<open>the application's own action\<close>
| CallConnect "string list" string string \<comment> \<open>the arguments of connect, its flags \<open>proxy\<close> and \<open>user\<close>\<close>
| CallLibrary "string option" \<comment> \<open>help and errors of the library\<close>

text \<open>\<open>env\<close> is the value of \<^verbatim>\<open>ZTTP_PROXY_ADDR\<close>, empty when unset, and \<open>help\<close> the result of \<^verbatim>\<open>ShowAppHelp\<close>.\<close>

definition app_action ::
  "(ConnectRequest \<Rightarrow> bytes) \<Rightarrow> string \<Rightarrow> string \<Rightarrow> string option \<Rightarrow> string list \<Rightarrow> round list \<Rightarrow> tty \<Rightarrow> client_end \<times> tty" where
  "app_action json_enc defaultProxyAddr env help args rs t =
     (if args = [] then shell_loop json_enc (if env = [] then defaultProxyAddr else env) rs (tty_print shell_heading t)
      else (Returned help, t))"

definition DefaultProxyAddr :: string where
  "DefaultProxyAddr = ''127.0.0.1:2224''"

text \<open>The process: an action's error goes to the terminal and makes the exit code 1. The \<^verbatim>\<open>connect\<close> command makes
  one attempt, described by the first round.\<close>

definition zttp_main ::
  "(ConnectRequest \<Rightarrow> bytes) \<Rightarrow> string \<Rightarrow> string option \<Rightarrow> cli_call \<Rightarrow> round \<Rightarrow> round list \<Rightarrow> tty \<Rightarrow> client_end \<times> tty" where
  "zttp_main json_enc env help call r rs t =
     (case (case call of
              CallApp args \<Rightarrow> app_action json_enc DefaultProxyAddr env help args (r # rs) t
            | CallConnect args proxy user \<Rightarrow> Command json_enc r args proxy user t
            | CallLibrary e \<Rightarrow> (Returned e, t)) of
        (Returned (Some e), t') \<Rightarrow> (Exited 1, tty_print (ColorRed @ ''Error: '' @ e @ ColorReset @ [CHR 0x0A]) t')
      | (Returned None, t') \<Rightarrow> (Exited 0, t')
      | stopped \<Rightarrow> stopped)"

subsection \<open>Properties\<close>

lemma run_round_raw: "run_round json_enc r a h u t = (x, t') \<Longrightarrow> x \<noteq> Runs \<Longrightarrow> t_raw t' = t_raw t"
  by (auto simp: run_round_def Let_def split: prod.splits if_splits dest: RunConnect_raw)

lemma run_round_ends: "run_round json_enc r a h u t = (y, t') \<Longrightarrow> y \<in> {Exited 0, Runs} \<or> (\<exists>e. y = Returned e)"
  by (auto simp: run_round_def Let_def split: prod.splits if_splits)

lemma shell_loop_outcome:
  "shell_loop json_enc a rs t = (x, t') \<Longrightarrow> x \<in> {Exited 0, Runs} \<and> (x = Exited 0 \<longrightarrow> t_raw t' = t_raw t)"
proof (induction rs arbitrary: t)
  case (Cons r rs)
  obtain y t1 where y: "run_round json_enc r a ''zttp-gateway'' [] (tty_print shell_heading t) = (y, t1)" by (rule prod.exhaust)
  have raw: "t_raw t1 = t_raw t" if "y \<noteq> Runs" using run_round_raw [OF y that] by simp
  show ?case
  proof (cases "\<exists>e. y = Returned e")
    case True
    then obtain t4 where "shell_loop json_enc a rs t4 = (x, t')" "t_raw t4 = t_raw t1"
      using Cons.prems y by (auto simp: Let_def split: option.splits if_splits)
    then show ?thesis using Cons.IH [of t4] raw True by auto
  next
    case False
    then show ?thesis using run_round_ends [OF y] Cons.prems y raw by auto
  qed
qed simp

text \<open>A replaced process is a new one with the same arguments: the shell goes on as if it were started.\<close>

lemma exec_restarts:
  assumes "run_round json_enc r (if env = [] then dflt else env) ''zttp-gateway'' [] (tty_print shell_heading t) = (Returned None, t1)" "ro_exec r"
  shows "shell_loop json_enc (if env = [] then dflt else env) (r # rs) t = app_action json_enc dflt env help [] rs (tty_print [CHR 0x0A] t1)"
  using assms by (simp add: app_action_def)



end
