(* ===== verification/Zttp_Attempts.thy ===== *)
theory Zttp_Attempts
  imports Zttp_Auth
begin

text \<open>
  Login attempts at the same time. Every connection has its own goroutine, so between the
  \<^verbatim>\<open>SELECT\<close> of one call of \<^verbatim>\<open>Authenticate\<close> (\<^verbatim>\<open>internal/auth/auth.go\<close>) and its
  \<^verbatim>\<open>UPDATE\<close> any number of other calls may run; bcrypt makes that gap a long one.

  \<open>auth_check\<close> is the call up to and including the password comparison, \<open>auth_record\<close> the rest of it;
  \<open>Authenticate_stages\<close> shows that together they are the call. The state \<open>attempts\<close> is the database
  and the calls between the two; a schedule is a list of steps, each of which starts a call or lets
  one of those under way finish. The database itself runs one statement after the other.
\<close>

subsection \<open>Model\<close>

definition auth_check ::
  "(bytes \<Rightarrow> bytes \<Rightarrow> bool) \<Rightarrow> instant \<Rightarrow> string \<Rightarrow> string \<Rightarrow> db \<Rightarrow>
   ((auth_error + user_row \<times> bool) \<times> (string \<times> string) list) \<times> db" where
  "auth_check bcmp now username password d =
     (case select_user username d of
        (Inl ErrNoRows, d1) \<Rightarrow> ((Inl ErrAuthentication, [(password, dummyHash)]), d1)
      | (Inl e, d1) \<Rightarrow> ((Inl (AuthDbQuery e), []), d1)
      | (Inr row, d1) \<Rightarrow>
          (if \<exists>t \<in> set_option (u_locked_until row). now < t then ((Inl ErrAccountLocked, []), d1)
           else ((Inr (row, VerifyPassword bcmp password (u_password_hash row)),
                  [(password, u_password_hash row)]), d1)))"

definition auth_record ::
  "Config \<Rightarrow> auth_clock \<Rightarrow> string \<Rightarrow> user_row \<Rightarrow> bool \<Rightarrow> db \<Rightarrow>
   ((auth_error + User) \<times> soc_alert list) \<times> db" where
  "auth_record cfg clk username row ok d =
     (if \<not> ok then
        (case atomicIncrementAndMaybeLock cfg clk (u_id row) d of
           (Inl e, d') \<Rightarrow> ((Inl ErrAuthentication, []), d')
         | (Inr (lockUntil, locked), d') \<Rightarrow>
             ((Inl ErrAuthentication,
               if locked then [\<lparr>al_username = username, al_attempts = MaxFailedAttempts cfg,
                                al_locked_until = lockUntil\<rparr>] else []), d'))
      else
        ((Inr \<lparr>usr_ID = u_id row, usr_Username = username, usr_Role = u_role row\<rparr>, []),
         snd (reset_failed (u_id row) d)))"

record under_way =
  w_username :: string
  w_row :: user_row
  w_ok :: bool

record attempts =
  at_db :: db
  at_open :: "under_way list"
  at_compared :: "(string \<times> string) list" \<comment> \<open>accounts and the passwords tried on their hashes\<close>
  at_answers :: "(string \<times> (auth_error + User)) list"

datatype attempt_step =
    Begins string string instant
  | Finishes nat auth_clock

fun attempt :: "(bytes \<Rightarrow> bytes \<Rightarrow> bool) \<Rightarrow> Config \<Rightarrow> attempt_step \<Rightarrow> attempts \<Rightarrow> attempts" where
  "attempt bcmp cfg (Begins username password now) s =
     (case auth_check bcmp now username password (at_db s) of
        ((Inl e, _), d) \<Rightarrow> s\<lparr>at_db := d, at_answers := at_answers s @ [(username, Inl e)]\<rparr>
      | ((Inr (row, ok), _), d) \<Rightarrow>
          s\<lparr>at_db := d, at_open := at_open s @ [\<lparr>w_username = username, w_row = row, w_ok = ok\<rparr>],
            at_compared := at_compared s @ [(username, password)]\<rparr>)"
| "attempt bcmp cfg (Finishes i clk) s =
     (if i < length (at_open s) then
        let w = at_open s ! i; ((res, _), d) = auth_record cfg clk (w_username w) (w_row w) (w_ok w) (at_db s)
        in s\<lparr>at_db := d, at_open := take i (at_open s) @ drop (Suc i) (at_open s),
             at_answers := at_answers s @ [(w_username w, res)]\<rparr>
      else s)"

definition at_init :: "db \<Rightarrow> attempts" where
  "at_init d = \<lparr>at_db = d, at_open = [], at_compared = [], at_answers = []\<rparr>"

definition at_run :: "(bytes \<Rightarrow> bytes \<Rightarrow> bool) \<Rightarrow> Config \<Rightarrow> db \<Rightarrow> attempt_step list \<Rightarrow> attempts" where
  "at_run bcmp cfg d es = fold (attempt bcmp cfg) es (at_init d)"

text \<open>What is counted for an account: its calls under way, the passwords compared with its hash, and
  the answers that the credentials were wrong.\<close>

definition open_on :: "string \<Rightarrow> attempts \<Rightarrow> nat" where
  "open_on name s = length (filter (\<lambda>w. w_username w = name) (at_open s))"

definition guesses_on :: "string \<Rightarrow> attempts \<Rightarrow> nat" where
  "guesses_on name s = length (filter (\<lambda>(n, _). n = name) (at_compared s))"

definition refusals_on :: "string \<Rightarrow> attempts \<Rightarrow> nat" where
  "refusals_on name s = length (filter (\<lambda>a. a = (name, Inl ErrAuthentication)) (at_answers s))"

subsection \<open>The two stages are the call\<close>

lemma Authenticate_stages:
  "Authenticate bcmp cfg clk d username password =
     (case auth_check bcmp (t_check clk) username password d of
        ((Inl e, hs), d1) \<Rightarrow> \<lparr>ao_result = Inl e, ao_db = d1, ao_alerts = [], ao_hashes = hs\<rparr>
      | ((Inr (row, ok), hs), d1) \<Rightarrow>
          (case auth_record cfg clk username row ok d1 of
             ((res, als), d2) \<Rightarrow> \<lparr>ao_result = res, ao_db = d2, ao_alerts = als, ao_hashes = hs\<rparr>))"
  by (auto simp: Authenticate_def auth_check_def auth_record_def
      split: prod.splits sum.splits sql_error.splits)

text \<open>A call that nothing interrupts is \<open>Authenticate\<close>.\<close>

lemma attempt_uninterrupted:
  assumes "at_open s = []"
  shows "at_db (attempt bcmp cfg (Finishes 0 clk) (attempt bcmp cfg (Begins username password (t_check clk)) s))
      = ao_db (Authenticate bcmp cfg clk (at_db s) username password)"
    and "at_answers (attempt bcmp cfg (Finishes 0 clk) (attempt bcmp cfg (Begins username password (t_check clk)) s))
      = at_answers s @ [(username, ao_result (Authenticate bcmp cfg clk (at_db s) username password))]"
  using assms by (auto simp: Authenticate_stages split: prod.splits sum.splits)

subsection \<open>One stage against a healthy database\<close>

lemma auth_check_up:
  assumes "schema_ok d" "outages d = []" "x \<in> set (users d)"
  shows "auth_check bcmp now (u_username x) pw d =
    (if locked_at now x then ((Inl ErrAccountLocked, []), d)
     else ((Inr (x, bcmp (u_password_hash x) pw), [(pw, u_password_hash x)]), d))"
  using assms by (simp add: auth_check_def select_user_up locked_at_def VerifyPassword_def)

lemma auth_check_unknown:
  assumes "outages d = []" "name \<notin> u_username ` set (users d)"
  shows "auth_check bcmp now name pw d = ((Inl ErrAuthentication, [(pw, dummyHash)]), d)"
proof -
  have "filter (\<lambda>r. u_username r = name) (users d) = []"
    using assms(2) by (auto simp: filter_empty_conv)
  then show ?thesis using assms(1) by (simp add: auth_check_def select_user_def query_up)
qed

text \<open>The row an attempt leaves: it is the one now in the table that changes, not the one the attempt
  has read.\<close>

definition settled :: "Config \<Rightarrow> instant \<Rightarrow> bool \<Rightarrow> user_row \<Rightarrow> user_row" where
  "settled cfg now ok x =
     (if ok then x\<lparr>u_failed_attempts := 0, u_locked_until := None\<rparr>
      else if INT_MAX < u_failed_attempts x + 1 then x
      else bump_row (MaxFailedAttempts cfg) (lock_seconds (LockoutDuration cfg)) now x)"

lemma same_identity_settled [simp]: "same_identity x (settled cfg now ok x)"
  by (simp add: settled_def same_identity_def bump_row_def)

lemma u_id_settled [simp]: "u_id (settled cfg now ok x) = u_id x"
  by (simp add: settled_def bump_row_def)

lemma put_row_same: "schema_ok d \<Longrightarrow> x \<in> set (users d) \<Longrightarrow> put_row x d = d"
  by (cases d) (auto simp: put_row_def schema_ok_def intro!: map_idI dest: distinct_key_unique)

lemma auth_record_up:
  assumes "schema_ok d" "outages d = []" "x \<in> set (users d)" "u_id row = u_id x"
  shows "snd (auth_record cfg clk name row ok d) = put_row (settled cfg (t_db clk) ok x) d"
    and "fst (fst (auth_record cfg clk name row ok d)) =
      (if ok then Inr \<lparr>usr_ID = u_id row, usr_Username = name, usr_Role = u_role row\<rparr> else Inl ErrAuthentication)"
  using assms
  by (auto simp: auth_record_def settled_def reset_failed_up atomicIncrementAndMaybeLock_def
      update_failed_up put_row_same split: option.split)

lemma put_row_others:
  assumes "schema_ok d" "x \<in> set (users d)" "same_identity x x'" "y \<in> set (users d)"
  shows "\<exists>y' \<in> set (users (put_row x' d)). same_identity y y' \<and> (u_id y \<noteq> u_id x \<longrightarrow> y' = y)"
proof (cases "u_id y = u_id x")
  case True
  then have "y = x" using assms distinct_key_unique [of u_id "users d" y x] by (auto simp: schema_ok_def)
  then show ?thesis using assms put_row_member [of x d x'] by (auto simp: same_identity_def)
next
  case False
  then have "y \<in> set (users (put_row x' d))"
    using assms by (auto simp: users_put_row same_identity_def intro!: image_eqI [of _ _ y])
  then show ?thesis by (auto intro: bexI [of _ y])
qed

subsection \<open>The invariant of a schedule of wrong passwords\<close>

text \<open>For an account \<open>r\<close>: the counter in the table is the one at the start plus the refusals; the
  account is locked, until \<open>deadline\<close> at least, exactly when the counter has reached the threshold;
  and every compared password belongs to a refused call or to one under way.\<close>

definition counter_ok :: "Config \<Rightarrow> instant \<Rightarrow> user_row \<Rightarrow> attempts \<Rightarrow> user_row \<Rightarrow> bool" where
  "counter_ok cfg deadline r s r' \<longleftrightarrow> same_identity r r'
     \<and> u_failed_attempts r' = u_failed_attempts r + int (refusals_on (u_username r) s)
     \<and> (if u_failed_attempts r' < MaxFailedAttempts cfg then u_locked_until r' = None
        else \<exists>t \<ge> deadline. u_locked_until r' = Some t)"

definition calls_ok :: "user_row \<Rightarrow> attempts \<Rightarrow> bool" where
  "calls_ok r s \<longleftrightarrow> (\<forall>w \<in> set (at_open s).
     (\<exists>x \<in> set (users (at_db s)). u_id x = u_id (w_row w) \<and> u_username x = w_username w)
     \<and> (w_username w = u_username r \<longrightarrow> \<not> w_ok w))"

definition guess_inv :: "Config \<Rightarrow> instant \<Rightarrow> nat \<Rightarrow> user_row \<Rightarrow> attempts \<Rightarrow> bool" where
  "guess_inv cfg deadline k r s \<longleftrightarrow> schema_ok (at_db s) \<and> outages (at_db s) = []
     \<and> calls_ok r s \<and> (\<exists>r' \<in> set (users (at_db s)). counter_ok cfg deadline r s r')
     \<and> guesses_on (u_username r) s = refusals_on (u_username r) s + open_on (u_username r) s
     \<and> u_failed_attempts r + int (guesses_on (u_username r) s) \<le> MaxFailedAttempts cfg - 1 + int k"

lemmas counting = guesses_on_def refusals_on_def open_on_def

text \<open>The steps of a schedule in which nobody has the account's password, between \<open>start\<close> and the end of
  the lockout period that follows it.\<close>

fun guessing :: "(bytes \<Rightarrow> bytes \<Rightarrow> bool) \<Rightarrow> Config \<Rightarrow> instant \<Rightarrow> user_row \<Rightarrow> attempt_step \<Rightarrow> bool" where
  "guessing bcmp cfg start r (Begins name pw now) \<longleftrightarrow>
     (name = u_username r \<longrightarrow> \<not> bcmp (u_password_hash r) pw
       \<and> now < start + lock_seconds (LockoutDuration cfg) * second)"
| "guessing bcmp cfg start r (Finishes i clk) \<longleftrightarrow> start \<le> t_db clk"

lemma guess_inv_begins:
  assumes inv: "guess_inv cfg (start + lock_seconds (LockoutDuration cfg) * second) k r s"
    and step: "guessing bcmp cfg start r (Begins name pw now)"
    and few: "open_on (u_username r) (attempt bcmp cfg (Begins name pw now) s) \<le> k"
  shows "guess_inv cfg (start + lock_seconds (LockoutDuration cfg) * second) k r (attempt bcmp cfg (Begins name pw now) s)"
proof -
  let ?d = "at_db s"
  obtain r' where r': "r' \<in> set (users ?d)"
    and cnt: "counter_ok cfg (start + lock_seconds (LockoutDuration cfg) * second) r s r'"
    using inv by (auto simp: guess_inv_def)
  have db: "schema_ok ?d" "outages ?d = []" using inv by (auto simp: guess_inv_def)
  have ident: "u_username r' = u_username r" "u_password_hash r' = u_password_hash r"
    using cnt by (auto simp: counter_ok_def same_identity_def)
  show ?thesis
  proof (cases "name \<in> u_username ` set (users ?d)")
    case False
    then have "name \<noteq> u_username r" using r' ident(1) by (metis imageI)
    then show ?thesis
      using inv auth_check_unknown [OF db(2) False, of bcmp now pw]
      by (auto simp: guess_inv_def counting counter_ok_def calls_ok_def)
  next
    case True
    then obtain x where x: "x \<in> set (users ?d)" "name = u_username x" by auto
    note chk = auth_check_up [OF db x(1), of bcmp now pw]
    consider (locked) "locked_at now x" | (other) "\<not> locked_at now x" "name \<noteq> u_username r"
      | (mine) "\<not> locked_at now x" "name = u_username r" by blast
    then show ?thesis
    proof cases
      case locked
      then show ?thesis
        using inv chk x(2) by (auto simp: guess_inv_def counting counter_ok_def calls_ok_def)
    next
      case other
      then show ?thesis
        using inv chk x by (auto simp: guess_inv_def counting counter_ok_def calls_ok_def)
    next
      case mine
      then have "x = r'"
        using x r' ident db(1) distinct_key_unique [of u_username "users ?d" x r'] by (auto simp: schema_ok_def)
      then have "u_failed_attempts r' < MaxFailedAttempts cfg"
        using mine cnt step by (auto simp: counter_ok_def locked_at_def split: if_splits)
      then show ?thesis
        using inv chk x mine few step cnt ident \<open>x = r'\<close>
        by (auto simp: guess_inv_def counting counter_ok_def calls_ok_def)
    qed
  qed
qed

lemma filter_without:
  assumes "i < length xs"
  shows "length (filter P xs) = length (filter P (take i xs @ drop (Suc i) xs)) + (if P (xs ! i) then 1 else 0)"
  by (subst id_take_nth_drop [OF assms]) simp

lemma calls_ok_put_row:
  assumes "schema_ok d" "x \<in> set (users d)" "same_identity x x'" "calls_ok r s" "at_db s = d"
    and "set ws \<subseteq> set (at_open s)"
  shows "calls_ok r (s\<lparr>at_db := put_row x' d, at_open := ws, at_answers := as\<rparr>)"
  unfolding calls_ok_def
proof (intro ballI conjI)
  fix w assume "w \<in> set (at_open (s\<lparr>at_db := put_row x' d, at_open := ws, at_answers := as\<rparr>))"
  then have w: "w \<in> set (at_open s)" using assms(6) by auto
  then obtain y where y: "y \<in> set (users d)" "u_id y = u_id (w_row w)" "u_username y = w_username w"
    using assms(4,5) by (auto simp: calls_ok_def)
  show "\<exists>x\<in>set (users (at_db (s\<lparr>at_db := put_row x' d, at_open := ws, at_answers := as\<rparr>))).
      u_id x = u_id (w_row w) \<and> u_username x = w_username w"
    using put_row_others [OF assms(1-3) y(1)] y(2,3) by (auto simp: same_identity_def)
  show "w_username w = u_username r \<longrightarrow> \<not> w_ok w" using w assms(4) by (simp add: calls_ok_def)
qed

text \<open>One more refusal on the account.\<close>

lemma counter_ok_settled:
  assumes "counter_ok cfg (start + lock_seconds (LockoutDuration cfg) * second) r s r'"
    and "u_failed_attempts r' + 1 \<le> INT_MAX" "start \<le> t"
    and "refusals_on (u_username r) s' = refusals_on (u_username r) s + 1"
  shows "counter_ok cfg (start + lock_seconds (LockoutDuration cfg) * second) r s' (settled cfg t False r')"
  using assms by (auto simp: counter_ok_def settled_def bump_row_def same_identity_def split: if_splits)

text \<open>What the end of a call does to the state: only the row of its account changes.\<close>

definition finished :: "Config \<Rightarrow> nat \<Rightarrow> auth_clock \<Rightarrow> user_row \<Rightarrow> auth_error + User \<Rightarrow> attempts \<Rightarrow> attempts" where
  "finished cfg i clk x res s = s\<lparr>at_db := put_row (settled cfg (t_db clk) (w_ok (at_open s ! i)) x) (at_db s),
     at_open := take i (at_open s) @ drop (Suc i) (at_open s),
     at_answers := at_answers s @ [(w_username (at_open s ! i), res)]\<rparr>"

lemma attempt_finishes:
  assumes "schema_ok (at_db s)" "outages (at_db s) = []" "i < length (at_open s)" "calls_ok r s"
  obtains x res where "x \<in> set (users (at_db s))" "u_username x = w_username (at_open s ! i)"
    "\<not> w_ok (at_open s ! i) \<Longrightarrow> res = Inl ErrAuthentication"
    "attempt bcmp cfg (Finishes i clk) s = finished cfg i clk x res s"
proof -
  let ?w = "at_open s ! i"
  have "?w \<in> set (at_open s)" using assms(3) by simp
  then obtain x where x: "x \<in> set (users (at_db s))" "u_id (w_row ?w) = u_id x" "u_username x = w_username ?w"
    using assms(4) by (force simp: calls_ok_def)
  note up = auth_record_up [OF assms(1,2) x(1,2), of cfg clk "w_username ?w" "w_ok ?w"]
  show ?thesis
  proof (rule that [OF x(1,3)])
    show "attempt bcmp cfg (Finishes i clk) s =
      finished cfg i clk x (fst (fst (auth_record cfg clk (w_username ?w) (w_row ?w) (w_ok ?w) (at_db s)))) s"
      using assms(3) up(1) by (auto simp: finished_def Let_def split: prod.split)
  qed (use up(2) in simp)
qed

lemma finished_keeps:
  assumes "schema_ok (at_db s)" "outages (at_db s) = []" "x \<in> set (users (at_db s))" "calls_ok r s"
  shows "schema_ok (at_db (finished cfg i clk x res s))" "outages (at_db (finished cfg i clk x res s)) = []"
    "calls_ok r (finished cfg i clk x res s)"
  using assms schema_ok_put_row [OF assms(1,3)] calls_ok_put_row [OF assms(1,3) _ assms(4) refl]
  by (simp_all add: finished_def set_take_subset set_drop_subset)

lemma finished_counts:
  assumes "i < length (at_open s)"
  shows "open_on n s = open_on n (finished cfg i clk x res s) + (if w_username (at_open s ! i) = n then 1 else 0)"
    and "guesses_on n (finished cfg i clk x res s) = guesses_on n s"
    and "refusals_on n (finished cfg i clk x res s) = refusals_on n s +
      (if w_username (at_open s ! i) = n \<and> res = Inl ErrAuthentication then 1 else 0)"
  using filter_without [OF assms, of "\<lambda>w. w_username w = n"] by (auto simp: counting finished_def)

text \<open>It keeps the counter of the account \<open>r\<close> in step, be it the end of a call on this account or on
  another.\<close>

lemma finished_counter:
  assumes "schema_ok (at_db s)" "x \<in> set (users (at_db s))" "u_username x = w_username (at_open s ! i)"
    and "r' \<in> set (users (at_db s))" "counter_ok cfg (start + lock_seconds (LockoutDuration cfg) * second) r s r'"
    and "i < length (at_open s)" "start \<le> t_db clk"
    and "w_username (at_open s ! i) = u_username r \<Longrightarrow>
      \<not> w_ok (at_open s ! i) \<and> res = Inl ErrAuthentication \<and> u_failed_attempts r' + 1 \<le> INT_MAX"
  shows "\<exists>r'' \<in> set (users (at_db (finished cfg i clk x res s))).
    counter_ok cfg (start + lock_seconds (LockoutDuration cfg) * second) r (finished cfg i clk x res s) r''"
proof (cases "w_username (at_open s ! i) = u_username r")
  case True
  have "x = r'"
    using assms(1-5) True distinct_key_unique [of u_username "users (at_db s)" x r']
    by (auto simp: schema_ok_def counter_ok_def same_identity_def)
  then show ?thesis
    using assms(8) [OF True] True put_row_member [OF assms(4), of "settled cfg (t_db clk) False r'"]
      counter_ok_settled [OF assms(5) _ assms(7), of "finished cfg i clk x res s"]
      finished_counts(3) [OF assms(6), of "u_username r" cfg clk x res]
    by (auto simp: finished_def)
next
  case False
  then have "u_id r' \<noteq> u_id x"
    using assms(1-5) distinct_key_unique [of u_id "users (at_db s)" x r']
    by (auto simp: schema_ok_def counter_ok_def same_identity_def)
  then have "r' \<in> set (users (at_db (finished cfg i clk x res s)))"
    using put_row_others [OF assms(1,2) _ assms(4), of "settled cfg (t_db clk) (w_ok (at_open s ! i)) x"]
    by (auto simp: finished_def)
  then show ?thesis
    using assms(5) False finished_counts(3) [OF assms(6), of "u_username r" cfg clk x res]
    by (auto simp: counter_ok_def)
qed

lemma guess_inv_finishes:
  assumes inv: "guess_inv cfg (start + lock_seconds (LockoutDuration cfg) * second) k r s"
    and step: "guessing bcmp cfg start r (Finishes i clk)"
    and range: "MaxFailedAttempts cfg + int k \<le> INT_MAX"
  shows "guess_inv cfg (start + lock_seconds (LockoutDuration cfg) * second) k r (attempt bcmp cfg (Finishes i clk) s)"
proof (cases "i < length (at_open s)")
  case True
  have db: "schema_ok (at_db s)" "outages (at_db s) = []" "calls_ok r s" using inv by (auto simp: guess_inv_def)
  obtain r' where r': "r' \<in> set (users (at_db s))"
    and cnt: "counter_ok cfg (start + lock_seconds (LockoutDuration cfg) * second) r s r'"
    using inv by (auto simp: guess_inv_def)
  obtain x res where x: "x \<in> set (users (at_db s))" "u_username x = w_username (at_open s ! i)"
    and res: "\<not> w_ok (at_open s ! i) \<Longrightarrow> res = Inl ErrAuthentication"
    and eq: "attempt bcmp cfg (Finishes i clk) s = finished cfg i clk x res s"
    using attempt_finishes [OF db(1,2) True db(3)] by metis
  note counts = finished_counts [OF True, of "u_username r" cfg clk x res]
  have mine: "\<not> w_ok (at_open s ! i) \<and> res = Inl ErrAuthentication \<and> u_failed_attempts r' + 1 \<le> INT_MAX"
    if "w_username (at_open s ! i) = u_username r"
    using that res db(3) True inv cnt range counts(1) by (auto simp: calls_ok_def guess_inv_def counter_ok_def)
  have "\<exists>r'' \<in> set (users (at_db (finished cfg i clk x res s))).
      counter_ok cfg (start + lock_seconds (LockoutDuration cfg) * second) r (finished cfg i clk x res s) r''"
    using finished_counter [OF db(1) x r' cnt True] mine step by simp
  then show ?thesis
    using inv finished_keeps [OF db(1,2) x(1) db(3)] counts mine unfolding eq guess_inv_def by auto
qed (use inv in simp)

lemma guess_inv_run:
  assumes "schema_ok d" "outages d = []" "r \<in> set (users d)" "u_locked_until r = None"
    and "u_failed_attempts r < MaxFailedAttempts cfg" "MaxFailedAttempts cfg + int k \<le> INT_MAX"
    and "list_all (guessing bcmp cfg start r) es" "\<forall>n. open_on (u_username r) (at_run bcmp cfg d (take n es)) \<le> k"
  shows "guess_inv cfg (start + lock_seconds (LockoutDuration cfg) * second) k r (at_run bcmp cfg d es)"
  using assms(7,8)
proof (induction es rule: rev_induct)
  case Nil
  show ?case using assms(1-6)
    by (auto simp: at_run_def at_init_def guess_inv_def counter_ok_def calls_ok_def counting intro!: bexI [of _ r])
next
  case (snoc e es)
  have "open_on (u_username r) (at_run bcmp cfg d (take n es)) \<le> k" for n
    using snoc.prems(2) [rule_format, of "min n (length es)"] by (simp add: min_def split: if_splits)
  then have inv: "guess_inv cfg (start + lock_seconds (LockoutDuration cfg) * second) k r (at_run bcmp cfg d es)"
    using snoc.IH snoc.prems(1) by simp
  have "open_on (u_username r) (attempt bcmp cfg e (at_run bcmp cfg d es)) \<le> k"
    using snoc.prems(2) [rule_format, of "Suc (length es)"] by (simp add: at_run_def)
  then show ?case
    using inv snoc.prems(1) assms(6) guess_inv_begins guess_inv_finishes
    by (cases e) (simp_all add: at_run_def del: attempt.simps)
qed

text \<open>Calls under way have begun, so there are never more of them than steps.\<close>

lemma open_on_le_length: "open_on name (at_run bcmp cfg d es) \<le> length es"
proof (induction es rule: rev_induct)
  case (snoc e es)
  have "open_on name (attempt bcmp cfg e s) \<le> Suc (open_on name s)" for s
  proof (cases e)
    case (Finishes i clk)
    then show ?thesis
      using filter_without [of i "at_open s" "\<lambda>w. w_username w = name"]
      by (auto simp: open_on_def Let_def split: prod.split if_splits)
  qed (auto simp: open_on_def split: prod.split sum.split)
  then show ?case using snoc by (auto simp: at_run_def intro: le_trans)
qed (simp add: at_run_def at_init_def open_on_def)

text \<open>A schedule for the witness: six calls at once on an account that five failures lock.\<close>

definition demo_schedule :: "attempt_step list" where
  "demo_schedule = replicate 6 (Begins ''jdoe'' ''guess'' 5) @ replicate 6 (Finishes 0 \<lparr>t_check = 5, t_db = 7, t_after = 8\<rparr>)"

subsection \<open>Properties\<close>

text \<open>C8. The lockout bounds the guessing in every interleaving. Take any schedule of login calls, on
  any accounts, in which nobody tries the right password of an account that is not locked, and at
  most \<open>k\<close> calls on it are under way at a time. No failure is lost: its counter in the table is the
  one at the start plus the number of refusals, however the calls overlap. From the moment the
  counter has reached \<^verbatim>\<open>MaxFailedAttempts\<close> every new call is turned away as locked, with any
  password. So within one lockout period at most \<^verbatim>\<open>MaxFailedAttempts\<close> - 1 + \<open>k\<close> passwords, less the
  failures already counted, are ever compared with its hash.\<close>

theorem lockout_bounds_guessing:
  assumes "schema_ok d" "outages d = []" "r \<in> set (users d)" "u_locked_until r = None"
    and "u_failed_attempts r < MaxFailedAttempts cfg" "MaxFailedAttempts cfg + int k \<le> INT_MAX"
    and "list_all (guessing bcmp cfg start r) es" "\<forall>n. open_on (u_username r) (at_run bcmp cfg d (take n es)) \<le> k"
    and "s = at_run bcmp cfg d es"
  shows "(\<exists>r' \<in> set (users (at_db s)). u_id r' = u_id r
      \<and> u_failed_attempts r' = u_failed_attempts r + int (refusals_on (u_username r) s)
      \<and> (MaxFailedAttempts cfg \<le> u_failed_attempts r' \<longrightarrow>
          (\<forall>now pw. now < start + lock_seconds (LockoutDuration cfg) * second \<longrightarrow>
             auth_check bcmp now (u_username r) pw (at_db s) = ((Inl ErrAccountLocked, []), at_db s))))
    \<and> int (guesses_on (u_username r) s) \<le> MaxFailedAttempts cfg - 1 - u_failed_attempts r + int k"
proof -
  let ?deadline = "start + lock_seconds (LockoutDuration cfg) * second"
  have inv: "guess_inv cfg ?deadline k r s" using guess_inv_run [OF assms(1-8)] assms(9) by simp
  then obtain r' where r': "r' \<in> set (users (at_db s))" "counter_ok cfg ?deadline r s r'"
    and db: "schema_ok (at_db s)" "outages (at_db s) = []"
    by (auto simp: guess_inv_def)
  have "locked_at now r'" if "MaxFailedAttempts cfg \<le> u_failed_attempts r'" "now < ?deadline" for now
    using r'(2) that by (auto simp: counter_ok_def locked_at_def)
  then show ?thesis
    using r' inv auth_check_up [OF db r'(1)]
    by (auto simp: counter_ok_def same_identity_def guess_inv_def intro!: bexI [of _ r'])
qed

theorem lockout_bounds_guessing_witness:
  "(\<exists>r' \<in> set (users (at_db (at_run demo_cmp demo_config demo_db demo_schedule))). u_id r' = u_id demo_user
      \<and> u_failed_attempts r' = u_failed_attempts demo_user
          + int (refusals_on (u_username demo_user) (at_run demo_cmp demo_config demo_db demo_schedule))
      \<and> (MaxFailedAttempts demo_config \<le> u_failed_attempts r' \<longrightarrow>
          (\<forall>now pw. now < 0 + lock_seconds (LockoutDuration demo_config) * second \<longrightarrow>
             auth_check demo_cmp now (u_username demo_user) pw (at_db (at_run demo_cmp demo_config demo_db demo_schedule))
             = ((Inl ErrAccountLocked, []), at_db (at_run demo_cmp demo_config demo_db demo_schedule)))))
    \<and> int (guesses_on (u_username demo_user) (at_run demo_cmp demo_config demo_db demo_schedule))
        \<le> MaxFailedAttempts demo_config - 1 - u_failed_attempts demo_user + int (length demo_schedule)"
  by (rule lockout_bounds_guessing [OF _ _ _ _ _ _ _ _ refl])
    (simp_all add: demo_config_def INT_MAX_def demo_schedule_def lock_seconds_def list_all_iff open_on_le_length
      [where bcmp = demo_cmp and d = demo_db, THEN order_trans])

text \<open>The bound cannot be lowered to the threshold: calls that have all read the row before the first
  of them records its failure get their password compared, however many they are.\<close>

theorem parallel_guesses_compared:
  assumes "schema_ok d" "outages d = []" "r \<in> set (users d)" "\<not> locked_at now r"
  shows "guesses_on (u_username r) (at_run bcmp cfg d (map (\<lambda>pw. Begins (u_username r) pw now) pws)) = length pws"
proof -
  have "at_db (at_run bcmp cfg d (map (\<lambda>pw. Begins (u_username r) pw now) pws)) = d
    \<and> at_compared (at_run bcmp cfg d (map (\<lambda>pw. Begins (u_username r) pw now) pws)) = map (Pair (u_username r)) pws"
    using auth_check_up [OF assms(1-3)] assms(4)
    by (induction pws rule: rev_induct) (auto simp: at_run_def at_init_def)
  then show ?thesis by (simp add: guesses_on_def filter_map comp_def)
qed

end
