(* ===== verification/Spec2Isabelle.thy ===== *)
theory Spec2Isabelle
  imports Zttp_Lifecycle Zttp_Cli Zttp_Tools Zttp_Attempts
begin

text \<open>
  Verification of the Zero-Trust Terminal Proxy.

  The program is a gateway in front of the SSH access to a fleet of servers. A client (\<^verbatim>\<open>cmd/zttp\<close>,
  \<^verbatim>\<open>internal/cli\<close>) opens a TLS connection to the proxy (\<^verbatim>\<open>cmd/proxy\<close>, \<^verbatim>\<open>internal/proxy\<close>) and sends one framed
  request with a user name, a password and a target. The proxy limits the rate per address
  (\<^verbatim>\<open>internal/ratelimit\<close>), refuses when its audit disk is full (\<^verbatim>\<open>internal/audit/diskguard.go\<close>),
  authenticates against the database with a lockout (\<^verbatim>\<open>internal/auth\<close>), authorizes the target by role and
  grants (\<^verbatim>\<open>internal/rbac\<close>), fetches the target's key and host fingerprint from Vault (\<^verbatim>\<open>internal/vault\<close>),
  registers the session (\<^verbatim>\<open>internal/session\<close>, \<^verbatim>\<open>internal/killswitch\<close>) and bridges the terminal: keystrokes
  pass a command filter, output is recorded (\<^verbatim>\<open>internal/audit/writer.go\<close>), a keepalive and a kill switch
  can end it. Users without a target get a menu; administrators have a console that manages users,
  servers and access and shows the recordings.

  \<^bold>\<open>Theories.\<close> \<open>Zttp_Prelude\<close> has the shared types, the automation (\<open>frame_simps\<close> and other collections) and the
  generic locales: framed codecs, option-valued machines with invariants, simulations. \<open>Zttp_Strings\<close> models the functions of
  Go's \<^verbatim>\<open>strings\<close>, \<^verbatim>\<open>fmt\<close> and base64 packages that the code uses, \<open>Zttp_IO\<close> writers, connections and the key
  decoder \<^verbatim>\<open>readKey\<close>, \<open>Zttp_Database\<close> the tables and constraints of \<^verbatim>\<open>db/migrations\<close>, \<open>Zttp_Net\<close> IP addresses
  and host:port strings.

    \<^item> \<open>Zttp_Config\<close>: \<^verbatim>\<open>config.go\<close>; \<open>Zttp_Commands\<close>: \<^verbatim>\<open>rbac/commands.go\<close>; \<open>Zttp_CmdFilter\<close>: \<^verbatim>\<open>proxy/cmdfilter.go\<close>.
    \<^item> \<open>Zttp_Auth\<close>: \<^verbatim>\<open>auth.go\<close>, \<^verbatim>\<open>hash.go\<close>; \<open>Zttp_Attempts\<close>: overlapping calls of \<^verbatim>\<open>Authenticate\<close>;
      \<open>Zttp_Rbac\<close>: \<^verbatim>\<open>rbac.go\<close>; \<open>Zttp_RateLimit\<close>: both \<^verbatim>\<open>ratelimit.go\<close>.
    \<^item> \<open>Zttp_Session\<close>: \<^verbatim>\<open>store.go\<close>, \<^verbatim>\<open>cleanup.go\<close>; \<open>Zttp_Rpc\<close>: the generated code of the kill switch service: messages, stubs,
      handlers and the descriptor; \<open>Zttp_KillSwitch\<close>: the connection manager, the service, the client and
      \<^verbatim>\<open>cmd/proxy/handlers.go\<close>; \<open>Zttp_Vault\<close>: \<^verbatim>\<open>vault.go\<close>, \<^verbatim>\<open>keyfetch.go\<close>, \<^verbatim>\<open>fingerprint.go\<close>.
    \<^item> \<open>Zttp_Audit\<close>: \<^verbatim>\<open>writer.go\<close>, \<^verbatim>\<open>adminlog.go\<close>, \<^verbatim>\<open>diskguard.go\<close> over a file system with finite space.
    \<^item> \<open>Zttp_Wire\<close>: the request, the reply and the resize message (\<^verbatim>\<open>transport.go\<close>, \<^verbatim>\<open>accept.go\<close>).
    \<^item> \<open>Zttp_Bridge\<close>: \<^verbatim>\<open>bridge.go\<close>, \<^verbatim>\<open>keepalive.go\<close> as a step relation over its goroutines.
    \<^item> \<open>Zttp_Gateway\<close>: \<^verbatim>\<open>gateway_tui.go\<close>; \<open>Zttp_Accept\<close>: \<^verbatim>\<open>handleConnection\<close> and \<^verbatim>\<open>connectToTarget\<close> of \<^verbatim>\<open>accept.go\<close>,
      the latter split after the authorization (\<open>connect_granted\<close>) and after the bridge (\<open>connect_finish\<close>).
    \<^item> \<open>Zttp_Screens\<close>, \<open>Zttp_Replay\<close>, \<open>Zttp_Admin\<close>, \<open>Zttp_Console\<close>: \<^verbatim>\<open>admin_tui.go\<close>: the screens, the viewers of
      recordings, the operations on users, servers and access, and the console's state machine, one round of which is
      \<open>console_turn\<close>.
    \<^item> \<open>Zttp_Client\<close>: \<^verbatim>\<open>login_tui.go\<close>, \<^verbatim>\<open>connect.go\<close>, \<^verbatim>\<open>terminal.go\<close>, \<^verbatim>\<open>resize_unix.go\<close>, \<^verbatim>\<open>ConnectTLS\<close>, \<^verbatim>\<open>RunPipe\<close>;
      \<open>Zttp_Cli\<close>: the \<^verbatim>\<open>connect\<close> command, \<^verbatim>\<open>app.go\<close> and \<^verbatim>\<open>cmd/zttp/main.go\<close>.
    \<^item> \<open>Zttp_Process\<close>: \<^verbatim>\<open>cmd/proxy/main.go\<close>, \<^verbatim>\<open>db.go\<close>, \<^verbatim>\<open>listener.go\<close>, \<^verbatim>\<open>health.go\<close>, \<^verbatim>\<open>AcceptLoop\<close>.
    \<^item> \<open>Zttp_System\<close>: the whole server, all connections with their handlers, bridges and consoles and the background loops
      over one shared state; \<open>Zttp_Monitor\<close>: the reference monitor it refines; \<open>Zttp_Runs\<close>: what holds along its runs;
      \<open>Zttp_Lifecycle\<close>: the HTTP server, shutdown and restart, and kills that come over the network.
    \<^item> \<open>Zttp_Tools\<close>: the migration tool with the scripts of \<^verbatim>\<open>db/migrations\<close>, and the password tool.

  \<^bold>\<open>Conventions.\<close> A Go struct is a record, an error a value of a sum type, a method a function that returns the
  updated state. Definitions keep the names of the code; a prefix tells apart methods of the same name
  (\<open>cm_Terminate\<close>, \<open>audit_Write\<close>, \<open>login_readKey\<close>). Integers keep their width where it matters (\<open>32 word\<close> in
  frame headers, \<open>64 word\<close> in the disk guard, \<open>INT_MAX\<close> for the failure counter). SQL statements act on the
  record of tables and take the next entry of a script of outages, so that every statement can fail. Reads take
  the next entry of a script of bytes, timeouts and errors; writers carry the outcomes of the coming writes.
  Libraries (bcrypt, SHA-256, the token bucket, Vault, TLS, SSH, JSON, Viper, UUIDs, time formats) are parameters,
  and what a theorem needs of them is among its hypotheses.

  \<^bold>\<open>Concurrency.\<close> A statement, a critical section and a single read or write are atomic. The bridge is the relation
  \<open>bridge_step\<close> whose steps are the loop bodies of the goroutines and the calls that reach them from outside; its
  theorems hold of every reachable state. The whole server is the function \<open>system_step\<close> on events: a step is one stretch of
  one goroutine (a request with its login, a visit to the menu, an authorization, the setup of a session, a turn of a bridge,
  a round of a console, a tick of a background loop), and a run is any sequence of enabled steps, so that all
  interleavings of these stretches are covered, among them those in which others act between the authorization of a target and
  the registration of its session. Statements about the status of sessions assume that the database answers. The client's
  copying and resize goroutines run under an arbitrary schedule. A login is one step of \<open>system_step\<close>; \<open>Zttp_Attempts\<close> splits
  it between its two statements and lets any number of logins overlap there.

  \<^bold>\<open>Loops.\<close> No fuel is needed: the loops of the screens end because each round consumes input (\<open>console_loop\<close>,
  \<open>gateway_loop\<close>, \<open>login_loop\<close>, with termination proofs), the loops over data are structural or shrink the data. The
  renewal, monitoring and accept loops run forever in the program and are functions of what they receive. A
  replay that waits for a key that never comes is the value \<open>None\<close>.

  \<^bold>\<open>What is shown.\<close>
    \<^item> \<^emph>\<open>The whole server\<close>: every run refines a reference monitor of accounts, permissions, consoles and sessions; every
      session was permitted at a moment of the run; all reachable states are well formed; ended sessions are closed; a
      kill, from a console, the kill switch or over the network, silences the target and ends the session; a restart
      repairs what a shutdown left.
    \<^item> \<^emph>\<open>Access\<close>: a session is bridged only for a user who may reach the host under the policy, with the policy's
      commands and a verified host key; nobody passes the handler unauthenticated; refusals reveal nothing of
      the inventory; authorization and the menu agree with one definition of the policy.
    \<^item> \<^emph>\<open>Authentication\<close>: success needs the right password of an account that is not locked; the threshold locks,
      and bounds the guesses also when logins overlap; what happens after a lockout has expired.
    \<^item> \<^emph>\<open>Commands\<close>: the exact policy of a line; multiplexers stay blocked; the filter refines a reference that
      works on lines; the bridge forwards Enter only for allowed lines.
    \<^item> \<^emph>\<open>Sessions\<close>: registration, termination, clean-up and kill are exact; teardown leaves nothing behind; the
      recording is what the screen showed and reads back.
    \<^item> \<^emph>\<open>Secrets\<close>: key material is wiped on every way out; the console shows no password.
    \<^item> \<^emph>\<open>Administration\<close>: the console never panics, keeps the schema, only adds accounts and only with a bcrypt hash
      of a confirmed password; its access screen shows the policy and saving it makes the policy what was ticked
      and kills the sessions of revoked grants; an account it makes can be used from the client.
    \<^item> \<^emph>\<open>Process, client and tools\<close>: what start-up establishes; the client's exit codes and that the terminal mode is
      restored; sessions are transparent; the migrations build the schema and can be run again.
    \<^item> \<^emph>\<open>Interfaces\<close>: locales for codecs, gates, machines, simulations, limiters, session stores, scripts that can be run again
      (\<open>rerunnable\<close>) and relations kept by the administration (\<open>admin_writes\<close>, \<open>console_writes\<close>) carry the shared
      arguments; each is interpreted on the definitions of the components that provide it.

  \<^bold>\<open>Not modelled.\<close> The reflection tables and the raw descriptor of the generated protobuf code, which only the protobuf
  runtime reads; the parsing of arguments and flags, which the command line library does; the logger's output; and the empty
  resize watcher of the Windows client. The constructors that only store their
  arguments (\<^verbatim>\<open>auth.New\<close>, \<^verbatim>\<open>rbac.New\<close>, \<^verbatim>\<open>NewStore\<close>) have no definition of their own: their fields are the
  arguments of the definitions.
\<close>

section \<open>From the console to the proxy\<close>

text \<open>What the Enter key on the role screen has done when it leads on to the access screen.\<close>

lemma role_select_created:
  assumes "key_role_select E n al KeyEnter co sv = (Stay co', sv')" "co_state co = StateRoleSelect" "co_state co' = StateAssignAccess"
    and "outages (sv_db sv) = []"
  shows "createUser (ul_string (ce_uuids E)) (ce_err E) (ce_bcrypt E n) (ce_newid E n) (uf_username (co_uForm co)) (uf_password (co_uForm co))
      (uf_role (co_uForm co')) (sv_db sv) = (Inr (co_createdUserID co'), sv_db sv')
    \<and> sv_limiter sv' = sv_limiter sv \<and> sv_guard sv' = sv_guard sv"
proof -
  let ?r = "co_roles co ! co_menuIndex co"
  obtain x d where cu: "createUser (ul_string (ce_uuids E)) (ce_err E) (ce_bcrypt E n) (ce_newid E n) (uf_username (co_uForm co))
      (uf_password (co_uForm co)) ?r (sv_db sv) = (x, d)" by (rule prod.exhaust)
  have up: "outages d = []" using cu assms(4)
    by (auto simp: createUser_def insert_user_def run_stmt_up split: sum.splits prod.splits if_splits)
  show ?thesis
    using assms cu up
    by (cases x) (auto simp: key_role_select_def goto_def Let_def queryServers_def select_servers_def query_up split: if_splits)
qed

lemma printable_login_char: "printable ch \<Longrightarrow> login_char ch"
  by (auto simp: printable_def login_char_def Let_def)

text \<open>C13. An account made in the admin console can be used from the client: when the administrator's Enter on the
  role screen leads on to the access screen, the name and password typed there, typed again on the
  client's login screen, are sent to the proxy and bring the user to the gateway under the new
  account's id and the chosen role, unless the name is one of the words that leave the login screen.\<close>

theorem console_account_logs_in:
  assumes "console_ok co" "co_state co = StateRoleSelect" "key_role_select E n al KeyEnter co sv = (Stay co', sv')"
    and "co_state co' = StateAssignAccess" "u = uf_username (co_uForm co)" "p = uf_password (co_uForm co)"
    and "u \<notin> {''exit'', ''quit''}" "schema_ok (sv_db sv)" "outages (sv_db sv) = []"
    and "\<forall>n p c h. ce_bcrypt E n p c = Inr h \<longrightarrow> bcmp h p"
    and "c_in (t_con t) = login_typing u p @ rest" "t_raw_err t = None"
    and "dial client_tls proxyAddr = Inr c" "good_sink (c_out c)" "sk_data (c_out c) = []"
    and "json_dec (json_enc (client_request u p ''zttp-gateway'' t)) = Inr (client_request u p ''zttp-gateway'' t)"
    and "length (json_enc (client_request u p ''zttp-gateway'' t)) \<le> 4096"
    and "snd (snd (RunConnect dial json_enc elapsed sched proxyAddr ''zttp-gateway'' [] t)) = Some c'"
    and "c_in pc = map RByte (sk_data (c_out c')) @ later"
    and "fst (Allow mk lim (now, conn_ip remoteAddr) (sv_limiter sv))" "\<not> ShouldRejectNewConnections (sv_guard sv)"
  shows "fst (handleConnection mk lim json_dec req_err bcmp cfg now clk remoteAddr pc sv') =
    ToGateway \<lparr>usr_ID = ce_newid E n, usr_Username = u, usr_Role = uf_role (co_uForm co')\<rparr>"
proof -
  have "list_all printable u" "list_all printable p" "u \<noteq> []" "p \<noteq> []"
    using assms(1,2,5,6) by (auto simp: console_ok_def user_form_confirmed_def user_form_typed_def Let_def)
  then have typed: "list_all login_char u" "list_all login_char p" "u \<noteq> []" "p \<noteq> []"
    using printable_login_char by (auto simp: list_all_iff)
  have names: "u \<noteq> ''exit''" "u \<noteq> ''quit''" using assms(7) by auto
  obtain req pc' where req: "readConnectRequest json_dec pc = (Inr req, pc')"
    "cr_Username req = u" "cr_Password req = p" "cr_Target req = ''zttp-gateway''"
    using login_reaches_proxy [where dial = dial and json_dec = json_dec and json_enc = json_enc and hostname = "''zttp-gateway''"
        and elapsed = elapsed and sched = sched, OF typed names assms(11-17)] assms(18,19) by auto
  note cu = role_select_created [OF assms(3,2,4,9)]
  have auth: "ao_result (Authenticate bcmp cfg clk (sv_db sv') u p) =
      Inr \<lparr>usr_ID = ce_newid E n, usr_Username = u, usr_Role = uf_role (co_uForm co')\<rparr>"
    using created_user_can_login [OF assms(8,9), of "ce_bcrypt E n" bcmp, OF _ conjunct1 [OF cu]] assms(5,6,10) by blast
  obtain l' where "Allow mk lim (now, conn_ip remoteAddr) (sv_limiter sv') = (True, l')"
    using assms(20) cu by (cases "Allow mk lim (now, conn_ip remoteAddr) (sv_limiter sv)") auto
  then show ?thesis using assms(21) cu req auth
    by (simp add: handleConnection_def Let_def admin_console_name_def)
qed

text \<open>The role screen of a console in which the user name ``eve'' and the password ``pw'' were typed.\<close>

definition demo_role_screen :: console where
  "demo_role_screen = console_init\<lparr>co_state := StateRoleSelect, co_roles := [''dev''],
     co_uForm := empty_user_form\<lparr>uf_username := ''eve'', uf_password := ''pw'', uf_confirm := ''pw''\<rparr>\<rparr>"

lemma demo_role_screen_ok: "console_ok demo_role_screen" "co_state demo_role_screen = StateRoleSelect"
  by (simp_all add: demo_role_screen_def console_init_def console_ok_def user_form_confirmed_def user_form_typed_def empty_user_form_def printable_def)

lemma demo_created:
  "\<exists>co' sv'. key_role_select demo_console_env 1 None KeyEnter demo_role_screen (demo_server demo_rbac) = (Stay co', sv')
     \<and> co_state co' = StateAssignAccess \<and> uf_role (co_uForm co') = ''dev''"
  by (simp add: key_role_select_def demo_role_screen_def console_init_def demo_console_env_def createUser_def insert_user_def run_stmt_up demo_server_def demo_rbac_def
      fits_def runes_all_ascii ascii_def empty_user_form_def admin_log_def goto_def Let_def case_prod_unfold)

theorem console_account_logs_in_witness:
  "\<exists>co' sv' c'. key_role_select demo_console_env 1 None KeyEnter demo_role_screen (demo_server demo_rbac) = (Stay co', sv')
    \<and> snd (snd (RunConnect (\<lambda>_ _. Inr (demo_conn [RByte (CHR 0x00)])) demo_enc 7 [CtxDone] ''127.0.0.1:2224'' ''zttp-gateway'' []
        (demo_tty (login_typing ''eve'' ''pw'' @ [])))) = Some c'
    \<and> fst (handleConnection (\<lambda>_ _. ()) (\<lambda>_ _. (True, ())) (\<lambda>_. Inr (client_request ''eve'' ''pw'' ''zttp-gateway'' (demo_tty (login_typing ''eve'' ''pw'' @ []))))
        (\<lambda>_. []) (\<lambda>h p. h = CHR ''$'' # p) demo_config 0 demo_clk ''10.0.0.7:5000'' (demo_conn (map RByte (sk_data (c_out c')) @ [])) sv') =
      ToGateway \<lparr>usr_ID = 9, usr_Username = ''eve'', usr_Role = ''dev''\<rparr>"
proof -
  obtain co' sv' where k: "key_role_select demo_console_env 1 None KeyEnter demo_role_screen (demo_server demo_rbac) = (Stay co', sv')"
    "co_state co' = StateAssignAccess" "uf_role (co_uForm co') = ''dev''"
    using demo_created by blast
  let ?t = "demo_tty (login_typing ''eve'' ''pw'' @ [])" and ?dial = "\<lambda>_ _. Inr (demo_conn [RByte (CHR 0x00)])"
  let ?dec = "\<lambda>_. Inr (client_request ''eve'' ''pw'' ''zttp-gateway'' ?t)"
  obtain c' where c': "snd (snd (RunConnect ?dial demo_enc 7 [CtxDone] ''127.0.0.1:2224'' ''zttp-gateway'' [] ?t)) = Some c'"
    using login_reaches_proxy [of "''eve''" "''pw''" ?t "[]" ?dial "''127.0.0.1:2224''" "demo_conn [RByte (CHR 0x00)]"
        ?dec demo_enc "''zttp-gateway''" 7 "[CtxDone]"]
    by (auto simp: login_char_def client_request_def demo_tty_def demo_conn_def good_sink_def demo_enc_def)
  have "fst (handleConnection (\<lambda>_ _. ()) (\<lambda>_ _. (True, ())) ?dec (\<lambda>_. []) (\<lambda>h p. h = CHR ''$'' # p) demo_config 0 demo_clk ''10.0.0.7:5000''
        (demo_conn (map RByte (sk_data (c_out c')) @ [])) sv') =
      ToGateway \<lparr>usr_ID = ce_newid demo_console_env 1, usr_Username = ''eve'', usr_Role = uf_role (co_uForm co')\<rparr>"
  proof (rule console_account_logs_in [OF demo_role_screen_ok k(1,2)])
    show "snd (snd (RunConnect ?dial demo_enc 7 [CtxDone] ''127.0.0.1:2224'' ''zttp-gateway'' [] ?t)) = Some c'" by (rule c')
    show "c_in (t_con ?t) = login_typing ''eve'' ''pw'' @ []" "t_raw_err ?t = None" by (simp_all add: demo_tty_def demo_conn_def)
    show "c_in (demo_conn (map RByte (sk_data (c_out c')) @ [])) = map RByte (sk_data (c_out c')) @ []" by (simp add: demo_conn_def)
    show "?dec (demo_enc (client_request ''eve'' ''pw'' ''zttp-gateway'' ?t)) = Inr (client_request ''eve'' ''pw'' ''zttp-gateway'' ?t)" ..
    show "schema_ok (sv_db (demo_server demo_rbac))" "outages (sv_db (demo_server demo_rbac)) = []"
      using demo_rbac_ok by (simp_all add: demo_server_def)
    show "?dial client_tls ''127.0.0.1:2224'' = Inr (demo_conn [RByte (CHR 0x00)])" ..
  qed (simp_all add: demo_role_screen_def demo_console_env_def client_request_def demo_tty_def demo_conn_def good_sink_def demo_enc_def
      demo_server_def Allow_def NewDiskGuard_def ShouldRejectNewConnections_def Let_def)
  then show ?thesis using k c' by (intro exI [of _ co'] exI [of _ sv'] exI [of _ c']) (simp add: demo_console_env_def)
qed

end
